(* ===== verification/Go_Base.thy ===== *)
theory Go_Base
  imports Main "HOL-Library.Word" "HOL-Library.Char_ord" "HOL-Library.List_Lexorder"
begin

text \<open>
  The part of the Go language and of its standard library that the program uses, shared by
  every component.

  A Go \<open>byte\<close> is a \<^typ>\<open>char\<close> (eight bits), and both \<open>string\<close> and \<open>[]byte\<close> are a
  \<^typ>\<open>string\<close>, a list of bytes; Go compares strings bytewise, which is the lexicographic
  order of \<open>List_Lexorder\<close> over \<open>Char_ord\<close>. An \<open>int64\<close> (and \<open>int\<close>, 64 bits wide on the
  platforms the server runs on) is an \<^typ>\<open>int\<close> with the wrap-around written out
  (\<open>wrap_i64\<close>); a \<open>uint64\<close> is a \<open>64 word\<close>.

  What a function reads from outside the program (the clock) and the part of the Unicode
  tables behind \<open>strings.ToUpper\<close>, \<open>strings.ToLower\<close> and \<open>strconv.Quote\<close> are fields of the
  record \<open>go_env\<close>: every definition that uses them takes the record as an argument.
\<close>

section \<open>Collections of facts\<close>

named_theorems go_simps \<open>unfolding equations of the Go library model\<close>
named_theorems wf_intros \<open>operations preserve well-formedness\<close>

section \<open>The environment\<close>

text \<open>
  \<open>now_ns\<close> is \<open>time.Now()\<close> in nanoseconds since the Unix epoch. \<open>upper_u\<close>, \<open>lower_u\<close> and
  \<open>quote_u\<close> are what \<open>strings.ToUpper\<close>, \<open>strings.ToLower\<close> and \<open>strconv.Quote\<close> return for a
  string that holds a byte outside ASCII.
\<close>

record go_env =
  now_ns :: int
  upper_u :: "string \<Rightarrow> string"
  lower_u :: "string \<Rightarrow> string"
  quote_u :: "string \<Rightarrow> string"

text \<open>An environment for concrete runs, on ASCII strings.\<close>

definition plain_env :: "int \<Rightarrow> go_env" where
  "plain_env t = \<lparr>now_ns = t, upper_u = (\<lambda>s. s), lower_u = (\<lambda>s. s), quote_u = (\<lambda>s. s)\<rparr>"

lemma now_ns_plain [simp]: "now_ns (plain_env t) = t"
  by (simp add: plain_env_def)

text \<open>\<open>Time.UnixMilli\<close> rounds towards minus infinity: the nanosecond part of a \<open>Time\<close> is
  never negative.\<close>

definition now_ms :: "go_env \<Rightarrow> int" where
  "now_ms e = now_ns e div 1000000"

section \<open>Machine integers\<close>

definition wrap_i64 :: "int \<Rightarrow> int" where
  "wrap_i64 x = (x + 2 ^ 63) mod 2 ^ 64 - 2 ^ 63"

definition in_i64 :: "int \<Rightarrow> bool" where
  "in_i64 x \<longleftrightarrow> - (2 ^ 63) \<le> x \<and> x < 2 ^ 63"

lemma wrap_i64_in [simp]: "in_i64 (wrap_i64 x)"
  by (simp add: in_i64_def wrap_i64_def)

lemma wrap_i64_id [simp]: "in_i64 x \<Longrightarrow> wrap_i64 x = x"
  by (simp add: in_i64_def wrap_i64_def)

section \<open>Strings\<close>

definition ascii :: "char \<Rightarrow> bool" where
  "ascii c \<longleftrightarrow> (of_char c :: nat) < 128"

definition upper_char :: "char \<Rightarrow> char" where
  "upper_char c = (let n = (of_char c :: nat) in if 97 \<le> n \<and> n \<le> 122 then char_of (n - 32) else c)"

definition lower_char :: "char \<Rightarrow> char" where
  "lower_char c = (let n = (of_char c :: nat) in if 65 \<le> n \<and> n \<le> 90 then char_of (n + 32) else c)"

definition ToUpper :: "go_env \<Rightarrow> string \<Rightarrow> string" where
  "ToUpper e s = (if list_all ascii s then map upper_char s else upper_u e s)"

definition ToLower :: "go_env \<Rightarrow> string \<Rightarrow> string" where
  "ToLower e s = (if list_all ascii s then map lower_char s else lower_u e s)"

definition HasPrefix :: "string \<Rightarrow> string \<Rightarrow> bool" where
  "HasPrefix s p \<longleftrightarrow> take (length p) s = p"

definition HasSuffix :: "string \<Rightarrow> string \<Rightarrow> bool" where
  "HasSuffix s p \<longleftrightarrow> length p \<le> length s \<and> drop (length s - length p) s = p"

definition TrimPrefix :: "string \<Rightarrow> string \<Rightarrow> string" where
  "TrimPrefix s p = (if HasPrefix s p then drop (length p) s else s)"

fun Contains :: "string \<Rightarrow> string \<Rightarrow> bool" where
  "Contains [] p = (p = [])"
| "Contains (c # s) p = (HasPrefix (c # s) p \<or> Contains s p)"

text \<open>\<open>strings.Split\<close> with a separator of one byte; the result is never empty.\<close>

fun Split :: "string \<Rightarrow> char \<Rightarrow> string list" where
  "Split [] sep = [[]]"
| "Split (c # s) sep =
     (if c = sep then [] # Split s sep
      else (case Split s sep of [] \<Rightarrow> [[c]] | p # ps \<Rightarrow> (c # p) # ps))"

lemma Split_nonempty [simp]: "Split s sep \<noteq> []"
  by (cases s) (auto split: list.splits)

lemma Split_no_sep: "sep \<notin> set s \<Longrightarrow> Split s sep = [s]"
  by (induction s) auto

lemma Split_append: "sep \<notin> set s \<Longrightarrow> Split (s @ sep # t) sep = s # Split t sep"
  by (induction s) auto

lemma HasPrefix_iff: "HasPrefix s p \<longleftrightarrow> (\<exists>t. s = p @ t)"
  by (auto simp: HasPrefix_def) (metis append_take_drop_id)

lemma HasSuffix_append [simp]: "HasSuffix (s @ p) p"
  by (simp add: HasSuffix_def)

section \<open>CRLF\<close>

abbreviation CR :: char where "CR \<equiv> CHR 0x0D"
abbreviation LF :: char where "LF \<equiv> CHR 0x0A"

definition crlf :: string where
  "crlf = [CR, LF]"

section \<open>Results of a call that may panic\<close>

text \<open>A run-time panic (an index out of range, a failed type assertion, a nil dereference)
  ends the call, and the process unless it is recovered; nothing in the program recovers.\<close>

datatype 'a go = Ret 'a | Panic

section \<open>Maps\<close>

text \<open>A Go map is an association list with distinct keys; the order of the list stands for the
  order in which \<open>range\<close> visits the map, which Go leaves open. \<open>m[k] = v\<close> and
  \<open>delete(m, k)\<close>; \<open>v, ok := m[k]\<close> is \<open>map_of m k\<close>.\<close>

fun map_put :: "('k \<times> 'v) list \<Rightarrow> 'k \<Rightarrow> 'v \<Rightarrow> ('k \<times> 'v) list" where
  "map_put [] k v = [(k, v)]"
| "map_put ((k', v') # m) k v = (if k' = k then (k, v) # m else (k', v') # map_put m k v)"

definition map_delete :: "('k \<times> 'v) list \<Rightarrow> 'k \<Rightarrow> ('k \<times> 'v) list" where
  "map_delete m k = filter (\<lambda>kv. fst kv \<noteq> k) m"

lemma map_put_new: "k \<notin> fst ` set m \<Longrightarrow> map_put m k v = m @ [(k, v)]"
  by (induction m) auto

lemma map_put_set: "set (map_put m k v) \<subseteq> insert (k, v) (set m)"
  by (induction m) (auto split: if_splits)

lemma map_put_keys:
  "map fst (map_put m k v) = (if k \<in> set (map fst m) then map fst m else map fst m @ [k])"
  by (induction m) (auto simp del: set_map)

lemma map_put_distinct: "distinct (map fst m) \<Longrightarrow> distinct (map fst (map_put m k v))"
  unfolding map_put_keys by simp

lemma map_of_put [simp]: "map_of (map_put m k v) k' = (if k' = k then Some v else map_of m k')"
  by (induction m) auto

lemma map_of_delete [simp]: "map_of (map_delete m k) k' = (if k' = k then None else map_of m k')"
  by (induction m) (auto simp: map_delete_def)

lemma map_delete_distinct: "distinct (map fst m) \<Longrightarrow> distinct (map fst (map_delete m k))"
  by (simp add: map_delete_def distinct_map_filter)

section \<open>Times\<close>

text \<open>A \<open>time.Time\<close> made by \<open>time.Unix\<close>: seconds since the Unix epoch and nanoseconds.\<close>

record go_time =
  t_sec :: int
  t_nsec :: int

text \<open>The zero \<open>Time\<close> is January 1, year 1, 00:00:00 UTC.\<close>

definition zero_time :: go_time where
  "zero_time = \<lparr>t_sec = -62135596800, t_nsec = 0\<rparr>"

definition IsZero :: "go_time \<Rightarrow> bool" where
  "IsZero t \<longleftrightarrow> t = zero_time"

definition time_Unix :: "int \<Rightarrow> go_time" where
  "time_Unix s = \<lparr>t_sec = s, t_nsec = 0\<rparr>"

definition time_UnixMilli :: "int \<Rightarrow> go_time" where
  "time_UnixMilli ms = \<lparr>t_sec = ms div 1000, t_nsec = ms mod 1000 * 1000000\<rparr>"

definition UnixMilli :: "go_time \<Rightarrow> int" where
  "UnixMilli t = wrap_i64 (t_sec t * 1000 + t_nsec t div 1000000)"

lemma UnixMilli_UnixMilli [simp]: "in_i64 ms \<Longrightarrow> UnixMilli (time_UnixMilli ms) = ms"
proof -
  assume "in_i64 ms"
  moreover have "ms div 1000 * 1000 + ms mod 1000 = ms" by simp
  ultimately show ?thesis by (simp add: UnixMilli_def time_UnixMilli_def)
qed

end
