(* ===== verification/Radix_Node.thy ===== *)
theory Radix_Node
  imports Go_Base "HOL-Library.Multiset"
begin

text \<open>
  \<open>pkg/keyval/radix_tree.go\<close>, first half: stream entries, radix-tree nodes and the four
  child containers \<open>Node4\<close>, \<open>Node16\<close>, \<open>Node48\<close> and \<open>Node256\<close> behind the interface
  \<open>NodeChildren\<close>. A Go array is a list of fixed length, a child pointer an option (nil is
  \<open>None\<close>). The containers are owned by one node each and no child is shared, so writing
  through a child pointer is replacing the child in its slot: \<open>setChild\<close> writes through the
  pointer \<open>findChild\<close> returns, \<open>setChildAt\<close> through the one \<open>getChild\<close> returns.

  The interface is the locale \<open>child_container\<close>: a container represents an association list
  from key bytes to children in the order \<open>getChild\<close> enumerates them.
\<close>

section \<open>Data\<close>

record stream_entry =
  ID :: string
  Fields :: "string list list"

datatype radix_node =
    RadixNode (nodeType: nat) (prefix: string) (children: node_children) (isLeaf: bool)
      (entries: "stream_entry list")
and node_children =
    Node4 "char list" "radix_node option list" nat
  | Node16 "char list" "radix_node option list" nat
  | Node48 "8 word list" "radix_node option list" nat
  | Node256 "radix_node option list"

abbreviation zero_byte :: char where "zero_byte \<equiv> CHR 0x00"

definition Node4Type :: nat where "Node4Type = 0"

definition empty_Node4 :: node_children where
  "empty_Node4 = Node4 (replicate 4 zero_byte) (replicate 4 None) 0"

definition NewRadixNode :: "string \<Rightarrow> radix_node" where
  "NewRadixNode pre = RadixNode Node4Type pre empty_Node4 False []"

section \<open>Lookup by key\<close>

text \<open>A slot read. The index is below the array's length in every well-formed container;
  outside it Go panics and the model reads nil.\<close>

definition slot :: "'a option list \<Rightarrow> nat \<Rightarrow> 'a option" where
  "slot cs i = (if i < length cs then cs ! i else None)"

text \<open>The loop over the first \<open>count\<close> keys in \<open>Node4.findChild\<close> and \<open>Node16.findChild\<close>.\<close>

fun find_key :: "char list \<Rightarrow> 'a option list \<Rightarrow> nat \<Rightarrow> char \<Rightarrow> 'a option" where
  "find_key (k # ks) (c # cs) (Suc n) key = (if k = key then c else find_key ks cs n key)"
| "find_key _ _ _ key = None"

fun findChild :: "node_children \<Rightarrow> char \<Rightarrow> radix_node option" where
  "findChild (Node4 ks cs n) key = find_key ks cs n key"
| "findChild (Node16 ks cs n) key = find_key ks cs n key"
| "findChild (Node48 ks cs n) key =
     (let idx = ks ! of_char key in if idx > 0 then slot cs (unat idx - 1) else None)"
| "findChild (Node256 cs) key = slot cs (of_char key)"

section \<open>Growing\<close>

definition grow4 :: "char list \<Rightarrow> radix_node option list \<Rightarrow> nat \<Rightarrow> node_children" where
  "grow4 ks cs n = Node16 (take 16 (ks @ replicate 12 zero_byte)) (take 16 (cs @ replicate 12 None)) n"

definition grow16 :: "char list \<Rightarrow> radix_node option list \<Rightarrow> nat \<Rightarrow> node_children" where
  "grow16 ks cs n =
     (let (ks', cs') = fold (\<lambda>i (ks', cs'). (ks'[of_char (ks ! i) := word_of_nat (i + 1)], cs'[i := slot cs i]))
                         [0..<n] (replicate 256 (0 :: 8 word), replicate 48 None)
      in Node48 ks' cs' n)"

definition grow48 :: "8 word list \<Rightarrow> radix_node option list \<Rightarrow> node_children" where
  "grow48 ks cs =
     Node256 (map (\<lambda>i. if ks ! i \<noteq> 0 then slot cs (unat (ks ! i) - 1) else None) [0..<256])"

fun grow :: "node_children \<Rightarrow> node_children" where
  "grow (Node4 ks cs n) = grow4 ks cs n"
| "grow (Node16 ks cs n) = grow16 ks cs n"
| "grow (Node48 ks cs n) = grow48 ks cs"
| "grow (Node256 cs) = Node256 cs"

section \<open>Adding a child\<close>

text \<open>One definition per method; a full container grows and adds to the grown one. The
  second result says whether it grew.\<close>

fun addChild256 :: "node_children \<Rightarrow> char \<Rightarrow> radix_node \<Rightarrow> node_children \<times> bool" where
  "addChild256 (Node256 cs) key node = (Node256 (cs[of_char key := Some node]), False)"
| "addChild256 c key node = (c, False)"

fun addChild48 :: "node_children \<Rightarrow> char \<Rightarrow> radix_node \<Rightarrow> node_children \<times> bool" where
  "addChild48 (Node48 ks cs n) key node =
     (if n < 48
      then (Node48 (ks[of_char key := word_of_nat (n + 1)]) (cs[n := Some node]) (n + 1), False)
      else (fst (addChild256 (grow (Node48 ks cs n)) key node), True))"
| "addChild48 c key node = addChild256 c key node"

fun addChild16 :: "node_children \<Rightarrow> char \<Rightarrow> radix_node \<Rightarrow> node_children \<times> bool" where
  "addChild16 (Node16 ks cs n) key node =
     (if n < 16 then (Node16 (ks[n := key]) (cs[n := Some node]) (n + 1), False)
      else (fst (addChild48 (grow (Node16 ks cs n)) key node), True))"
| "addChild16 c key node = addChild48 c key node"

fun addChild4 :: "node_children \<Rightarrow> char \<Rightarrow> radix_node \<Rightarrow> node_children \<times> bool" where
  "addChild4 (Node4 ks cs n) key node =
     (if n < 4 then (Node4 (ks[n := key]) (cs[n := Some node]) (n + 1), False)
      else (fst (addChild16 (grow (Node4 ks cs n)) key node), True))"
| "addChild4 c key node = addChild16 c key node"

text \<open>\<open>n.children, _ = n.children.addChild(key, child)\<close>: dynamic dispatch on the container.\<close>

definition addChild :: "node_children \<Rightarrow> char \<Rightarrow> radix_node \<Rightarrow> node_children" where
  "addChild c key node = fst (addChild4 c key node)"

section \<open>Enumeration\<close>

fun size_children :: "node_children \<Rightarrow> nat" where
  "size_children (Node4 ks cs n) = n"
| "size_children (Node16 ks cs n) = n"
| "size_children (Node48 ks cs n) = n"
| "size_children (Node256 cs) = length (filter (\<lambda>c. c \<noteq> None) cs)"

text \<open>The counting loop of \<open>Node256.getChild\<close>: the \<open>index\<close>-th child that is not nil.\<close>

fun nth_child :: "'a option list \<Rightarrow> nat \<Rightarrow> 'a option" where
  "nth_child [] index = None"
| "nth_child (None # cs) index = nth_child cs index"
| "nth_child (Some c # cs) index = (if index = 0 then Some c else nth_child cs (index - 1))"

fun getChild :: "node_children \<Rightarrow> nat \<Rightarrow> radix_node option" where
  "getChild (Node4 ks cs n) index = (if n \<le> index then None else slot cs index)"
| "getChild (Node16 ks cs n) index = (if n \<le> index then None else slot cs index)"
| "getChild (Node48 ks cs n) index =
     (if n \<le> index then None
      else if \<exists>i \<in> set [0..<256]. ks ! i = word_of_nat (index + 1) then slot cs index else None)"
| "getChild (Node256 cs) index = nth_child cs index"

text \<open>The loop \<open>for i := 0; i < node.children.size(); i++\<close> with its nil check, shared by the
  traversals: the children it visits, in order.\<close>

definition children_list :: "node_children \<Rightarrow> radix_node list" where
  "children_list c = List.map_filter (getChild c) [0..<size_children c]"

section \<open>Writing through a child pointer\<close>

fun set_key :: "char list \<Rightarrow> 'a option list \<Rightarrow> nat \<Rightarrow> char \<Rightarrow> 'a \<Rightarrow> 'a option list" where
  "set_key (k # ks) (c # cs) (Suc n) key x = (if k = key then Some x # cs else c # set_key ks cs n key x)"
| "set_key _ cs _ key x = cs"

fun setChild :: "node_children \<Rightarrow> char \<Rightarrow> radix_node \<Rightarrow> node_children" where
  "setChild (Node4 ks cs n) key x = Node4 ks (set_key ks cs n key x) n"
| "setChild (Node16 ks cs n) key x = Node16 ks (set_key ks cs n key x) n"
| "setChild (Node48 ks cs n) key x =
     (let idx = ks ! of_char key in if idx > 0 then Node48 ks (cs[unat idx - 1 := Some x]) n else Node48 ks cs n)"
| "setChild (Node256 cs) key x = Node256 (cs[of_char key := Some x])"

fun set_nth_child :: "'a option list \<Rightarrow> nat \<Rightarrow> 'a \<Rightarrow> 'a option list" where
  "set_nth_child [] index x = []"
| "set_nth_child (None # cs) index x = None # set_nth_child cs index x"
| "set_nth_child (Some c # cs) index x =
     (if index = 0 then Some x # cs else Some c # set_nth_child cs (index - 1) x)"

fun setChildAt :: "node_children \<Rightarrow> nat \<Rightarrow> radix_node \<Rightarrow> node_children" where
  "setChildAt (Node4 ks cs n) index x = Node4 ks (cs[index := Some x]) n"
| "setChildAt (Node16 ks cs n) index x = Node16 ks (cs[index := Some x]) n"
| "setChildAt (Node48 ks cs n) index x = Node48 ks (cs[index := Some x]) n"
| "setChildAt (Node256 cs) index x = Node256 (set_nth_child cs index x)"

text \<open>Writing back the children a traversal has visited, in the order of \<open>getChild\<close>.\<close>

definition setChildren :: "node_children \<Rightarrow> radix_node list \<Rightarrow> node_children" where
  "setChildren c xs = fold (\<lambda>i c'. setChildAt c' i (xs ! i)) [0..<length xs] c"

section \<open>What a container represents\<close>

text \<open>The key bytes in the order \<open>getChild\<close> enumerates the children.\<close>

definition key48 :: "8 word list \<Rightarrow> nat \<Rightarrow> nat" where
  "key48 ks i = the (find (\<lambda>k. ks ! k = word_of_nat (i + 1)) [0..<256])"

fun keys_list :: "node_children \<Rightarrow> char list" where
  "keys_list (Node4 ks cs n) = take n ks"
| "keys_list (Node16 ks cs n) = take n ks"
| "keys_list (Node48 ks cs n) = map (\<lambda>i. char_of (key48 ks i)) [0..<n]"
| "keys_list (Node256 cs) = map char_of (filter (\<lambda>i. cs ! i \<noteq> None) [0..<256])"

definition wf_linear :: "nat \<Rightarrow> char list \<Rightarrow> radix_node option list \<Rightarrow> nat \<Rightarrow> bool" where
  "wf_linear cap ks cs n \<longleftrightarrow> length ks = cap \<and> length cs = cap \<and> n \<le> cap \<and>
     None \<notin> set (take n cs) \<and> distinct (take n ks)"

definition wf48 :: "8 word list \<Rightarrow> radix_node option list \<Rightarrow> nat \<Rightarrow> bool" where
  "wf48 ks cs n \<longleftrightarrow> length ks = 256 \<and> length cs = 48 \<and> n \<le> 48 \<and> None \<notin> set (take n cs) \<and>
     (\<forall>k \<in> set [0..<256]. unat (ks ! k) \<le> n) \<and>
     (\<forall>i \<in> set [0..<n]. \<exists>k \<in> set [0..<256]. ks ! k = word_of_nat (i + 1)) \<and>
     (\<forall>k \<in> set [0..<256]. \<forall>k' \<in> set [0..<256]. ks ! k = ks ! k' \<longrightarrow> ks ! k \<noteq> 0 \<longrightarrow> k = k')"

text \<open>The invariant of a container: arrays of the declared length, \<open>count\<close> within the
  capacity, no nil child and no key twice among the first \<open>count\<close> slots; for \<open>Node48\<close>, the
  key table is a bijection onto the used slots.\<close>

fun wf_children :: "node_children \<Rightarrow> bool" where
  "wf_children (Node4 ks cs n) = wf_linear 4 ks cs n"
| "wf_children (Node16 ks cs n) = wf_linear 16 ks cs n"
| "wf_children (Node48 ks cs n) = wf48 ks cs n"
| "wf_children (Node256 cs) = (length cs = 256)"

subsection \<open>The children a loop visits\<close>

lemma map_filter_total: "(\<And>x. x \<in> set xs \<Longrightarrow> f x \<noteq> None) \<Longrightarrow> List.map_filter f xs = map (the \<circ> f) xs"
  by (simp add: List.map_filter_def)

lemma nth_child_filter: "List.map_filter (nth_child cs) [0..<length (filter (\<lambda>c. c \<noteq> None) cs)]
    = map the (filter (\<lambda>c. c \<noteq> None) cs)"
proof -
  have nth: "nth_child cs i = filter (\<lambda>c. c \<noteq> None) cs ! i"
    if "i < length (filter (\<lambda>c. c \<noteq> None) cs)" for i
    using that by (induction cs i rule: nth_child.induct) (auto simp: nth_Cons')
  have some: "filter (\<lambda>c. c \<noteq> None) cs ! i \<noteq> None"
    if "i < length (filter (\<lambda>c. c \<noteq> None) cs)" for i
    using that nth_mem by fastforce
  show ?thesis
    by (subst map_filter_total) (auto simp del: not_None_eq simp: nth some intro!: nth_equalityI)
qed

lemma kids_linear:
  assumes "n \<le> length cs" and "None \<notin> set (take n cs)"
  shows "List.map_filter (\<lambda>i. if n \<le> i then None else slot cs i) [0..<n] = map the (take n cs)"
proof -
  have "cs ! i \<noteq> None" if "i < n" for i
    using assms that by (metis in_set_conv_nth length_take min.absorb2 nth_take)
  with assms(1) show ?thesis
    by (subst map_filter_total) (auto simp: slot_def intro!: nth_equalityI)
qed

lemma getChild_fun:
  "getChild (Node4 ks cs n) = (\<lambda>i. if n \<le> i then None else slot cs i)"
  "getChild (Node16 ks cs n) = (\<lambda>i. if n \<le> i then None else slot cs i)"
  "getChild (Node256 cs) = nth_child cs"
  by auto

lemma children_list_wf:
  "wf_children (Node4 ks cs n) \<Longrightarrow> children_list (Node4 ks cs n) = map the (take n cs)"
  "wf_children (Node16 ks cs n) \<Longrightarrow> children_list (Node16 ks cs n) = map the (take n cs)"
  "wf_children (Node48 ks48 cs n) \<Longrightarrow> children_list (Node48 ks48 cs n) = map the (take n cs)"
  "children_list (Node256 cs) = map the (filter (\<lambda>c. c \<noteq> None) cs)"
proof -
  show "wf_children (Node4 ks cs n) \<Longrightarrow> children_list (Node4 ks cs n) = map the (take n cs)"
    by (simp add: children_list_def wf_linear_def kids_linear getChild_fun)
  show "wf_children (Node16 ks cs n) \<Longrightarrow> children_list (Node16 ks cs n) = map the (take n cs)"
    by (simp add: children_list_def wf_linear_def kids_linear getChild_fun)
  show "children_list (Node256 cs) = map the (filter (\<lambda>c. c \<noteq> None) cs)"
    using nth_child_filter [of cs] by (simp add: children_list_def getChild_fun)
  assume wf: "wf_children (Node48 ks48 cs n)"
  then have "children_list (Node48 ks48 cs n) =
      List.map_filter (\<lambda>i. if n \<le> i then None else slot cs i) [0..<n]"
    by (auto simp: children_list_def wf48_def List.map_filter_def intro!: map_cong filter_cong)
  with wf show "children_list (Node48 ks48 cs n) = map the (take n cs)"
    by (simp add: wf48_def kids_linear)
qed

subsection \<open>The interface of a child container\<close>

locale child_container =
  fixes invar :: "'c \<Rightarrow> bool"
    and new :: 'c
    and find_child :: "'c \<Rightarrow> char \<Rightarrow> 'n option"
    and add_child :: "'c \<Rightarrow> char \<Rightarrow> 'n \<Rightarrow> 'c"
    and set_child :: "'c \<Rightarrow> char \<Rightarrow> 'n \<Rightarrow> 'c"
    and set_child_at :: "'c \<Rightarrow> nat \<Rightarrow> 'n \<Rightarrow> 'c"
    and keys :: "'c \<Rightarrow> char list"
    and kids :: "'c \<Rightarrow> 'n list"
  assumes new_invar: "invar new"
    and new_kids: "keys new = []" "kids new = []"
    and len_keys: "invar c \<Longrightarrow> length (keys c) = length (kids c)"
    and distinct_keys: "invar c \<Longrightarrow> distinct (keys c)"
    and find_keys: "invar c \<Longrightarrow> find_child c k = map_of (zip (keys c) (kids c)) k"
    and add_invar: "invar c \<Longrightarrow> k \<notin> set (keys c) \<Longrightarrow> invar (add_child c k x)"
    and add_mset_keys: "invar c \<Longrightarrow> k \<notin> set (keys c) \<Longrightarrow>
      mset (zip (keys (add_child c k x)) (kids (add_child c k x))) = add_mset (k, x) (mset (zip (keys c) (kids c)))"
    and add_last: "invar c \<Longrightarrow> sorted_wrt (<) (keys c @ [k]) \<Longrightarrow>
      keys (add_child c k x) = keys c @ [k] \<and> kids (add_child c k x) = kids c @ [x]"
    and set_nth: "invar c \<Longrightarrow> i < length (kids c) \<Longrightarrow> keys c ! i = k \<Longrightarrow>
      invar (set_child c k x) \<and> keys (set_child c k x) = keys c \<and> kids (set_child c k x) = (kids c)[i := x]"
    and set_at_nth: "invar c \<Longrightarrow> i < length (kids c) \<Longrightarrow>
      invar (set_child_at c i x) \<and> keys (set_child_at c i x) = keys c \<and> kids (set_child_at c i x) = (kids c)[i := x]"
begin

lemma find_None: "invar c \<Longrightarrow> find_child c k = None \<longleftrightarrow> k \<notin> set (keys c)"
  by (simp add: find_keys len_keys)

lemma find_nth: "invar c \<Longrightarrow> i < length (kids c) \<Longrightarrow> find_child c (keys c ! i) = Some (kids c ! i)"
  by (simp add: find_keys len_keys distinct_keys map_of_zip_nth)

lemma find_SomeE:
  assumes "invar c" and "find_child c k = Some x"
  obtains i where "i < length (kids c)" and "keys c ! i = k" and "kids c ! i = x"
proof -
  from assms have "(k, x) \<in> set (zip (keys c) (kids c))"
    by (simp add: find_keys map_of_SomeD)
  with assms(1) that show thesis
    by (auto simp: in_set_zip len_keys)
qed

lemma find_add:
  assumes "invar c" and "k \<notin> set (keys c)"
  shows "find_child (add_child c k x) k' = (if k' = k then Some x else find_child c k')"
proof -
  let ?c = "add_child c k x"
  have "find_child ?c k' = Some y \<longleftrightarrow> (if k' = k then y = x else find_child c k' = Some y)" for y
  proof -
    have eq: "find_child d k' = Some y \<longleftrightarrow> (k', y) \<in># mset (zip (keys d) (kids d))" if "invar d" for d
      using that by (simp add: find_keys len_keys distinct_keys)
    show ?thesis
      using assms by (auto simp: eq add_invar add_mset_keys find_None dest: set_zip_leftD)
  qed
  then show ?thesis by (metis not_None_eq)
qed

lemma find_set:
  assumes "invar c" and "find_child c k = Some x"
  shows "find_child (set_child c k y) k' = (if k' = k then Some y else find_child c k')"
proof -
  from assms obtain i where i: "i < length (kids c)" "keys c ! i = k" "kids c ! i = x"
    by (rule find_SomeE)
  note s = set_nth [OF assms(1) i(1,2), of y]
  show ?thesis
  proof (cases "k' \<in> set (keys c)")
    case True
    then obtain j where j: "j < length (kids c)" "keys c ! j = k'"
      using assms(1) by (auto simp: in_set_conv_nth len_keys)
    have "find_child (set_child c k y) k' = Some ((kids c)[i := y] ! j)"
      using find_nth [of "set_child c k y" j] s j by simp
    moreover have "find_child c k' = Some (kids c ! j)"
      using find_nth [OF assms(1) j(1)] j(2) by simp
    moreover have "k' = k \<longleftrightarrow> j = i"
      using i j distinct_keys [OF assms(1)] len_keys [OF assms(1)] by (auto simp: nth_eq_iff_index_eq)
    ultimately show ?thesis using i(1) by simp
  next
    case False
    then have "k' \<noteq> k" using i assms(1) by (auto simp: len_keys)
    moreover from False have "find_child c k' = None" "find_child (set_child c k y) k' = None"
      using s assms(1) by (simp_all add: find_None)
    ultimately show ?thesis by simp
  qed
qed

lemma add_mset_kids: "invar c \<Longrightarrow> k \<notin> set (keys c) \<Longrightarrow>
    mset (kids (add_child c k x)) = add_mset x (mset (kids c))"
  using arg_cong [OF add_mset_keys, of c k "image_mset snd" x]
  by (simp add: len_keys add_invar flip: mset_map)

lemma fold_set_at:
  assumes "invar c" and "length xs \<le> length (kids c)"
  shows "let d = fold (\<lambda>i c'. set_child_at c' i (xs ! i)) [0..<length xs] c in
    invar d \<and> keys d = keys c \<and> kids d = xs @ drop (length xs) (kids c)"
  using assms(2)
proof (induction xs rule: rev_induct)
  case Nil
  then show ?case using assms(1) by simp
next
  case (snoc x xs)
  have "fold (\<lambda>i c'. set_child_at c' i ((xs @ [x]) ! i)) [0..<length xs] c
      = fold (\<lambda>i c'. set_child_at c' i (xs ! i)) [0..<length xs] c"
    by (rule fold_cong) (auto simp: nth_append)
  with snoc show ?case
    by (auto simp: Let_def set_at_nth list_update_append Cons_nth_drop_Suc [symmetric])
qed

end

section \<open>The four containers implement the interface\<close>

subsection \<open>Linear containers\<close>

lemma find_key_zip:
  "n \<le> length ks \<Longrightarrow> n \<le> length cs \<Longrightarrow> None \<notin> set (take n cs) \<Longrightarrow>
   find_key ks cs n k = map_of (zip (take n ks) (map the (take n cs))) k"
  by (induction ks cs n k rule: find_key.induct) auto

lemma set_key_nth:
  "distinct (take n ks) \<Longrightarrow> i < n \<Longrightarrow> n \<le> length ks \<Longrightarrow> n \<le> length cs \<Longrightarrow>
   set_key ks cs n (ks ! i) x = cs[i := Some x]"
proof (induction ks cs n "ks ! i" x arbitrary: i rule: set_key.induct)
  case (1 k ks c cs n x)
  show ?case
  proof (cases i)
    case 0
    then show ?thesis by simp
  next
    case (Suc j)
    with 1(2-5) have "ks ! j \<in> set (take n ks)"
      by (auto simp: in_set_conv_nth)
    with Suc 1(2) have "k \<noteq> ks ! j" by auto
    with Suc 1 show ?thesis by simp
  qed
qed auto

lemma linear_set:
  assumes "wf_linear cap ks cs n" and "i < n"
  shows "wf_linear cap ks (cs[i := Some x]) n"
    and "map the (take n (cs[i := Some x])) = (map the (take n cs))[i := x]"
proof -
  have "set (take n (cs[i := Some x])) \<subseteq> insert (Some x) (set (take n cs))"
    by (simp add: take_update_swap set_update_subset_insert)
  with assms show "wf_linear cap ks (cs[i := Some x]) n"
    by (auto simp: wf_linear_def)
  show "map the (take n (cs[i := Some x])) = (map the (take n cs))[i := x]"
    by (simp add: take_update_swap map_update)
qed

lemma linear_add:
  assumes "wf_linear cap ks cs n" and "n < cap" and "k \<notin> set (take n ks)"
  shows "wf_linear cap (ks[n := k]) (cs[n := Some x]) (n + 1)"
    and "take (n + 1) (ks[n := k]) = take n ks @ [k]"
    and "map the (take (n + 1) (cs[n := Some x])) = map the (take n cs) @ [x]"
  using assms by (auto simp: wf_linear_def take_Suc_conv_app_nth)

lemma grow4_wf:
  assumes "wf_linear 4 ks cs n"
  shows "wf_children (grow4 ks cs n)" and "keys_list (grow4 ks cs n) = take n ks"
    and "children_list (grow4 ks cs n) = map the (take n cs)"
proof -
  from assms show wf: "wf_children (grow4 ks cs n)"
    by (simp add: grow4_def wf_linear_def)
  from assms show "keys_list (grow4 ks cs n) = take n ks"
    by (simp add: grow4_def wf_linear_def)
  from assms wf show "children_list (grow4 ks cs n) = map the (take n cs)"
    by (simp add: grow4_def wf_linear_def children_list_wf)
qed

subsection \<open>Node48\<close>

lemma unat_slot_number: "i < 255 \<Longrightarrow> unat (word_of_nat (i + 1) :: 8 word) = i + 1"
  by (simp only: unat_of_nat) simp

lemma slot_number_inj:
  assumes "a < 255" and "b < 255"
  shows "(word_of_nat (a + 1) :: 8 word) = word_of_nat (b + 1) \<longleftrightarrow> a = b"
  using unat_slot_number [OF assms(1)] unat_slot_number [OF assms(2)] by (metis add_right_cancel)

lemma slot_number_nonzero: "a < 255 \<Longrightarrow> (word_of_nat (a + 1) :: 8 word) \<noteq> 0"
  using unat_slot_number [of a] by (metis Suc_eq_plus1 Zero_not_Suc unat_0)

lemma key48:
  assumes "wf48 ks cs n" and "i < n"
  shows "key48 ks i < 256" and "unat (ks ! key48 ks i) = i + 1"
    and "ks ! key48 ks i = word_of_nat (i + 1)"
proof -
  let ?P = "\<lambda>k. ks ! k = word_of_nat (i + 1)"
  from assms have "\<exists>k \<in> set [0..<256]. ?P k" by (auto simp: wf48_def)
  then have "find ?P [0..<256] \<noteq> None" by (auto simp: find_None_iff)
  then have "find ?P [0..<256] = Some (key48 ks i)" by (simp add: key48_def)
  then have k: "key48 ks i < 256 \<and> ks ! key48 ks i = word_of_nat (i + 1)"
    by (auto simp: find_Some_iff)
  then show "ks ! key48 ks i = word_of_nat (i + 1)" by blast
  note k
  moreover have "unat (word_of_nat (i + 1) :: 8 word) = i + 1"
    using assms by (intro unat_slot_number) (simp add: wf48_def)
  ultimately show "key48 ks i < 256" and "unat (ks ! key48 ks i) = i + 1" by simp_all
qed

lemma key48_slot:
  assumes "wf48 ks cs n" and "k < 256" and "ks ! k \<noteq> 0"
  shows "unat (ks ! k) - 1 < n" and "key48 ks (unat (ks ! k) - 1) = k"
proof -
  from assms have "unat (ks ! k) \<le> n" by (auto simp: wf48_def)
  moreover from assms(3) have pos: "0 < unat (ks ! k)" by (simp add: unat_gt_0)
  ultimately show lt: "unat (ks ! k) - 1 < n" by simp
  from key48 [OF assms(1) this] pos have "unat (ks ! key48 ks (unat (ks ! k) - 1)) = unat (ks ! k)"
    by simp
  then have "ks ! key48 ks (unat (ks ! k) - 1) = ks ! k" by (rule unsigned_word_eqI)
  with assms key48(1) [OF assms(1) lt] show "key48 ks (unat (ks ! k) - 1) = k"
    by (auto simp: wf48_def)
qed

lemma char_of_inj_nat: "a < 256 \<Longrightarrow> b < 256 \<Longrightarrow> char_of a = char_of b \<longleftrightarrow> a = (b :: nat)"
  by (metis mod_less of_char_of)

lemma in_keys48:
  assumes "wf48 ks cs n"
  shows "k \<in> set (keys_list (Node48 ks cs n)) \<longleftrightarrow> ks ! of_char k \<noteq> 0"
proof
  assume "k \<in> set (keys_list (Node48 ks cs n))"
  then obtain i where i: "i < n" "k = char_of (key48 ks i)" by auto
  with key48 [OF assms i(1)] have "unat (ks ! of_char k) = i + 1" by simp
  then show "ks ! of_char k \<noteq> 0" by auto
next
  assume "ks ! of_char k \<noteq> 0"
  from key48_slot [OF assms _ this] show "k \<in> set (keys_list (Node48 ks cs n))"
    by (auto simp: image_iff intro!: bexI [of _ "unat (ks ! of_char k) - 1"])
qed

lemma distinct_keys48:
  assumes "wf48 ks cs n"
  shows "distinct (keys_list (Node48 ks cs n))"
proof -
  have "i = j" if "i < n" "j < n" "key48 ks i = key48 ks j" for i j
  proof -
    from that(3) have "unat (ks ! key48 ks i) = unat (ks ! key48 ks j)" by (rule arg_cong)
    then show ?thesis
      unfolding key48(2) [OF assms that(1)] key48(2) [OF assms that(2)] by simp
  qed
  then have "inj_on (\<lambda>i. char_of (key48 ks i)) {0..<n}"
    using key48(1) [OF assms] by (intro inj_onI) (simp add: char_of_inj_nat)
  then show ?thesis by (simp add: distinct_map)
qed

lemma slot_take: "n \<le> length cs \<Longrightarrow> None \<notin> set (take n cs) \<Longrightarrow> i < n \<Longrightarrow>
    slot cs i = Some (map the (take n cs) ! i)"
proof -
  assume "n \<le> length cs" "None \<notin> set (take n cs)" "i < n"
  then have "cs ! i \<in> set (take n cs)" by (auto simp: in_set_conv_nth)
  with \<open>None \<notin> set (take n cs)\<close> have "cs ! i \<noteq> None" by metis
  with \<open>n \<le> length cs\<close> \<open>i < n\<close> show ?thesis by (simp add: slot_def)
qed

lemma find48:
  assumes wf: "wf48 ks cs n"
  shows "findChild (Node48 ks cs n) k = map_of (zip (keys_list (Node48 ks cs n)) (map the (take n cs))) k"
proof -
  have n: "n \<le> length cs" "None \<notin> set (take n cs)" using wf by (simp_all add: wf48_def)
  define al where "al = keys_list (Node48 ks cs n)"
  have al: "length al = n" "distinct al" using distinct_keys48 [OF wf] by (simp_all add: al_def)
  show ?thesis
  proof (cases "ks ! of_char k = 0")
    case True
    then have "k \<notin> set al" unfolding al_def in_keys48 [OF wf] by blast
    then have "map_of (zip al (map the (take n cs))) k = None" using n al by (subst map_of_zip_is_None) simp_all
    with True show ?thesis by (simp add: al_def)
  next
    case False
    let ?i = "unat (ks ! of_char k) - 1"
    from key48_slot [OF wf _ False] have i: "?i < n" and k: "key48 ks ?i = of_char k" by simp_all
    then have "al ! ?i = k" by (simp add: al_def)
    moreover have "map_of (zip al (map the (take n cs))) (al ! ?i) = Some (map the (take n cs) ! ?i)"
      by (rule map_of_zip_nth) (use i n al in simp_all)
    ultimately show ?thesis
      using False slot_take [OF n i] by (simp add: al_def Let_def word_gt_0)
  qed
qed

lemma set48:
  assumes wf: "wf48 ks cs n" and i: "i < n"
  shows "wf48 ks (cs[i := Some x]) n"
    and "map the (take n (cs[i := Some x])) = (map the (take n cs))[i := x]"
    and "setChild (Node48 ks cs n) (char_of (key48 ks i)) x = Node48 ks (cs[i := Some x]) n"
proof -
  have "set (take n (cs[i := Some x])) \<subseteq> insert (Some x) (set (take n cs))"
    by (simp add: take_update_swap set_update_subset_insert)
  with wf show "wf48 ks (cs[i := Some x]) n" by (auto simp: wf48_def)
  show "map the (take n (cs[i := Some x])) = (map the (take n cs))[i := x]"
    by (simp add: take_update_swap map_update)
  from key48 [OF wf i] show "setChild (Node48 ks cs n) (char_of (key48 ks i)) x = Node48 ks (cs[i := Some x]) n"
    by (auto simp: Let_def word_gt_0)
qed

lemma key48_add:
  assumes wf: "wf48 ks cs n" and n: "n < 48" and k: "ks ! of_char k = 0"
  shows "i < n \<Longrightarrow> key48 (ks[of_char k := word_of_nat (n + 1)]) i = key48 ks i"
    and "key48 (ks[of_char k := word_of_nat (n + 1)]) n = of_char k"
proof -
  let ?ks = "ks[of_char k := word_of_nat (n + 1)]"
  have len: "length ks = 256" using wf by (simp add: wf48_def)
  show "key48 ?ks i = key48 ks i" if "i < n"
  proof -
    have "(?ks ! j = word_of_nat (i + 1)) = (ks ! j = word_of_nat (i + 1))" if "j \<in> set [0..<256]" for j
      using that len k n \<open>i < n\<close> slot_number_inj [of n i] slot_number_nonzero [of i]
      by (cases "j = of_char k") auto
    then show ?thesis unfolding key48_def by (intro arg_cong [of _ _ the] find_cong refl)
  qed
  have "?ks ! j = word_of_nat (n + 1) \<longleftrightarrow> j = of_char k" if "j < 256" for j
  proof (cases "j = of_char k")
    case False
    have "unat (ks ! j) \<le> n" using wf that by (auto simp: wf48_def)
    moreover have "unat (word_of_nat (n + 1) :: 8 word) = n + 1" using n by (intro unat_slot_number) simp
    ultimately show ?thesis using False by auto
  qed (simp add: len)
  then have "find (\<lambda>j. ?ks ! j = word_of_nat (n + 1)) [0..<256] = find (\<lambda>j. j = of_char k) [0..<256]"
    by (intro find_cong) auto
  also have "\<dots> = Some (of_char k)"
    unfolding find_Some_iff
  proof (intro exI [of _ "of_char k"] conjI allI impI)
    fix j assume "j < (of_char k :: nat)"
    with nat_of_char_less_256 [of k] have "j < 256" by linarith
    with \<open>j < of_char k\<close> show "[0..<256] ! j \<noteq> of_char k" by simp
  qed simp_all
  finally show "key48 ?ks n = of_char k" by (simp add: key48_def)
qed

lemma add48:
  assumes wf: "wf48 ks cs n" and n: "n < 48" and k: "k \<notin> set (keys_list (Node48 ks cs n))"
  defines "ks' \<equiv> ks[of_char k := word_of_nat (n + 1)]"
  shows "wf48 ks' (cs[n := Some x]) (n + 1)"
    and "keys_list (Node48 ks' (cs[n := Some x]) (n + 1)) = keys_list (Node48 ks cs n) @ [k]"
    and "map the (take (n + 1) (cs[n := Some x])) = map the (take n cs) @ [x]"
proof -
  have k0: "ks ! of_char k = 0" using k unfolding in_keys48 [OF wf] by blast
  note key' = key48_add [OF wf n k0, folded ks'_def]
  have len: "length ks = 256" "length cs = 48" using wf by (simp_all add: wf48_def)
  then have ks': "ks' ! j = (if j = of_char k then word_of_nat (n + 1) else ks ! j)" if "j < 256" for j
    using that by (simp add: ks'_def)
  have new: "unat (word_of_nat (n + 1) :: 8 word) = n + 1" using n by (intro unat_slot_number) simp
  have le: "unat (ks ! j) \<le> n" if "j < 256" for j using wf that by (auto simp: wf48_def)
  have up: "unat (ks' ! j) \<le> n + 1" if "j < 256" for j
    using le [OF that] new ks' [OF that] by auto
  have onto: "\<exists>j < 256. ks' ! j = word_of_nat (i + 1)" if "i < n + 1" for i
  proof (cases "i = n")
    case True
    then show ?thesis using ks' [of "of_char k"] by (intro exI [of _ "of_char k"]) simp
  next
    case False
    with that have "i < n" by simp
    then obtain j where j: "j < 256" "ks ! j = word_of_nat (i + 1)" using key48 [OF wf] by metis
    moreover from this have "j \<noteq> of_char k"
      using k0 slot_number_nonzero [of i] \<open>i < n\<close> n by auto
    ultimately show ?thesis using ks' [OF j(1)] by (intro exI [of _ j]) simp
  qed
  have inj: "j = j'" if "j < 256" "j' < 256" "ks' ! j = ks' ! j'" "ks' ! j \<noteq> 0" for j j'
  proof -
    have "ks ! a \<noteq> word_of_nat (n + 1)" if "a < 256" for a using le [OF that] new by auto
    with that ks' [OF that(1)] ks' [OF that(2)] wf show ?thesis
      by (auto simp: wf48_def split: if_splits)
  qed
  show "map the (take (n + 1) (cs[n := Some x])) = map the (take n cs) @ [x]"
    using n len by (simp add: take_Suc_conv_app_nth)
  have "None \<notin> set (take (n + 1) (cs[n := Some x]))"
    using wf n len by (simp add: take_Suc_conv_app_nth wf48_def)
  moreover have "length ks' = 256" "length (cs[n := Some x]) = 48" "n + 1 \<le> 48"
    using n len by (simp_all add: ks'_def)
  ultimately show "wf48 ks' (cs[n := Some x]) (n + 1)"
    unfolding wf48_def set_upt Ball_def Bex_def atLeastLessThan_iff
    using up onto inj by blast
  show "keys_list (Node48 ks' (cs[n := Some x]) (n + 1)) = keys_list (Node48 ks cs n) @ [k]"
    using key' by simp
qed

lemma wf48_empty: "wf48 (replicate 256 0) (replicate 48 None) 0"
proof -
  define z :: "8 word list" where "z = replicate 256 0"
  have "length z = 256" by (simp add: z_def)
  moreover have "z ! k = 0" if "k < 256" for k
    using that by (simp add: z_def)
  ultimately show ?thesis unfolding z_def [symmetric] wf48_def by simp
qed

lemma grow16_fold:
  assumes "wf_linear 16 ks cs n" and "m \<le> n"
  shows "case fold (\<lambda>i (ks', cs'). (ks'[of_char (ks ! i) := word_of_nat (i + 1)], cs'[i := slot cs i]))
           [0..<m] (replicate 256 (0 :: 8 word), replicate 48 None) of (ks', cs') \<Rightarrow>
    wf48 ks' cs' m \<and> keys_list (Node48 ks' cs' m) = take m ks \<and> take m cs' = take m cs"
  using assms(2)
proof (induction m)
  case 0
  show ?case
    by (simp only: upt_0 fold.simps id_apply prod.case wf48_empty keys_list.simps list.map take_0 simp_thms)
next
  case (Suc m)
  obtain ks' cs' where f: "fold (\<lambda>i (ks', cs'). (ks'[of_char (ks ! i) := word_of_nat (i + 1)], cs'[i := slot cs i]))
      [0..<m] (replicate 256 (0 :: 8 word), replicate 48 None) = (ks', cs')" by (rule prod.exhaust)
  from Suc.prems have "m \<le> n" by simp
  from Suc.IH [OF this, unfolded f prod.case]
  have IH: "wf48 ks' cs' m" "keys_list (Node48 ks' cs' m) = take m ks" "take m cs' = take m cs"
    by blast+
  have m: "m < n" "m < 48" "m < length ks" "m < length cs" "m < length cs'"
    using Suc.prems assms(1) IH(1) by (auto simp: wf_linear_def wf48_def)
  have "slot cs m = Some (map the (take n cs) ! m)"
    using assms(1) m(1) by (intro slot_take) (auto simp: wf_linear_def)
  then obtain x where x: "slot cs m = Some x" "cs ! m = Some x" using m by (auto simp: slot_def)
  have "ks ! m \<notin> set (take m ks)"
  proof
    assume "ks ! m \<in> set (take m ks)"
    then obtain j where "j < m" "ks ! j = ks ! m" using m by (auto simp: in_set_conv_nth)
    moreover have "distinct (take n ks)" "n \<le> length ks" using assms(1) by (simp_all add: wf_linear_def)
    ultimately show False
      using m nth_eq_iff_index_eq [of "take n ks" j m] by simp
  qed
  then have k: "ks ! m \<notin> set (keys_list (Node48 ks' cs' m))" by (simp only: IH(2) not_False_eq_True)
  note a = add48 [OF IH(1) m(2) k, of x]
  have step: "fold (\<lambda>i (ks', cs'). (ks'[of_char (ks ! i) := word_of_nat (i + 1)], cs'[i := slot cs i]))
      [0..<Suc m] (replicate 256 (0 :: 8 word), replicate 48 None)
    = (ks'[of_char (ks ! m) := word_of_nat (m + 1)], cs'[m := Some x])"
    by (simp only: upt_Suc le0 if_True fold_append o_apply f fold.simps id_apply prod.case x(1))
  have "take (Suc m) (cs'[m := Some x]) = take (Suc m) cs"
    using IH(3) m x(2) by (simp add: take_Suc_conv_app_nth)
  moreover have "keys_list (Node48 (ks'[of_char (ks ! m) := word_of_nat (m + 1)]) (cs'[m := Some x]) (m + 1))
      = take (Suc m) ks"
    unfolding a(2) IH(2) using m by (simp only: take_Suc_conv_app_nth)
  ultimately show ?case
    unfolding step prod.case using a(1) by (simp only: Suc_eq_plus1 simp_thms)
qed

lemma grow16_wf:
  assumes "wf_linear 16 ks cs n"
  shows "\<exists>ks' cs'. grow16 ks cs n = Node48 ks' cs' n \<and> wf48 ks' cs' n \<and>
    keys_list (Node48 ks' cs' n) = take n ks \<and> take n cs' = take n cs"
  using grow16_fold [OF assms order_refl] by (auto simp: grow16_def split: prod.splits)

subsection \<open>Node256\<close>

text \<open>The children of a \<open>Node256\<close> with their keys: one pair per non-nil slot, in key order.\<close>

definition alist256 :: "radix_node option list \<Rightarrow> (char \<times> radix_node) list" where
  "alist256 cs = map (\<lambda>i. (char_of i, the (cs ! i))) (filter (\<lambda>i. cs ! i \<noteq> None) [0..<256])"

lemma filter_nth: "filter P xs = map (nth xs) (filter (\<lambda>i. P (xs ! i)) [0..<length xs])"
proof -
  have "filter P xs = filter P (map (nth xs) [0..<length xs])" by (simp only: map_nth)
  then show ?thesis by (simp only: filter_map o_def)
qed

lemma alist256_zip:
  assumes "length cs = 256"
  shows "map fst (alist256 cs) = keys_list (Node256 cs)"
    and "map snd (alist256 cs) = children_list (Node256 cs)"
    and "zip (keys_list (Node256 cs)) (children_list (Node256 cs)) = alist256 cs"
proof -
  show k: "map fst (alist256 cs) = keys_list (Node256 cs)" by (simp add: alist256_def)
  have "filter (\<lambda>c. c \<noteq> None) cs = map (nth cs) (filter (\<lambda>i. cs ! i \<noteq> None) [0..<256])"
    using filter_nth [of "\<lambda>c. c \<noteq> None" cs] by (simp only: assms)
  then show c: "map snd (alist256 cs) = children_list (Node256 cs)"
    unfolding children_list_wf(4) alist256_def by simp
  show "zip (keys_list (Node256 cs)) (children_list (Node256 cs)) = alist256 cs"
    by (simp only: k [symmetric] c [symmetric] zip_map_fst_snd)
qed

lemma sorted_wrt_char_of: "sorted_wrt (<) is \<Longrightarrow> (\<And>i. i \<in> set is \<Longrightarrow> i < 256) \<Longrightarrow>
    sorted_wrt (<) (map char_of (is :: nat list))"
  by (induction "is") (auto simp: less_char_def)

lemma sorted_alist256: "sorted_wrt (<) (map fst (alist256 cs))"
proof -
  have "sorted_wrt (<) (filter (\<lambda>i. cs ! i \<noteq> None) [0..<256])"
    by (rule sorted_wrt_filter) (rule sorted_wrt_upt)
  then have "sorted_wrt (<) (map char_of (filter (\<lambda>i. cs ! i \<noteq> None) [0..<256]))"
    by (rule sorted_wrt_char_of) auto
  then show ?thesis by (simp add: alist256_def comp_def)
qed

lemma in_alist256: "length cs = 256 \<Longrightarrow> (k, x) \<in> set (alist256 cs) \<longleftrightarrow> cs ! of_char k = Some x"
proof
  assume len: "length cs = 256"
  show "cs ! of_char k = Some x" if "(k, x) \<in> set (alist256 cs)"
    using that by (auto simp: alist256_def)
  assume "cs ! of_char k = Some x"
  then show "(k, x) \<in> set (alist256 cs)"
    unfolding alist256_def set_map by (intro image_eqI [of _ _ "of_char k"]) auto
qed

lemma distinct_alist256: "distinct (map fst (alist256 cs))" "distinct (alist256 cs)"
  using sorted_alist256 [of cs] strict_sorted_iff distinct_map by blast+

lemma map_of_alist256: "length cs = 256 \<Longrightarrow> map_of (alist256 cs) k = cs ! of_char k"
  using distinct_alist256(1) [of cs] in_alist256 [of cs k]
  by (cases "cs ! of_char k") (auto simp: map_of_eq_None_iff map_of_eq_Some_iff image_iff)

lemma mset_alist256_add:
  assumes "length cs = 256" and "cs ! of_char k = None"
  shows "mset (alist256 (cs[of_char k := Some x])) = add_mset (k, x) (mset (alist256 cs))"
proof -
  have len: "length (cs[of_char k := Some x]) = 256" using assms(1) by simp
  have "(j, y) \<in> set (alist256 (cs[of_char k := Some x])) \<longleftrightarrow> (j, y) \<in> insert (k, x) (set (alist256 cs))" for j y
    unfolding in_alist256 [OF len] insert_iff in_alist256 [OF assms(1)]
    using assms by (cases "j = k") auto
  then have "set (alist256 (cs[of_char k := Some x])) = set ((k, x) # alist256 cs)" by auto
  moreover have "distinct ((k, x) # alist256 cs)"
    using assms in_alist256 [OF assms(1)] distinct_alist256(2) by auto
  ultimately have "mset (alist256 (cs[of_char k := Some x])) = mset ((k, x) # alist256 cs)"
    using distinct_alist256(2) by (simp only: set_eq_iff_mset_eq_distinct)
  then show ?thesis by simp
qed

lemma alist256_set_nth:
  assumes "length cs = 256" and "i < length (alist256 cs)" and "fst (alist256 cs ! i) = k"
  shows "alist256 (cs[of_char k := Some x]) = (alist256 cs)[i := (k, x)]"
proof (rule nth_equalityI)
  let ?is = "filter (\<lambda>i. cs ! i \<noteq> None) [0..<256]"
  from assms have "k \<in> set (map fst (alist256 cs))" by (metis length_map nth_map nth_mem)
  then have some: "cs ! of_char k \<noteq> None" using in_alist256 [OF assms(1)] by auto
  have is': "filter (\<lambda>j. cs[of_char k := Some x] ! j \<noteq> None) [0..<256] = ?is"
    using some assms(1) by (intro filter_cong) (auto simp: nth_list_update)
  then show "length (alist256 (cs[of_char k := Some x])) = length ((alist256 cs)[i := (k, x)])"
    unfolding alist256_def by simp
  fix j assume "j < length (alist256 (cs[of_char k := Some x]))"
  then have j: "j < length ?is" unfolding alist256_def is' by simp
  then have lt: "?is ! j < 256" using nth_mem [OF j] by simp
  have at: "?is ! j = of_char k \<longleftrightarrow> j = i"
  proof -
    have "?is ! i < 256" using assms(2) nth_mem [of i ?is] by (simp add: alist256_def)
    then have "of_char k = ?is ! i" using assms(2,3) by (auto simp: alist256_def)
    then show ?thesis using assms(2) j nth_eq_iff_index_eq [of ?is j i]
      by (simp add: alist256_def)
  qed
  have new: "alist256 (cs[of_char k := Some x]) ! j = (char_of (?is ! j), the (cs[of_char k := Some x] ! (?is ! j)))"
    unfolding alist256_def is' by (rule nth_map [OF j])
  have old: "alist256 cs ! j = (char_of (?is ! j), the (cs ! (?is ! j)))"
    unfolding alist256_def by (rule nth_map [OF j])
  show "alist256 (cs[of_char k := Some x]) ! j = (alist256 cs)[i := (k, x)] ! j"
  proof (cases "j = i")
    case True
    with at have "?is ! j = of_char k" by simp
    with True assms(1,2) new show ?thesis by simp
  next
    case False
    with at have "?is ! j \<noteq> of_char k" by simp
    with False new old show ?thesis by simp
  qed
qed

definition used_slots :: "'a option list \<Rightarrow> nat list" where
  "used_slots cs = filter (\<lambda>j. cs ! j \<noteq> None) [0..<length cs]"

lemma used_slots_Cons:
  "used_slots (c # cs) = (if c = None then map Suc (used_slots cs) else 0 # map Suc (used_slots cs))"
  unfolding used_slots_def length_Cons upt_conv_Cons [OF zero_less_Suc] map_Suc_upt [symmetric]
  by (simp add: filter_map comp_def)

lemma set_nth_child_update:
  "i < length (used_slots cs) \<Longrightarrow> set_nth_child cs i x = cs[used_slots cs ! i := Some x]"
proof (induction cs i x rule: set_nth_child.induct)
  case (1 i x)
  then show ?case by (simp add: used_slots_def)
next
  case (2 cs i x)
  then show ?case by (simp add: used_slots_Cons)
next
  case (3 c cs i x)
  then show ?case by (cases i) (auto simp: used_slots_Cons)
qed

lemma setChildAt256:
  assumes "length cs = 256" and "i < length (alist256 cs)"
  shows "setChildAt (Node256 cs) i x = Node256 (cs[of_char (fst (alist256 cs ! i)) := Some x])"
proof -
  let ?is = "filter (\<lambda>j. cs ! j \<noteq> None) [0..<256]"
  have i: "i < length ?is" using assms(2) by (simp add: alist256_def)
  then have "?is ! i < 256" using nth_mem [OF i] by simp
  then have "of_char (fst (alist256 cs ! i)) = ?is ! i"
    unfolding alist256_def nth_map [OF i] by simp
  then show ?thesis
    using set_nth_child_update [of i cs x] i by (simp only: used_slots_def assms(1) setChildAt.simps)
qed

lemma alist_unique:
  assumes "sorted_wrt (<) (map fst xs)" and "sorted_wrt (<) (map fst ys)" and "mset xs = mset ys"
  shows "xs = (ys :: ('a :: linorder \<times> 'b) list)"
proof (rule map_sorted_distinct_set_unique [of fst])
  have s: "set xs = set ys" using assms(3) by (rule mset_eq_setD)
  have d: "distinct (map fst xs)" "distinct (map fst ys)" "sorted (map fst xs)" "sorted (map fst ys)"
    using assms(1,2) by (simp_all add: strict_sorted_iff)
  show "inj_on fst (set xs \<union> set ys)" using d(1) s by (simp add: distinct_map)
  show "set xs = set ys" by (rule s)
  show "distinct (map fst xs)" "distinct (map fst ys)" "sorted (map fst xs)" "sorted (map fst ys)"
    by (rule d)+
qed

lemma mset_grow48:
  assumes wf: "wf48 ks cs n"
  defines "cs' \<equiv> map (\<lambda>i. if ks ! i \<noteq> 0 then slot cs (unat (ks ! i) - 1) else None) [0..<256]"
  shows "mset (alist256 cs') = mset (zip (keys_list (Node48 ks cs n)) (map the (take n cs)))"
proof -
  have len: "length cs' = 256" by (simp add: cs'_def)
  let ?al = "zip (keys_list (Node48 ks cs n)) (map the (take n cs))"
  have n: "length (keys_list (Node48 ks cs n)) = length (map the (take n cs))"
    using wf by (simp add: wf48_def)
  have d: "distinct (map fst ?al)" using distinct_keys48 [OF wf] n by simp
  have "cs' ! of_char k = map_of ?al k" for k
    unfolding find48 [OF wf, symmetric] cs'_def by (simp add: Let_def word_gt_0)
  then have "(k, x) \<in> set (alist256 cs') \<longleftrightarrow> (k, x) \<in> set ?al" for k x
    unfolding in_alist256 [OF len] using d by (simp only: map_of_eq_Some_iff)
  then have "set (alist256 cs') = set ?al" by auto
  then show ?thesis
    using d distinct_alist256(2) by (simp only: set_eq_iff_mset_eq_distinct distinct_map)
qed

lemma grow48_wf:
  assumes "wf48 ks cs n"
  shows "\<exists>cs'. grow48 ks cs = Node256 cs' \<and> length cs' = 256 \<and>
    mset (alist256 cs') = mset (zip (keys_list (Node48 ks cs n)) (children_list (Node48 ks cs n)))"
  using mset_grow48 [OF assms] assms
  by (auto simp: grow48_def children_list_wf(3) simp del: keys_list.simps)

subsection \<open>Adding, for every container\<close>

text \<open>What \<open>addChild\<close> guarantees for a container \<open>c\<close> and the result \<open>d\<close>.\<close>

definition added :: "node_children \<Rightarrow> char \<Rightarrow> radix_node \<Rightarrow> node_children \<Rightarrow> bool" where
  "added c k x d \<longleftrightarrow> wf_children d \<and>
     mset (zip (keys_list d) (children_list d)) = add_mset (k, x) (mset (zip (keys_list c) (children_list c))) \<and>
     (sorted_wrt (<) (keys_list c @ [k]) \<longrightarrow>
        keys_list d = keys_list c @ [k] \<and> children_list d = children_list c @ [x])"

lemma addedI:
  assumes "wf_children d" and "keys_list d = keys_list c @ [k]" and "children_list d = children_list c @ [x]"
    and "length (keys_list c) = length (children_list c)"
  shows "added c k x d"
  using assms by (simp add: added_def)

lemma added_trans:
  assumes "added b k x d" and "keys_list b = keys_list c" and "children_list b = children_list c"
  shows "added c k x d"
  using assms by (simp add: added_def)

lemma len_keys_kids: "wf_children c \<Longrightarrow> length (keys_list c) = length (children_list c)"
proof (cases c)
  case (Node256 cs)
  assume "wf_children c"
  with Node256 have "length cs = 256" by simp
  from alist256_zip [OF this] show ?thesis unfolding Node256 by (metis length_map)
qed (auto simp: children_list_wf wf_linear_def wf48_def)

lemma added256:
  assumes wf: "wf_children c" and cs: "length cs = 256" and k: "cs ! of_char k = None"
    and m: "mset (alist256 cs) = mset (zip (keys_list c) (children_list c))"
  shows "added c k x (Node256 (cs[of_char k := Some x]))"
proof -
  let ?cs = "cs[of_char k := Some x]" and ?al = "zip (keys_list c) (children_list c)"
  have cs': "length ?cs = 256" using cs by simp
  note z = alist256_zip [OF cs']
  have m': "mset (alist256 ?cs) = add_mset (k, x) (mset ?al)"
    using mset_alist256_add [OF cs k, of x] m by simp
  have "keys_list (Node256 ?cs) = keys_list c @ [k] \<and> children_list (Node256 ?cs) = children_list c @ [x]"
    if s: "sorted_wrt (<) (keys_list c @ [k])"
  proof -
    have "alist256 ?cs = ?al @ [(k, x)]"
      using sorted_alist256 [of ?cs] s m' len_keys_kids [OF wf]
      by (intro alist_unique) (simp_all only: map_append map_fst_zip mset_append, simp_all)
    then show ?thesis
      using z(1,2) len_keys_kids [OF wf] by (metis (no_types, lifting) list.simps(8,9) map_append map_fst_zip map_snd_zip prod.sel)
  qed
  with m' z(3) cs' show ?thesis
    unfolding added_def wf_children.simps by presburger
qed

lemma added_addChild48:
  assumes "wf48 ks cs n" and "k \<notin> set (keys_list (Node48 ks cs n))"
  shows "added (Node48 ks cs n) k x (fst (addChild48 (Node48 ks cs n) k x))"
proof (cases "n < 48")
  case True
  note a = add48 [OF assms(1) True assms(2), of x]
  show ?thesis
    using True a(1) assms(1) unfolding addChild48.simps if_P [OF True] fst_conv
    by (intro addedI a(2)) (simp_all only: children_list_wf wf_children.simps a len_keys_kids)
next
  case False
  obtain cs' where g: "grow48 ks cs = Node256 cs'" "length cs' = 256"
    and m: "mset (alist256 cs') = mset (zip (keys_list (Node48 ks cs n)) (children_list (Node48 ks cs n)))"
    using grow48_wf [OF assms(1)] by blast
  have wf: "wf_children (Node48 ks cs n)" using assms(1) by simp
  have "cs' ! of_char k \<noteq> Some y" for y
  proof
    assume "cs' ! of_char k = Some y"
    then have "(k, y) \<in># mset (alist256 cs')" using in_alist256 [OF g(2)] by simp
    then show False using assms(2) unfolding m by (auto dest: set_zip_leftD)
  qed
  then have "cs' ! of_char k = None" by auto
  from added256 [OF wf g(2) this m] False g(1) show ?thesis by simp
qed

lemma added_addChild16:
  assumes "wf_linear 16 ks cs n" and "k \<notin> set (take n ks)"
  shows "added (Node16 ks cs n) k x (fst (addChild16 (Node16 ks cs n) k x))"
proof (cases "n < 16")
  case True
  have wf: "wf_children (Node16 ks cs n)" using assms(1) by simp
  note a = linear_add [OF assms(1) True assms(2)]
  show ?thesis
    using True a assms(1) len_keys_kids [OF wf]
    by (auto intro!: addedI simp: children_list_wf)
next
  case False
  obtain ks' cs' where g: "grow16 ks cs n = Node48 ks' cs' n" "wf48 ks' cs' n"
    "keys_list (Node48 ks' cs' n) = take n ks" "take n cs' = take n cs"
    using grow16_wf [OF assms(1)] by blast
  have "added (Node48 ks' cs' n) k x (fst (addChild48 (Node48 ks' cs' n) k x))"
    by (rule added_addChild48 [OF g(2)]) (simp only: g(3) assms(2) not_False_eq_True)
  then have "added (Node16 ks cs n) k x (fst (addChild48 (Node48 ks' cs' n) k x))"
  proof (rule added_trans)
    show "keys_list (Node48 ks' cs' n) = keys_list (Node16 ks cs n)" unfolding g(3) by simp
    show "children_list (Node48 ks' cs' n) = children_list (Node16 ks cs n)"
      using assms(1) g by (simp add: children_list_wf)
  qed
  with False g(1) show ?thesis by simp
qed

lemma added_addChild4:
  assumes "wf_linear 4 ks cs n" and "k \<notin> set (take n ks)"
  shows "added (Node4 ks cs n) k x (fst (addChild4 (Node4 ks cs n) k x))"
proof (cases "n < 4")
  case True
  have wf: "wf_children (Node4 ks cs n)" using assms(1) by simp
  note a = linear_add [OF assms(1) True assms(2)]
  show ?thesis
    using True a assms(1) len_keys_kids [OF wf]
    by (auto intro!: addedI simp: children_list_wf)
next
  case False
  note g = grow4_wf [OF assms(1)]
  obtain ks' cs' where d: "grow4 ks cs n = Node16 ks' cs' n" by (simp add: grow4_def)
  have "added (Node16 ks' cs' n) k x (fst (addChild16 (Node16 ks' cs' n) k x))"
    using added_addChild16 [of ks' cs' n k x] g(1,2) assms(2) by (simp add: d)
  then have "added (Node4 ks cs n) k x (fst (addChild16 (Node16 ks' cs' n) k x))"
    by (rule added_trans) (use g assms(1) in \<open>simp_all add: d children_list_wf\<close>)
  with False d show ?thesis by simp
qed

lemma added_addChild:
  assumes "wf_children c" and "k \<notin> set (keys_list c)"
  shows "added c k x (addChild c k x)"
proof (cases c)
  case (Node4 ks cs n)
  with assms show ?thesis using added_addChild4 by (simp add: addChild_def)
next
  case (Node16 ks cs n)
  with assms show ?thesis using added_addChild16 by (simp add: addChild_def)
next
  case (Node48 ks cs n)
  with assms have "added c k x (fst (addChild48 c k x))"
    using added_addChild48 by (simp del: keys_list.simps addChild48.simps)
  with Node48 show ?thesis by (simp add: addChild_def)
next
  case (Node256 cs)
  with assms(1) have cs: "length cs = 256" by simp
  note z = alist256_zip [OF cs]
  have "cs ! of_char k = None"
  proof (rule ccontr)
    assume "cs ! of_char k \<noteq> None"
    then obtain y where "(k, y) \<in> set (alist256 cs)" using in_alist256 [OF cs] by auto
    then have "k \<in> set (map fst (alist256 cs))" by force
    with z(1) assms(2) Node256 show False by simp
  qed
  from added256 [OF assms(1) cs this] z(3) Node256 show ?thesis
    by (simp add: addChild_def)
qed

subsection \<open>The interpretation\<close>

lemma distinct_keys_list: "wf_children c \<Longrightarrow> distinct (keys_list c)"
proof (cases c)
  case (Node48 ks cs n)
  assume "wf_children c"
  with Node48 distinct_keys48 show ?thesis by simp
next
  case (Node256 cs)
  assume "wf_children c"
  with Node256 alist256_zip(1) [of cs] distinct_alist256(1) [of cs] show ?thesis by simp
qed (simp_all add: wf_linear_def)

lemma findChild_keys:
  assumes "wf_children c"
  shows "findChild c k = map_of (zip (keys_list c) (children_list c)) k"
proof (cases c)
  case (Node4 ks cs n)
  with assms show ?thesis by (simp add: children_list_wf wf_linear_def find_key_zip)
next
  case (Node16 ks cs n)
  with assms show ?thesis by (simp add: children_list_wf wf_linear_def find_key_zip)
next
  case (Node48 ks cs n)
  with assms have "wf48 ks cs n" by simp
  from find48 [OF this] assms Node48 show ?thesis
    by (simp only: children_list_wf)
next
  case (Node256 cs)
  with assms have "length cs = 256" by simp
  then show ?thesis
    unfolding Node256 alist256_zip(3) [OF \<open>length cs = 256\<close>]
    by (simp add: map_of_alist256 slot_def)
qed

lemma setChild_nth:
  assumes "wf_children c" and "i < length (children_list c)"
  shows "wf_children (setChild c (keys_list c ! i) x) \<and> keys_list (setChild c (keys_list c ! i) x) = keys_list c \<and>
    children_list (setChild c (keys_list c ! i) x) = (children_list c)[i := x]"
proof (cases c)
  case (Node4 ks cs n)
  with assms have wf: "wf_linear 4 ks cs n" and i: "i < n" by (simp_all add: children_list_wf)
  then have "setChild c (keys_list c ! i) x = Node4 ks (cs[i := Some x]) n"
    using Node4 by (simp add: wf_linear_def set_key_nth)
  with linear_set [OF wf i] wf show ?thesis by (simp add: Node4 children_list_wf)
next
  case (Node16 ks cs n)
  with assms have wf: "wf_linear 16 ks cs n" and i: "i < n" by (simp_all add: children_list_wf)
  then have "setChild c (keys_list c ! i) x = Node16 ks (cs[i := Some x]) n"
    using Node16 by (simp add: wf_linear_def set_key_nth)
  with linear_set [OF wf i] wf show ?thesis by (simp add: Node16 children_list_wf)
next
  case (Node48 ks cs n)
  with assms have wf: "wf48 ks cs n" and i: "i < n" by (simp_all add: children_list_wf)
  have k: "keys_list c ! i = char_of (key48 ks i)" using Node48 i by simp
  show ?thesis
    unfolding k unfolding Node48 set48(3) [OF wf i] using set48(1,2) [OF wf i, of x] wf
    by (simp add: children_list_wf)
next
  case (Node256 cs)
  with assms have cs: "length cs = 256" by simp
  note z = alist256_zip [OF cs]
  have i: "i < length (alist256 cs)" using assms(2) z(2) Node256 by (metis length_map)
  have k: "fst (alist256 cs ! i) = keys_list c ! i" using z(1) i Node256 by (metis nth_map)
  note a = alist256_set_nth [OF cs i k, of x]
  have cs': "length (cs[of_char (keys_list c ! i) := Some x]) = 256" using cs by simp
  note z' = alist256_zip(1,2) [OF cs']
  have "keys_list (Node256 (cs[of_char (keys_list c ! i) := Some x])) = keys_list c"
  proof -
    have "map fst ((alist256 cs)[i := (keys_list c ! i, x)]) = map fst (alist256 cs)"
      using i k by (simp add: map_update list_update_same_conv)
    then show ?thesis by (simp only: z'(1) [symmetric] a) (simp only: z(1) Node256)
  qed
  moreover have "children_list (Node256 (cs[of_char (keys_list c ! i) := Some x])) = (children_list c)[i := x]"
    unfolding z'(2) [symmetric] a unfolding Node256 z(2) [symmetric] by (simp add: map_update)
  ultimately show ?thesis using cs' by (simp add: Node256)
qed

lemma setChildAt_nth:
  assumes "wf_children c" and "i < length (children_list c)"
  shows "setChildAt c i x = setChild c (keys_list c ! i) x"
proof (cases c)
  case (Node48 ks cs n)
  with assms have wf: "wf48 ks cs n" and i: "i < n" by (simp_all add: children_list_wf)
  have k: "keys_list c ! i = char_of (key48 ks i)" using Node48 i by simp
  show ?thesis unfolding k unfolding Node48 set48(3) [OF wf i] by simp
next
  case (Node256 cs)
  with assms have cs: "length cs = 256" by simp
  note z = alist256_zip [OF cs]
  have i: "i < length (alist256 cs)" using assms(2) z(2) Node256 by (metis length_map)
  have k: "fst (alist256 cs ! i) = keys_list c ! i" using z(1) i Node256 by (metis nth_map)
  show ?thesis unfolding Node256 setChildAt256 [OF cs i] using k Node256 by simp
qed (use assms in \<open>auto simp: children_list_wf wf_linear_def set_key_nth\<close>)

interpretation nc: child_container wf_children empty_Node4 findChild addChild setChild setChildAt keys_list children_list
proof
  show "wf_children empty_Node4" "keys_list empty_Node4 = []" "children_list empty_Node4 = []"
    by (simp_all add: empty_Node4_def wf_linear_def children_list_def List.map_filter_def)
  fix c k x i
  assume wf: "wf_children c"
  show "length (keys_list c) = length (children_list c)" using wf by (rule len_keys_kids)
  show "distinct (keys_list c)" using wf by (rule distinct_keys_list)
  show "findChild c k = map_of (zip (keys_list c) (children_list c)) k" using wf by (rule findChild_keys)
  { assume "k \<notin> set (keys_list c)"
    with added_addChild [OF wf this, of x] show "wf_children (addChild c k x)"
      and "mset (zip (keys_list (addChild c k x)) (children_list (addChild c k x)))
        = add_mset (k, x) (mset (zip (keys_list c) (children_list c)))"
      by (simp_all add: added_def) }
  { assume s: "sorted_wrt (<) (keys_list c @ [k])"
    then have "k \<notin> set (keys_list c)" by (auto simp: sorted_wrt_append)
    from added_addChild [OF wf this, of x] s
    show "keys_list (addChild c k x) = keys_list c @ [k] \<and> children_list (addChild c k x) = children_list c @ [x]"
      by (simp add: added_def) }
  assume i: "i < length (children_list c)"
  show "wf_children (setChildAt c i x) \<and> keys_list (setChildAt c i x) = keys_list c \<and>
      children_list (setChildAt c i x) = (children_list c)[i := x]"
    unfolding setChildAt_nth [OF wf i] by (rule setChild_nth [OF wf i])
  assume "keys_list c ! i = k"
  with setChild_nth [OF wf i, of x] show "wf_children (setChild c k x) \<and> keys_list (setChild c k x) = keys_list c \<and>
      children_list (setChild c k x) = (children_list c)[i := x]" by simp
qed

end
