(* ===== verification/Strconv.thy ===== *)
theory Strconv
  imports Go_Base
begin

text \<open>
  \<open>strconv\<close>: decimal printing (\<open>Itoa\<close>, \<open>FormatInt\<close>, \<open>FormatUint\<close>, all in base 10) and
  parsing (\<open>ParseUint\<close>, \<open>ParseInt\<close>, \<open>Atoi\<close>, base 10, 64 bits) with their errors, as the
  program uses them. The lemmas give the round trip and the range of what is parsed.
\<close>

section \<open>Printing\<close>

definition digit_char :: "nat \<Rightarrow> char" where
  "digit_char d = char_of (48 + d)"

fun show_nat :: "nat \<Rightarrow> string" where
  "show_nat n = (if n < 10 then [digit_char n] else show_nat (n div 10) @ [digit_char (n mod 10)])"

declare show_nat.simps [simp del]

definition FormatInt :: "int \<Rightarrow> string" where
  "FormatInt i = (if i < 0 then CHR ''-'' # show_nat (nat (- i)) else show_nat (nat i))"

abbreviation Itoa :: "int \<Rightarrow> string" where "Itoa \<equiv> FormatInt"

definition FormatUint :: "64 word \<Rightarrow> string" where
  "FormatUint w = show_nat (unat w)"

section \<open>Parsing\<close>

datatype num_kind = ErrSyntax | ErrRange

record num_error =
  ne_func :: string
  ne_num :: string
  ne_kind :: num_kind

definition is_digit :: "char \<Rightarrow> bool" where
  "is_digit c \<longleftrightarrow> 48 \<le> (of_char c :: nat) \<and> (of_char c :: nat) \<le> 57"

definition digit_val :: "char \<Rightarrow> int" where
  "digit_val c = of_char c - 48"

text \<open>The loop of \<open>ParseUint\<close>: a range error is reported as soon as the value leaves 64 bits,
  before the rest of the string is looked at.\<close>

fun parse_digits :: "int \<Rightarrow> string \<Rightarrow> num_kind + int" where
  "parse_digits n [] = Inr n"
| "parse_digits n (c # s) =
     (if \<not> is_digit c then Inl ErrSyntax
      else if 1844674407370955162 \<le> n then Inl ErrRange
      else if 18446744073709551615 < n * 10 + digit_val c then Inl ErrRange
      else parse_digits (n * 10 + digit_val c) s)"

definition parse_uint :: "string \<Rightarrow> num_kind + int" where
  "parse_uint s = (if s = [] then Inl ErrSyntax else parse_digits 0 s)"

definition ParseUint :: "string \<Rightarrow> num_error + 64 word" where
  "ParseUint s = (case parse_uint s of
       Inl k \<Rightarrow> Inl \<lparr>ne_func = ''ParseUint'', ne_num = s, ne_kind = k\<rparr>
     | Inr n \<Rightarrow> Inr (word_of_int n))"

definition parse_int :: "string \<Rightarrow> num_kind + int" where
  "parse_int s =
     (case s of [] \<Rightarrow> Inl ErrSyntax
      | c # t \<Rightarrow>
        (let neg = (c = CHR ''-'');
             body = (if c = CHR ''+'' \<or> neg then t else s)
         in case parse_uint body of
              Inl k \<Rightarrow> Inl k
            | Inr un \<Rightarrow>
                if \<not> neg \<and> 2 ^ 63 \<le> un then Inl ErrRange
                else if neg \<and> 2 ^ 63 < un then Inl ErrRange
                else Inr (if neg then - un else un)))"

definition ParseInt :: "string \<Rightarrow> num_error + int" where
  "ParseInt s = (case parse_int s of
       Inl k \<Rightarrow> Inl \<lparr>ne_func = ''ParseInt'', ne_num = s, ne_kind = k\<rparr>
     | Inr n \<Rightarrow> Inr n)"

definition Atoi :: "string \<Rightarrow> num_error + int" where
  "Atoi s = (case parse_int s of
       Inl k \<Rightarrow> Inl \<lparr>ne_func = ''Atoi'', ne_num = s, ne_kind = k\<rparr>
     | Inr n \<Rightarrow> Inr n)"

text \<open>The value \<open>ParseInt\<close> returns beside the error: 0, or the bound that was passed.\<close>

definition ParseInt_value :: "string \<Rightarrow> int" where
  "ParseInt_value s = (case parse_int s of
       Inr n \<Rightarrow> n
     | Inl ErrSyntax \<Rightarrow> 0
     | Inl ErrRange \<Rightarrow> if hd s = CHR ''-'' then - (2 ^ 63) else 2 ^ 63 - 1)"

section \<open>Error messages\<close>

definition hex_digit :: "nat \<Rightarrow> char" where
  "hex_digit d = (if d < 10 then char_of (48 + d) else char_of (87 + d))"

definition quote_char :: "char \<Rightarrow> string" where
  "quote_char c =
     (let n = (of_char c :: nat) in
      if n = 34 \<or> n = 92 then [char_of (92::nat), c]
      else if 32 \<le> n \<and> n < 127 then [c]
      else if n = 7 then [char_of (92::nat), CHR ''a'']
      else if n = 8 then [char_of (92::nat), CHR ''b'']
      else if n = 12 then [char_of (92::nat), CHR ''f'']
      else if n = 10 then [char_of (92::nat), CHR ''n'']
      else if n = 13 then [char_of (92::nat), CHR ''r'']
      else if n = 9 then [char_of (92::nat), CHR ''t'']
      else if n = 11 then [char_of (92::nat), CHR ''v'']
      else [char_of (92::nat), CHR ''x'', hex_digit (n div 16), hex_digit (n mod 16)])"

definition Quote :: "go_env \<Rightarrow> string \<Rightarrow> string" where
  "Quote e s = (if list_all ascii s
     then char_of (34::nat) # concat (map quote_char s) @ [char_of (34::nat)] else quote_u e s)"

text \<open>\<open>(*NumError).Error()\<close>\<close>

definition num_error_msg :: "go_env \<Rightarrow> num_error \<Rightarrow> string" where
  "num_error_msg e ne = ''strconv.'' @ ne_func ne @ '': parsing '' @ Quote e (ne_num ne) @ '': '' @
     (case ne_kind ne of ErrSyntax \<Rightarrow> ''invalid syntax'' | ErrRange \<Rightarrow> ''value out of range'')"

section \<open>Digits\<close>

lemma of_char_digit_char [simp]: "d < 10 \<Longrightarrow> of_char (digit_char d) = (48 + d :: nat)"
  by (simp add: digit_char_def of_char_of)

lemma is_digit_digit_char [simp]: "d < 10 \<Longrightarrow> is_digit (digit_char d)"
  by (simp add: is_digit_def)

lemma of_char_int: "(of_char c :: int) = int (of_char c)"
  by (simp add: of_char_def)

lemma digit_val_digit_char [simp]: "d < 10 \<Longrightarrow> digit_val (digit_char d) = int d"
  by (simp add: digit_val_def of_char_int)

lemma digit_val_bounds [simp]: "is_digit c \<Longrightarrow> digit_val c < 10" "is_digit c \<Longrightarrow> 0 \<le> digit_val c"
  by (simp_all add: is_digit_def digit_val_def of_char_int)

lemma show_nat_digits: "c \<in> set (show_nat n) \<Longrightarrow> is_digit c"
proof (induction n rule: show_nat.induct)
  case (1 n)
  then show ?case
    by (subst (asm) show_nat.simps) (auto split: if_splits)
qed

lemma show_nat_nonempty [simp]: "show_nat n \<noteq> []"
  by (subst show_nat.simps) simp

lemma is_digit_special [simp]:
  "\<not> is_digit CR" "\<not> is_digit LF" "\<not> is_digit (CHR ''-'')" "\<not> is_digit (CHR ''+'')"
  "\<not> is_digit (CHR ''('')" "\<not> is_digit (CHR ''*'')"
  by (simp_all add: is_digit_def)

lemma show_nat_not_special [simp]:
  "CR \<notin> set (show_nat n)" "LF \<notin> set (show_nat n)" "CHR ''-'' \<notin> set (show_nat n)"
  "CHR ''+'' \<notin> set (show_nat n)" "CHR ''('' \<notin> set (show_nat n)" "CHR ''*'' \<notin> set (show_nat n)"
  using show_nat_digits is_digit_special by blast+

lemma FormatInt_no_newline [simp]: "LF \<notin> set (FormatInt i)" "CR \<notin> set (FormatInt i)"
  by (simp_all add: FormatInt_def)

lemma FormatInt_nonempty [simp]: "FormatInt i \<noteq> []"
  by (simp add: FormatInt_def)

text \<open>The same digits from a binary number, for evaluation.\<close>

function show_int :: "int \<Rightarrow> string" where
  "show_int n = (if n < 10 then [digit_char (nat n)] else show_int (n div 10) @ [digit_char (nat (n mod 10))])"
  by auto
termination by (relation "measure nat") auto

declare show_int.simps [simp del]

lemma show_int_nat: "0 \<le> i \<Longrightarrow> show_int i = show_nat (nat i)"
proof (induction i rule: show_int.induct)
  case (1 n)
  then show ?case
    by (subst show_int.simps, subst show_nat.simps) (auto simp: nat_div_distrib nat_mod_distrib nat_less_iff)
qed

lemma FormatInt_code [code]: "FormatInt i = (if i < 0 then CHR ''-'' # show_int (- i) else show_int i)"
  by (simp add: FormatInt_def show_int_nat)

lemma FormatUint_code [code]: "FormatUint w = show_int (uint w)"
  by (simp add: FormatUint_def show_int_nat)

section \<open>Round trips\<close>

lemma parse_digits_append:
  "parse_digits n (s @ t) = (case parse_digits n s of Inl k \<Rightarrow> Inl k | Inr m \<Rightarrow> parse_digits m t)"
  by (induction n s rule: parse_digits.induct) auto

lemma parse_digits_show: "n \<le> 18446744073709551615 \<Longrightarrow> parse_digits 0 (show_nat n) = Inr (int n)"
proof (induction n rule: show_nat.induct)
  case (1 n)
  show ?case
  proof (cases "n < 10")
    case True
    then show ?thesis by (simp add: show_nat.simps [of n])
  next
    case False
    from False 1 have "parse_digits 0 (show_nat (n div 10)) = Inr (int (n div 10))" by simp
    moreover have "int (n div 10) * 10 + int (n mod 10) = int n"
      by (metis div_mult_mod_eq of_nat_add of_nat_mult of_nat_numeral)
    ultimately show ?thesis using False 1
      by (simp add: show_nat.simps [of n] parse_digits_append)
  qed
qed

lemma parse_uint_show: "n \<le> 18446744073709551615 \<Longrightarrow> parse_uint (show_nat n) = Inr (int n)"
  by (simp add: parse_uint_def parse_digits_show)

lemma ParseUint_FormatUint: "ParseUint (FormatUint w) = Inr w"
proof -
  have "unat w \<le> 18446744073709551615"
    using unsigned_less [of w, where ?'a = nat] by simp
  then show ?thesis
    by (simp add: ParseUint_def FormatUint_def parse_uint_show)
qed

lemma show_nat_hd_not_sign: "show_nat n = c # t \<Longrightarrow> c \<noteq> CHR ''-'' \<and> c \<noteq> CHR ''+''"
  using show_nat_not_special [of n] by auto

lemma parse_int_FormatInt:
  assumes "in_i64 i"
  shows "parse_int (FormatInt i) = Inr i"
proof (cases "i < 0")
  case True
  with assms have "nat (- i) \<le> 2 ^ 63" by (simp add: in_i64_def)
  with True show ?thesis
    by (simp add: parse_int_def FormatInt_def parse_uint_show)
next
  case False
  with assms have b: "nat i < 2 ^ 63" by (simp add: in_i64_def)
  obtain c t where s: "show_nat (nat i) = c # t"
    by (meson neq_Nil_conv show_nat_nonempty)
  have "parse_uint (c # t) = Inr i"
    using b False by (simp flip: s add: parse_uint_show)
  with False b show_nat_hd_not_sign [OF s] show ?thesis
    by (simp add: parse_int_def FormatInt_def s)
qed

lemma ParseInt_FormatInt: "in_i64 i \<Longrightarrow> ParseInt (FormatInt i) = Inr i"
  by (simp add: ParseInt_def parse_int_FormatInt)

lemma Atoi_FormatInt: "in_i64 i \<Longrightarrow> Atoi (FormatInt i) = Inr i"
  by (simp add: Atoi_def parse_int_FormatInt)

lemma parse_digits_nonneg: "parse_digits n s = Inr m \<Longrightarrow> 0 \<le> n \<Longrightarrow> 0 \<le> m"
  by (induction n s rule: parse_digits.induct) (auto split: if_splits)

lemma parse_uint_nonneg: "parse_uint s = Inr m \<Longrightarrow> 0 \<le> m"
  by (auto simp: parse_uint_def split: if_splits dest: parse_digits_nonneg)

lemma parse_int_range: "parse_int s = Inr i \<Longrightarrow> in_i64 i"
  by (auto simp: parse_int_def in_i64_def Let_def split: list.splits sum.splits if_splits dest: parse_uint_nonneg)

lemma ParseInt_range: "ParseInt s = Inr i \<Longrightarrow> in_i64 i"
  by (auto simp: ParseInt_def split: sum.splits dest: parse_int_range)

lemma Atoi_range: "Atoi s = Inr i \<Longrightarrow> in_i64 i"
  by (auto simp: Atoi_def split: sum.splits dest: parse_int_range)

end
