(* ===== verification/Radix_Tree.thy ===== *)
theory Radix_Tree
  imports Radix_Node Strconv
begin

text \<open>
  \<open>pkg/keyval/radix_tree.go\<close>, second half: the radix tree that holds the entries of a
  stream, with insertion, range queries, ID generation and validation, and trimming. Locks
  are not modelled: every operation takes the tree's lock for its whole body, so it is one
  atomic step. Nodes are values, and the pointer the insertion loop walks down is the
  recursion; \<open>append\<close> never writes into a slice that another part of the tree still reads.
\<close>

section \<open>Data\<close>

record radix_tree =
  root :: radix_node
  tree_size :: int
  lastTimestamp :: int
  sequence :: int
  LastID :: string

definition NewRadixTree :: radix_tree where
  "NewRadixTree = \<lparr>root = NewRadixNode [], tree_size = 0, lastTimestamp = 0, sequence = 0, LastID = []\<rparr>"

section \<open>Insertion\<close>

fun commonPrefixLength :: "string \<Rightarrow> string \<Rightarrow> nat" where
  "commonPrefixLength (a # as) (b # bs) = (if a \<noteq> b then 0 else Suc (commonPrefixLength as bs))"
| "commonPrefixLength _ _ = 0"

text \<open>\<open>split\<close>: the node keeps the first \<open>position\<close> bytes of its prefix and hands everything
  else to a new only child. The rest of the prefix is not empty where \<open>split\<close> is called.\<close>

definition split_node :: "radix_node \<Rightarrow> nat \<Rightarrow> radix_node" where
  "split_node n position =
     (let rest = drop position (prefix n);
          child = RadixNode Node4Type rest (children n) (isLeaf n) (entries n)
      in RadixNode (nodeType n) (take position (prefix n)) (addChild empty_Node4 (hd rest) child) False [])"

lemma size_slot: "Some c \<in> set cs \<Longrightarrow> size c < Suc (size_list (size_option size) cs)"
  using size_list_estimation' [of "Some c" cs "size c" "size_option size"] by simp

lemma find_key_mem: "find_key ks cs n k = Some c \<Longrightarrow> Some c \<in> set cs"
  by (induction ks cs n k rule: find_key.induct) (auto split: if_splits)

lemma slot_mem: "slot cs i = Some c \<Longrightarrow> Some c \<in> set cs"
  by (auto simp: slot_def split: if_splits) (metis nth_mem)

lemma nth_child_mem: "nth_child cs i = Some c \<Longrightarrow> Some c \<in> set cs"
  by (induction cs i rule: nth_child.induct) (auto split: if_splits)

lemma findChild_size: "findChild ch k = Some c \<Longrightarrow> size c < size ch"
  by (cases ch) (auto simp: Let_def size_slot split: if_splits dest!: find_key_mem slot_mem)

lemma getChild_size: "getChild ch i = Some c \<Longrightarrow> size c < size ch"
  by (cases ch) (auto simp: size_slot split: if_splits dest!: slot_mem nth_child_mem)

lemma children_list_size [termination_simp]: "c \<in> set (children_list ch) \<Longrightarrow> size c < size ch"
  by (auto simp: children_list_def List.map_filter_def getChild_size)

lemma commonPrefixLength_le: "commonPrefixLength p s \<le> length p" "commonPrefixLength p s \<le> length s"
  by (induction p s rule: commonPrefixLength.induct) auto

lemma commonPrefixLength_take: "take (commonPrefixLength p s) p = take (commonPrefixLength p s) s"
  by (induction p s rule: commonPrefixLength.induct) auto

lemma commonPrefixLength_diff:
  "drop (commonPrefixLength p s) p = a # as \<Longrightarrow> drop (commonPrefixLength p s) s = b # bs \<Longrightarrow> a \<noteq> b"
  by (induction p s rule: commonPrefixLength.induct) (auto split: if_splits)

lemma commonPrefixLength_take_self:
  "commonPrefixLength (take (commonPrefixLength p s) p) s = commonPrefixLength p s"
  by (induction p s rule: commonPrefixLength.induct) auto

lemma split_node_children:
  assumes "position < length (prefix n)"
  defines "child \<equiv> RadixNode Node4Type (drop position (prefix n)) (children n) (isLeaf n) (entries n)"
  shows "wf_children (children (split_node n position))"
    and "keys_list (children (split_node n position)) = [prefix n ! position]"
    and "children_list (children (split_node n position)) = [child]"
proof -
  note a = nc.add_last [OF nc.new_invar, of "prefix n ! position" child]
  have "children (split_node n position) = addChild empty_Node4 (prefix n ! position) child"
    using assms(1) by (simp add: split_node_def child_def hd_drop_conv_nth)
  with a show "wf_children (children (split_node n position))"
    and "keys_list (children (split_node n position)) = [prefix n ! position]"
    and "children_list (children (split_node n position)) = [child]"
    by (simp_all add: nc.new_kids nc.new_invar nc.add_invar)
qed

text \<open>After a split the walk stops: the next byte of the ID is not the key of the only child.\<close>

lemma split_then_new:
  assumes "commonPrefixLength (prefix n) s < length (prefix n)"
    and "drop (commonPrefixLength (prefix n) s) s = b # bs"
  shows "findChild (children (split_node n (commonPrefixLength (prefix n) s))) b = None"
proof -
  let ?k = "commonPrefixLength (prefix n) s"
  note c = split_node_children [OF assms(1)]
  have "drop ?k (prefix n) = prefix n ! ?k # drop (Suc ?k) (prefix n)"
    using assms(1) by (simp add: Cons_nth_drop_Suc)
  then have "prefix n ! ?k \<noteq> b"
    by (rule commonPrefixLength_diff [OF _ assms(2)])
  then show ?thesis
    using nc.find_None [OF c(1)] c(2) by simp
qed

text \<open>The loop of \<open>AddEntry\<close> at one node, with the part of the ID not consumed yet.\<close>

function add_node :: "radix_node \<Rightarrow> string \<Rightarrow> stream_entry \<Rightarrow> radix_node" where
  "add_node n sid entry =
     (let k = commonPrefixLength (prefix n) sid in
      if k = length (prefix n) then
        (case drop k sid of
           [] \<Rightarrow> RadixNode (nodeType n) (prefix n) (children n) True (entries n @ [entry])
         | c # sid' \<Rightarrow>
             (case findChild (children n) c of
                None \<Rightarrow>
                  RadixNode (nodeType n) (prefix n)
                    (addChild (children n) c (RadixNode Node4Type (c # sid') empty_Node4 True [entry]))
                    (isLeaf n) (entries n)
              | Some child \<Rightarrow>
                  RadixNode (nodeType n) (prefix n)
                    (setChild (children n) c (add_node child (c # sid') entry)) (isLeaf n) (entries n)))
      else add_node (split_node n k) sid entry)"
  by pat_completeness auto

text \<open>The walk goes down one level per step, and at most one step in between is a split.\<close>

definition walk_measure :: "radix_node \<Rightarrow> string \<Rightarrow> nat" where
  "walk_measure n sid =
     (let k = commonPrefixLength (prefix n) sid in
      if k = length (prefix n) then
        (case drop k sid of [] \<Rightarrow> 0
         | c # sid' \<Rightarrow> (case findChild (children n) c of None \<Rightarrow> 0 | Some child \<Rightarrow> size child + 2))
      else 1)"

lemma walk_measure_less: "walk_measure child sid < size child + 2"
proof -
  have "size c + 2 < size child + 2" if "findChild (children child) k = Some c" for c k
    using findChild_size [OF that] by (cases child) auto
  then show ?thesis
    by (auto simp: walk_measure_def Let_def split: list.splits option.splits)
qed

lemma walk_measure_split:
  assumes "commonPrefixLength (prefix n) sid \<noteq> length (prefix n)"
  shows "walk_measure (split_node n (commonPrefixLength (prefix n) sid)) sid < walk_measure n sid"
proof -
  have lt: "commonPrefixLength (prefix n) sid < length (prefix n)"
    using assms commonPrefixLength_le(1) [of "prefix n" sid] by simp
  have "prefix (split_node n (commonPrefixLength (prefix n) sid)) = take (commonPrefixLength (prefix n) sid) (prefix n)"
    by (simp add: split_node_def Let_def)
  then have "walk_measure (split_node n (commonPrefixLength (prefix n) sid)) sid = 0"
    using lt split_then_new [OF lt]
    by (auto simp: walk_measure_def commonPrefixLength_take_self Let_def min_def split: list.splits)
  with assms show ?thesis by (simp add: walk_measure_def)
qed

termination add_node
proof (relation "measure (\<lambda>(n, sid, entry). walk_measure n sid)")
  fix n sid entry k c sid' child
  assume "k = commonPrefixLength (prefix n) sid" "k = length (prefix n)" "drop k sid = c # sid'"
    "findChild (children n) c = Some child"
  then show "((child, c # sid', entry), (n, sid, entry)) \<in> measure (\<lambda>(n, sid, entry). walk_measure n sid)"
    using walk_measure_less [of child "c # sid'"] by (simp add: walk_measure_def)
qed (auto simp: walk_measure_split)

declare add_node.simps [simp del]

section \<open>What a tree holds\<close>

text \<open>The entries of a subtree with their paths, and the paths of the nodes marked as leaves,
  both in the order the traversals visit them.\<close>

fun items :: "string \<Rightarrow> radix_node \<Rightarrow> (string \<times> stream_entry) list" where
  "items cur (RadixNode t pre ch leaf es) =
     (if leaf then map (Pair (cur @ pre)) es else []) @ concat (map (items (cur @ pre)) (children_list ch))"

fun leaf_ids :: "string \<Rightarrow> radix_node \<Rightarrow> string list" where
  "leaf_ids cur (RadixNode t pre ch leaf es) =
     (if leaf then [cur @ pre] else []) @ concat (map (leaf_ids (cur @ pre)) (children_list ch))"

text \<open>The invariant of a subtree below the path \<open>cur\<close>: its containers are well formed, every
  entry carries the ID its path spells, only a leaf has entries, every child is filed under
  the first byte of its prefix, and no child is a dead end.\<close>

fun wf_node :: "string \<Rightarrow> radix_node \<Rightarrow> bool" where
  "wf_node cur (RadixNode t pre ch leaf es) \<longleftrightarrow>
     wf_children ch \<and> (\<forall>e \<in> set es. ID e = cur @ pre) \<and> (\<not> leaf \<longrightarrow> es = []) \<and>
     keys_list ch = map (hd \<circ> prefix) (children_list ch) \<and>
     (\<forall>c \<in> set (children_list ch). prefix c \<noteq> [] \<and> (isLeaf c \<or> children_list (children c) \<noteq> []) \<and>
        wf_node (cur @ pre) c)"

text \<open>The children of every node are in key order.\<close>

fun ordered :: "radix_node \<Rightarrow> bool" where
  "ordered (RadixNode t pre ch leaf es) \<longleftrightarrow>
     sorted_wrt (<) (keys_list ch) \<and> (\<forall>c \<in> set (children_list ch). ordered c)"

subsection \<open>Splitting\<close>

lemma split_items:
  assumes "k < length (prefix n)"
  shows "items cur (split_node n k) = items cur n" and "leaf_ids cur (split_node n k) = leaf_ids cur n"
proof -
  obtain t pre ch leaf es where n: "n = RadixNode t pre ch leaf es" by (cases n)
  obtain ch' where s: "split_node n k = RadixNode t (take k pre) ch' False []"
    and c: "children_list ch' = [RadixNode Node4Type (drop k pre) ch leaf es]"
    using split_node_children(3) [OF assms] by (simp add: n split_node_def Let_def)
  show "items cur (split_node n k) = items cur n" "leaf_ids cur (split_node n k) = leaf_ids cur n"
    unfolding s by (simp_all add: c n)
qed

lemma split_wf:
  assumes "k < length (prefix n)" and "wf_node cur n" and "isLeaf n \<or> children_list (children n) \<noteq> []"
  shows "wf_node cur (split_node n k)"
proof -
  obtain t pre ch leaf es where n: "n = RadixNode t pre ch leaf es" by (cases n)
  obtain ch' where s: "split_node n k = RadixNode t (take k pre) ch' False []"
    by (simp add: n split_node_def Let_def)
  have c: "wf_children ch'" "keys_list ch' = [pre ! k]"
    "children_list ch' = [RadixNode Node4Type (drop k pre) ch leaf es]"
    using split_node_children [OF assms(1)] by (simp_all add: s) (simp_all add: n)
  show ?thesis
    unfolding s using c assms by (simp add: n hd_drop_conv_nth)
qed

lemma split_ordered: "k < length (prefix n) \<Longrightarrow> ordered n \<Longrightarrow> ordered (split_node n k)"
  using split_node_children [of k n] by (cases n) (simp add: split_node_def Let_def)

lemma split_prefix [simp]: "prefix (split_node n k) = take k (prefix n)"
  by (simp add: split_node_def Let_def)

lemma split_not_dead: "k < length (prefix n) \<Longrightarrow> children_list (children (split_node n k)) \<noteq> []"
  using split_node_children(3) by simp

subsection \<open>Insertion adds one entry\<close>

lemma add_node_prefix: "prefix (add_node n sid entry) = take (commonPrefixLength (prefix n) sid) (prefix n)"
proof (induction n sid entry rule: add_node.induct)
  case (1 n sid entry)
  show ?case
  proof (cases "commonPrefixLength (prefix n) sid = length (prefix n)")
    case True
    then show ?thesis
      by (simp add: add_node.simps [of n] Let_def split: list.splits option.splits)
  next
    case False
    with 1(2) [OF refl] show ?thesis
      by (simp add: add_node.simps [of n] Let_def commonPrefixLength_take_self min_def commonPrefixLength_le)
  qed
qed

lemma mset_concat_update:
  assumes "i < length xs"
  shows "mset (concat (map f (xs[i := x]))) + mset (f (xs ! i)) = mset (concat (map f xs)) + mset (f x)"
proof -
  have xs: "xs = take i xs @ xs ! i # drop (Suc i) xs" using assms by (simp add: id_take_nth_drop)
  have "xs[i := x] = take i xs @ x # drop (Suc i) xs" using assms by (simp add: upd_conv_take_nth_drop)
  then show ?thesis by (subst (3) xs) simp
qed

lemma UN_set_update:
  assumes "i < length xs" and "g x = insert a (g (xs ! i))"
  shows "(\<Union>y \<in> set (xs[i := x]). g y) = insert a (\<Union>y \<in> set xs. g y)"
proof -
  have xs: "xs = take i xs @ xs ! i # drop (Suc i) xs" using assms(1) by (simp add: id_take_nth_drop)
  have "xs[i := x] = take i xs @ x # drop (Suc i) xs" using assms(1) by (simp add: upd_conv_take_nth_drop)
  then have "(\<Union>y \<in> set (xs[i := x]). g y) = insert a (\<Union>y \<in> set (take i xs @ xs ! i # drop (Suc i) xs). g y)"
    using assms(2) by auto
  then show ?thesis by (simp only: xs [symmetric])
qed

lemma mset_concat_cong: "mset xs = mset ys \<Longrightarrow> mset (concat (map f xs)) = mset (concat (map f ys))"
  unfolding mset_concat map_map by (metis mset_map sum_mset_sum_list)

text \<open>One unfolding of the walk, by what happens at the node.\<close>

lemma add_node_cases:
  assumes "commonPrefixLength (prefix n) sid = length (prefix n)"
  obtains (Leaf) "sid = prefix n"
      "add_node n sid entry = RadixNode (nodeType n) (prefix n) (children n) True (entries n @ [entry])"
    | (New) c s' where "sid = prefix n @ c # s'" "findChild (children n) c = None"
      "add_node n sid entry = RadixNode (nodeType n) (prefix n)
         (addChild (children n) c (RadixNode Node4Type (c # s') empty_Node4 True [entry])) (isLeaf n) (entries n)"
    | (Child) c s' child where "sid = prefix n @ c # s'" "findChild (children n) c = Some child"
      "add_node n sid entry = RadixNode (nodeType n) (prefix n)
         (setChild (children n) c (add_node child (c # s') entry)) (isLeaf n) (entries n)"
proof -
  have "take (length (prefix n)) sid = prefix n"
    using commonPrefixLength_take [of "prefix n" sid] assms by simp
  then have sid: "sid = prefix n @ drop (length (prefix n)) sid" by (metis append_take_drop_id)
  show thesis
  proof (cases "drop (length (prefix n)) sid")
    case Nil
    with sid assms show thesis by (intro Leaf) (simp_all add: add_node.simps [of n])
  next
    case (Cons c s')
    show thesis
    proof (cases "findChild (children n) c")
      case None
      with Cons sid assms show thesis by (intro New [of c s']) (simp_all add: add_node.simps [of n])
    next
      case (Some child)
      with Cons sid assms show thesis by (intro Child [of c s' child]) (simp_all add: add_node.simps [of n])
    qed
  qed
qed

lemma add_node_split:
  assumes "commonPrefixLength (prefix n) sid \<noteq> length (prefix n)"
  shows "commonPrefixLength (prefix n) sid < length (prefix n)"
    and "add_node n sid entry = add_node (split_node n (commonPrefixLength (prefix n) sid)) sid entry"
  using assms commonPrefixLength_le(1) [of "prefix n" sid] by (simp_all add: add_node.simps [of n])

text \<open>Only the root may be a dead end; its prefix is empty, so it is never split.\<close>

definition live :: "radix_node \<Rightarrow> bool" where
  "live n \<longleftrightarrow> prefix n = [] \<or> isLeaf n \<or> children_list (children n) \<noteq> []"

lemma liveD: "live n \<Longrightarrow> k < length (prefix n) \<Longrightarrow> isLeaf n \<or> children_list (children n) \<noteq> []"
  by (auto simp: live_def)

lemma live_split: "k < length (prefix n) \<Longrightarrow> live (split_node n k)"
  by (simp add: live_def split_not_dead)

lemma commonPrefixLength_Cons: "p \<noteq> [] \<Longrightarrow> hd p = c \<Longrightarrow> take (commonPrefixLength p (c # s)) p \<noteq> [] \<and>
    hd (take (commonPrefixLength p (c # s)) p) = c"
  by (cases p) auto

lemma wf_node_unfold:
  "wf_node cur n \<longleftrightarrow>
     wf_children (children n) \<and> (\<forall>e \<in> set (entries n). ID e = cur @ prefix n) \<and> (\<not> isLeaf n \<longrightarrow> entries n = []) \<and>
     keys_list (children n) = map (hd \<circ> prefix) (children_list (children n)) \<and>
     (\<forall>c \<in> set (children_list (children n)). prefix c \<noteq> [] \<and> (isLeaf c \<or> children_list (children c) \<noteq> []) \<and>
        wf_node (cur @ prefix n) c)"
  by (cases n) simp

lemma items_unfold:
  "items cur n = (if isLeaf n then map (Pair (cur @ prefix n)) (entries n) else []) @
     concat (map (items (cur @ prefix n)) (children_list (children n)))"
  "leaf_ids cur n = (if isLeaf n then [cur @ prefix n] else []) @
     concat (map (leaf_ids (cur @ prefix n)) (children_list (children n)))"
  by (cases n; simp)+

lemma ordered_unfold:
  "ordered n \<longleftrightarrow> sorted_wrt (<) (keys_list (children n)) \<and> (\<forall>c \<in> set (children_list (children n)). ordered c)"
  by (cases n) simp

lemma new_leaf [simp]:
  "children_list empty_Node4 = []" "keys_list empty_Node4 = []" "wf_children empty_Node4"
  by (rule nc.new_kids nc.new_invar)+

lemma zip_map_iff: "length ks = length xs \<Longrightarrow> ks = map f xs \<longleftrightarrow> (\<forall>(k, x) \<in> set (zip ks xs). k = f x)"
  by (induction ks xs rule: list_induct2) auto

lemma wf_node_new:
  assumes wf: "wf_node cur n" and c: "findChild (children n) c = None"
    and x: "prefix x \<noteq> []" "hd (prefix x) = c" "isLeaf x \<or> children_list (children x) \<noteq> []" "wf_node (cur @ prefix n) x"
  shows "wf_node cur (RadixNode (nodeType n) (prefix n) (addChild (children n) c x) (isLeaf n) (entries n))"
proof -
  let ?ch = "children n" and ?d = "addChild (children n) c x"
  have w: "wf_children ?ch" using wf by (simp add: wf_node_unfold [of _ n])
  then have k: "c \<notin> set (keys_list ?ch)" using c by (simp add: nc.find_None)
  have w': "wf_children ?d" using w k by (rule nc.add_invar)
  have "keys_list ?ch = map (hd \<circ> prefix) (children_list ?ch)" using wf by (simp add: wf_node_unfold [of _ n])
  then have old: "\<forall>(k, y) \<in> set (zip (keys_list ?ch) (children_list ?ch)). k = (hd \<circ> prefix) y"
    using zip_map_iff [OF nc.len_keys [OF w]] by blast
  have "set (zip (keys_list ?d) (children_list ?d)) = insert (c, x) (set (zip (keys_list ?ch) (children_list ?ch)))"
    using arg_cong [OF nc.add_mset_keys [OF w k, of x], of set_mset] by simp
  with old x(2) have "\<forall>(k, y) \<in> set (zip (keys_list ?d) (children_list ?d)). k = (hd \<circ> prefix) y" by auto
  then have "keys_list ?d = map (hd \<circ> prefix) (children_list ?d)"
    using zip_map_iff [OF nc.len_keys [OF w']] by blast
  moreover have "set (children_list ?d) = insert x (set (children_list ?ch))"
    using arg_cong [OF nc.add_mset_kids [OF w k, of x], of set_mset] by simp
  ultimately show ?thesis using wf w' x by (simp add: wf_node_unfold [of _ n])
qed

lemma wf_node_set:
  assumes wf: "wf_node cur n" and i: "i < length (children_list (children n))"
    and x: "prefix x \<noteq> []" "hd (prefix x) = keys_list (children n) ! i"
      "isLeaf x \<or> children_list (children x) \<noteq> []" "wf_node (cur @ prefix n) x"
  shows "wf_node cur (RadixNode (nodeType n) (prefix n) (setChild (children n) (keys_list (children n) ! i) x) (isLeaf n) (entries n))"
proof -
  have w: "wf_children (children n)" and keys: "keys_list (children n) = map (hd \<circ> prefix) (children_list (children n))"
    using wf by (simp_all add: wf_node_unfold [of _ n])
  note s = nc.set_nth [OF w i refl, of x]
  have "map (hd \<circ> prefix) ((children_list (children n))[i := x]) = keys_list (children n)"
    using x(2) i by (simp add: map_update list_update_same_conv keys)
  with s wf x show ?thesis
    by (auto simp: wf_node_unfold [of _ n] dest: set_update_subset_insert [THEN subsetD])
qed

theorem add_node_correct:
  assumes "wf_node cur n" and "live n" and "ID entry = cur @ sid"
  shows "wf_node cur (add_node n sid entry) \<and>
    (isLeaf (add_node n sid entry) \<or> children_list (children (add_node n sid entry)) \<noteq> []) \<and>
    mset (items cur (add_node n sid entry)) = add_mset (cur @ sid, entry) (mset (items cur n)) \<and>
    set (leaf_ids cur (add_node n sid entry)) = insert (cur @ sid) (set (leaf_ids cur n))"
  using assms
proof (induction n sid entry arbitrary: cur rule: add_node.induct)
  case (1 n sid entry)
  note wf = 1(3) and live = 1(4) and ident = 1(5)
  show ?case
  proof (cases "commonPrefixLength (prefix n) sid = length (prefix n)")
    case False
    note s = add_node_split [OF False]
    have "wf_node cur (split_node n (commonPrefixLength (prefix n) sid))"
      using s(1) wf liveD [OF live s(1)] by (rule split_wf)
    from 1(2) [OF refl False this live_split [OF s(1)] ident] show ?thesis
      by (simp only: s(2) split_items [OF s(1)])
  next
    case True
    from wf have w: "wf_children (children n)" by (simp add: wf_node_unfold [of _ n])
    from True show ?thesis
    proof (cases rule: add_node_cases [where entry = entry])
      case Leaf
      with wf ident show ?thesis
        by (auto simp: wf_node_unfold [of _ n] items_unfold [of _ n])
    next
      case (New c s')
      let ?x = "RadixNode Node4Type (c # s') empty_Node4 True [entry]"
      have k: "c \<notin> set (keys_list (children n))" using w New(2) by (simp add: nc.find_None)
      note m = nc.add_mset_kids [OF w k, of ?x]
      have "wf_node cur (add_node n sid entry)"
        unfolding New(3) using ident New(1) by (intro wf_node_new [OF wf New(2)]) simp_all
      moreover have "set (children_list (addChild (children n) c ?x)) = insert ?x (set (children_list (children n)))"
        using arg_cong [OF m, of set_mset] by simp
      moreover have "mset (concat (map (items (cur @ prefix n)) (children_list (addChild (children n) c ?x))))
          = mset (concat (map (items (cur @ prefix n)) (?x # children_list (children n))))"
        by (rule mset_concat_cong) (simp add: m)
      ultimately show ?thesis
        unfolding New(3) using New(1) by (auto simp: items_unfold [of _ n])
    next
      case (Child c s' child)
      from w Child(2) obtain i where i: "i < length (children_list (children n))"
        "keys_list (children n) ! i = c" "children_list (children n) ! i = child"
        by (rule nc.find_SomeE)
      then have mem: "child \<in> set (children_list (children n))" by auto
      with wf have child: "prefix child \<noteq> []" "live child" "wf_node (cur @ prefix n) child"
        by (simp_all add: wf_node_unfold [of _ n] live_def)
      have c: "hd (prefix child) = c"
        using wf i by (simp add: wf_node_unfold [of _ n])
      have d: "drop (commonPrefixLength (prefix n) sid) sid = c # s'" using True Child(1) by simp
      let ?x = "add_node child (c # s') entry"
      have IH: "wf_node (cur @ prefix n) ?x" "isLeaf ?x \<or> children_list (children ?x) \<noteq> []"
        "mset (items (cur @ prefix n) ?x) = add_mset (cur @ sid, entry) (mset (items (cur @ prefix n) child))"
        "set (leaf_ids (cur @ prefix n) ?x) = insert (cur @ sid) (set (leaf_ids (cur @ prefix n) child))"
        using 1(1) [OF refl True d Child(2) child(3) child(2)] ident Child(1) by simp_all
      have p: "prefix ?x \<noteq> [] \<and> hd (prefix ?x) = c"
        unfolding add_node_prefix by (rule commonPrefixLength_Cons [OF child(1) c])
      have "wf_node cur (add_node n sid entry)"
        unfolding Child(3) using wf_node_set [OF wf i(1), of ?x] p IH(1,2) i(2) by simp
      moreover have k: "children_list (setChild (children n) c ?x) = (children_list (children n))[i := ?x]"
        using nc.set_nth [OF w i(1,2)] by blast
      moreover have "mset (concat (map (items (cur @ prefix n)) ((children_list (children n))[i := ?x])))
          = add_mset (cur @ sid, entry) (mset (concat (map (items (cur @ prefix n)) (children_list (children n)))))"
        using mset_concat_update [OF i(1), of "items (cur @ prefix n)" ?x] IH(3) i(3) by simp
      moreover have "(\<Union>x \<in> set ((children_list (children n))[i := ?x]). set (leaf_ids (cur @ prefix n) x))
          = insert (cur @ sid) (\<Union>x \<in> set (children_list (children n)). set (leaf_ids (cur @ prefix n) x))"
        using i(1) IH(4) i(3) by (intro UN_set_update) simp_all
      ultimately show ?thesis
        unfolding Child(3) using i(1) by (auto simp: items_unfold [of _ n])
    qed
  qed
qed

subsection \<open>Insertion at the end\<close>

lemma le_append_iff [simp]: "(xs @ ys \<le> xs @ zs) \<longleftrightarrow> ys \<le> (zs :: 'a :: linorder list)"
  by (induction xs) auto

lemma less_append_iff [simp]: "(xs @ ys < xs @ zs) \<longleftrightarrow> ys < (zs :: 'a :: linorder list)"
  by (induction xs) auto

lemma leaf_ids_below: "x \<in> set (leaf_ids cur n) \<Longrightarrow> \<exists>s. x = cur @ prefix n @ s"
proof (induction cur n rule: leaf_ids.induct)
  case (1 cur t pre ch leaf es)
  then show ?case by (fastforce split: if_splits)
qed

lemma leaf_ids_nonempty: "wf_node cur n \<Longrightarrow> isLeaf n \<or> children_list (children n) \<noteq> [] \<Longrightarrow> leaf_ids cur n \<noteq> []"
proof (induction cur n rule: leaf_ids.induct)
  case (1 cur t pre ch leaf es)
  show ?case
  proof (cases "children_list ch")
    case Nil
    with 1(3) show ?thesis by simp
  next
    case (Cons c cs)
    with 1(2) have "leaf_ids (cur @ pre) c \<noteq> []" by (intro 1(1)) simp_all
    with Cons show ?thesis by simp
  qed
qed

lemma child_leaf:
  assumes wf: "wf_node cur n" and x: "x \<in> set (children_list (children n))"
  shows "\<exists>t. cur @ prefix n @ prefix x @ t \<in> set (leaf_ids cur n)"
proof -
  from wf x have "wf_node (cur @ prefix n) x" "isLeaf x \<or> children_list (children x) \<noteq> []"
    unfolding wf_node_unfold [of _ n] by blast+
  then have "leaf_ids (cur @ prefix n) x \<noteq> []" by (rule leaf_ids_nonempty)
  then obtain y where y: "y \<in> set (leaf_ids (cur @ prefix n) x)" by (meson list.set_sel(1))
  moreover from this obtain t where "y = (cur @ prefix n) @ prefix x @ t" using leaf_ids_below by metis
  ultimately have "cur @ prefix n @ prefix x @ t \<in> set (leaf_ids (cur @ prefix n) x)" by simp
  with x show ?thesis by (auto simp: items_unfold(2) [of _ n])
qed

text \<open>If no leaf lies beyond \<open>cur @ sid\<close>, no key at the node lies beyond the next byte.\<close>

lemma keys_below:
  assumes wf: "wf_node cur n" and le: "\<forall>x \<in> set (leaf_ids cur n). x \<le> cur @ prefix n @ c # s"
    and k: "k \<in> set (keys_list (children n))"
  shows "k \<le> c"
proof -
  from wf k obtain x where x: "x \<in> set (children_list (children n))" "k = hd (prefix x)"
    by (auto simp: wf_node_unfold [of _ n])
  from wf x(1) have "prefix x \<noteq> []" unfolding wf_node_unfold [of _ n] by blast
  from child_leaf [OF wf x(1)] obtain t where "cur @ prefix n @ prefix x @ t \<in> set (leaf_ids cur n)" ..
  with le have "cur @ prefix n @ prefix x @ t \<le> cur @ prefix n @ c # s" by blast
  then have "prefix x @ t \<le> c # s" by simp
  with x(2) \<open>prefix x \<noteq> []\<close> show ?thesis by (cases "prefix x") auto
qed

lemma sorted_last_key:
  assumes "sorted_wrt (<) ks" and "\<forall>k \<in> set ks. k \<le> ks ! i" and "i < length ks"
  shows "Suc i = length (ks :: 'a :: linorder list)"
proof (rule ccontr)
  assume "Suc i \<noteq> length ks"
  with assms(3) have "Suc i < length ks" by simp
  with assms(1) have "ks ! i < ks ! Suc i" by (simp add: sorted_wrt_nth_less)
  with assms(2) \<open>Suc i < length ks\<close> show False by (meson nth_mem not_le)
qed

theorem add_node_last:
  assumes "wf_node cur n" and "live n" and "ID entry = cur @ sid"
    and "ordered n" and "\<forall>x \<in> set (leaf_ids cur n). x \<le> cur @ sid"
  shows "ordered (add_node n sid entry) \<and> items cur (add_node n sid entry) = items cur n @ [(cur @ sid, entry)]"
  using assms
proof (induction n sid entry arbitrary: cur rule: add_node.induct)
  case (1 n sid entry)
  note wf = 1(3) and live = 1(4) and ident = 1(5) and ord = 1(6) and le = 1(7)
  show ?case
  proof (cases "commonPrefixLength (prefix n) sid = length (prefix n)")
    case False
    note s = add_node_split [OF False]
    have "wf_node cur (split_node n (commonPrefixLength (prefix n) sid))"
      using s(1) wf liveD [OF live s(1)] by (rule split_wf)
    from 1(2) [OF refl False this live_split [OF s(1)] ident split_ordered [OF s(1) ord]] le show ?thesis
      by (simp only: s(2) split_items [OF s(1)])
  next
    case True
    from wf have w: "wf_children (children n)" by (simp add: wf_node_unfold [of _ n])
    from True show ?thesis
    proof (cases rule: add_node_cases [where entry = entry])
      case Leaf
      have "children_list (children n) = []"
      proof (rule ccontr)
        assume "children_list (children n) \<noteq> []"
        then obtain x where x: "x \<in> set (children_list (children n))" by (meson list.set_sel(1))
        with wf have "prefix x \<noteq> []" unfolding wf_node_unfold [of _ n] by blast
        from child_leaf [OF wf x] obtain t where "cur @ prefix n @ prefix x @ t \<in> set (leaf_ids cur n)" ..
        with le Leaf(1) have "(cur @ prefix n) @ prefix x @ t \<le> (cur @ prefix n) @ []" by auto
        then have "prefix x @ t \<le> []" by (simp only: le_append_iff)
        with \<open>prefix x \<noteq> []\<close> show False by simp
      qed
      with Leaf ord wf show ?thesis
        by (auto simp: items_unfold(1) [of _ n] ordered_unfold [of n] wf_node_unfold [of _ n])
    next
      case (New c s')
      let ?x = "RadixNode Node4Type (c # s') empty_Node4 True [entry]"
      have k: "c \<notin> set (keys_list (children n))" using w New(2) by (simp add: nc.find_None)
      have "k < c" if "k \<in> set (keys_list (children n))" for k
      proof -
        have "k \<le> c" by (rule keys_below [OF wf _ that, of c s']) (use le New(1) in simp)
        moreover have "k \<noteq> c" using that k by metis
        ultimately show ?thesis by simp
      qed
      then have "sorted_wrt (<) (keys_list (children n) @ [c])"
        using ord by (simp add: ordered_unfold [of n] sorted_wrt_append)
      from nc.add_last [OF w this, of ?x] this ord show ?thesis
        unfolding New(3) using New(1) by (simp add: items_unfold(1) [of _ n] ordered_unfold [of n])
    next
      case (Child c s' child)
      from w Child(2) obtain i where i: "i < length (children_list (children n))"
        "keys_list (children n) ! i = c" "children_list (children n) ! i = child"
        by (rule nc.find_SomeE)
      then have mem: "child \<in> set (children_list (children n))" by auto
      with wf have child: "prefix child \<noteq> []" "live child" "wf_node (cur @ prefix n) child"
        by (simp_all add: wf_node_unfold [of _ n] live_def)
      have d: "drop (commonPrefixLength (prefix n) sid) sid = c # s'" using True Child(1) by simp
      let ?x = "add_node child (c # s') entry"
      have le': "\<forall>x \<in> set (leaf_ids (cur @ prefix n) child). x \<le> (cur @ prefix n) @ c # s'"
        using le mem Child(1) by (auto simp: items_unfold(2) [of _ n])
      have IH: "ordered ?x" "items (cur @ prefix n) ?x = items (cur @ prefix n) child @ [(cur @ sid, entry)]"
        using 1(1) [OF refl True d Child(2) child(3) child(2) _ _ le'] ident ord mem Child(1)
        by (simp_all add: ordered_unfold [of n])
      have last: "Suc i = length (children_list (children n))"
        using sorted_last_key [of "keys_list (children n)" i] keys_below [OF wf, of c s'] i ord le Child(1)
        by (simp add: ordered_unfold [of n] nc.len_keys [OF w])
      define cs where "cs = children_list (children n)"
      have split: "cs = take i cs @ [child]" and upd: "cs[i := ?x] = take i cs @ [?x]"
        using last i id_take_nth_drop [of i cs] by (simp_all add: cs_def upd_conv_take_nth_drop)
      have "concat (map (items (cur @ prefix n)) (cs[i := ?x]))
          = concat (map (items (cur @ prefix n)) cs) @ [(cur @ sid, entry)]"
        unfolding upd by (subst (2) split) (simp add: IH(2))
      moreover have "\<forall>x \<in> set (cs[i := ?x]). ordered x"
        using ord IH(1) by (auto simp: cs_def ordered_unfold [of n] dest: set_update_subset_insert [THEN subsetD])
      ultimately show ?thesis
        unfolding Child(3) using nc.set_nth [OF w i(1,2), of ?x] ord
        by (simp add: items_unfold(1) [of _ n] ordered_unfold [of n] cs_def)
    qed
  qed
qed

end
