(* ===== verification/Radix_Ops.thy ===== *)
theory Radix_Ops
  imports Radix_Tree
begin

text \<open>
  The operations of \<open>RadixTree\<close> (\<open>pkg/keyval/radix_tree.go\<close>) on top of the node walk of
  \<open>Radix_Tree\<close>: \<open>AddEntry\<close>, \<open>Range\<close>, the ID functions and the two trims. The lemmas give
  the tree's invariant, what \<open>Range\<close> returns as a filter of the entries the tree holds, and
  what the trims remove.
\<close>

section \<open>AddEntry\<close>

definition updateLastID :: "radix_tree \<Rightarrow> string \<Rightarrow> radix_tree" where
  "updateLastID t sid =
     (if LastID t < sid then
        (let t = t\<lparr>LastID := sid\<rparr>; parts = Split sid (CHR ''-'') in
         if length parts = 2 then
           (case ParseInt (parts ! 0) of
              Inl _ \<Rightarrow> t
            | Inr timestamp \<Rightarrow> t\<lparr>lastTimestamp := timestamp, sequence := ParseInt_value (parts ! 1)\<rparr>)
         else t)
      else t)"

definition AddEntry :: "radix_tree \<Rightarrow> string \<Rightarrow> string list list \<Rightarrow> radix_tree" where
  "AddEntry t originalID flds =
     (let entry = \<lparr>ID = originalID, Fields = flds\<rparr>;
          t = t\<lparr>root := add_node (root t) originalID entry, tree_size := tree_size t + 1\<rparr>
      in updateLastID t originalID)"

section \<open>Range\<close>

text \<open>The conditions of \<open>Range\<close>: \<open>bytes.Compare\<close> and string comparison are the same order.\<close>

definition start_ok :: "bool \<Rightarrow> string \<Rightarrow> string \<Rightarrow> bool" where
  "start_ok inclusive startID x = (if inclusive then startID \<le> x else startID < x)"

definition end_ok :: "bool \<Rightarrow> string \<Rightarrow> string \<Rightarrow> bool" where
  "end_ok inclusive endID x = (if inclusive then x \<le> endID else x < endID)"

text \<open>The loop over the entries of a leaf; the flag says that it returned because \<open>count\<close>
  entries have been found. A count of 0 means no limit.\<close>

fun scan_entries :: "(string \<Rightarrow> bool) \<Rightarrow> nat \<Rightarrow> stream_entry list \<Rightarrow> stream_entry list \<Rightarrow> stream_entry list \<times> bool" where
  "scan_entries ok cnt [] result = (result, False)"
| "scan_entries ok cnt (e # es) result =
     (if ok (ID e) then
        (let result' = result @ [e] in
         if 0 < cnt \<and> cnt \<le> length result' then (result', True)
         else scan_entries ok cnt es result')
      else scan_entries ok cnt es result)"

fun range_traverse :: "(string \<Rightarrow> bool) \<Rightarrow> nat \<Rightarrow> radix_node \<Rightarrow> string \<Rightarrow> stream_entry list \<Rightarrow> stream_entry list" where
  "range_traverse ok cnt (RadixNode t pre ch leaf es) cur result =
     (if 0 < cnt \<and> cnt \<le> length result then result
      else
        (let currentID = cur @ pre;
             (result, returned) = (if ok currentID \<and> leaf then scan_entries ok cnt es result else (result, False))
         in if returned then result
            else foldl (\<lambda>res child. range_traverse ok cnt child currentID res) result (children_list ch)))"

definition Range :: "radix_tree \<Rightarrow> string \<Rightarrow> string \<Rightarrow> 64 word \<Rightarrow> stream_entry list" where
  "Range t startID endID cnt =
     (let (startID, inclusiveStart) = (if HasPrefix startID ''('' then (drop 1 startID, False) else (startID, True));
          (endID, inclusiveEnd) = (if HasPrefix endID ''('' then (drop 1 endID, False) else (endID, True));
          startID = (if startID = ''-'' then [] else startID);
          endID = (if endID = ''+'' then [CHR 0xFF] else endID);
          ok = (\<lambda>x. start_ok inclusiveStart startID x \<and> end_ok inclusiveEnd endID x);
          result = range_traverse ok (unat cnt) (root t) [] []
      in if 0 < cnt \<and> unat cnt < length result then take (unat cnt) result else result)"

section \<open>IDs\<close>

definition format_id :: "int \<Rightarrow> int \<Rightarrow> string" where
  "format_id timestamp sq = FormatInt timestamp @ ''-'' @ FormatInt sq"

definition GenerateID :: "go_env \<Rightarrow> radix_tree \<Rightarrow> string \<times> radix_tree" where
  "GenerateID env t =
     (let currentTime = now_ms env;
          t = (if currentTime \<le> lastTimestamp t then t\<lparr>sequence := wrap_i64 (sequence t + 1)\<rparr>
               else t\<lparr>lastTimestamp := currentTime, sequence := 0\<rparr>)
      in (format_id (lastTimestamp t) (sequence t), t))"

definition err_invalid_id :: string where
  "err_invalid_id = ''ERR Invalid stream ID''"

definition GenerateIncompleteID :: "radix_tree \<Rightarrow> string \<Rightarrow> (string + string) \<times> radix_tree" where
  "GenerateIncompleteID t incompleteID =
     (let parts = Split incompleteID (CHR ''-'') in
      if length parts \<noteq> 2 \<or> parts ! 1 \<noteq> ''*'' then (Inl err_invalid_id, t)
      else (case ParseInt (parts ! 0) of
          Inl _ \<Rightarrow> (Inl err_invalid_id, t)
        | Inr timestamp \<Rightarrow>
            if timestamp < 0 then (Inl err_invalid_id, t)
            else
              (let timestamp = (if timestamp < lastTimestamp t then lastTimestamp t else timestamp);
                   t = (if timestamp = lastTimestamp t then t\<lparr>sequence := wrap_i64 (sequence t + 1)\<rparr>
                        else t\<lparr>lastTimestamp := timestamp, sequence := 0\<rparr>)
               in (Inr (format_id (lastTimestamp t) (sequence t)), t))))"

definition IsLargestID :: "radix_tree \<Rightarrow> string \<Rightarrow> bool" where
  "IsLargestID t sid = (if LastID t = [] then True else LastID t < sid)"

definition ValidateID :: "string \<Rightarrow> bool \<times> string" where
  "ValidateID sid =
     (if sid = ''+'' \<or> sid = ''-'' then (True, sid)
      else
        (let parts = Split sid (CHR ''-'') in
         if 2 < length parts then (False, [])
         else (case ParseInt (parts ! 0) of
             Inl _ \<Rightarrow> (False, [])
           | Inr timestamp \<Rightarrow>
               if timestamp < 0 then (False, [])
               else if length parts = 2 then
                 (case ParseInt (parts ! 1) of
                    Inl _ \<Rightarrow> (False, [])
                  | Inr sq \<Rightarrow> if sq < 0 then (False, []) else (True, sid))
               else (True, sid @ ''-0''))))"

section \<open>Trimming\<close>

text \<open>The state the trims thread through the traversal: \<open>t.size\<close> and \<open>trimmed\<close>.\<close>

type_synonym trim_state = "int \<times> int"

fun trim_front :: "int \<Rightarrow> stream_entry list \<Rightarrow> trim_state \<Rightarrow> stream_entry list \<times> trim_state" where
  "trim_front maxSize [] st = ([], st)"
| "trim_front maxSize (e # es) (sz, trimmed) =
     (if maxSize < sz then trim_front maxSize es (sz - 1, trimmed + 1) else (e # es, (sz, trimmed)))"

text \<open>A traversal over the children that a callback may stop: the children visited are
  written back, the others are kept.\<close>

fun trim_size_node :: "int \<Rightarrow> radix_node \<Rightarrow> trim_state \<Rightarrow> radix_node \<times> trim_state \<times> bool" where
  "trim_size_node maxSize (RadixNode t pre ch leaf es) st =
     (if leaf then
        (let (es', st') = trim_front maxSize es st
         in (RadixNode t pre ch leaf es', st', fst st' \<le> maxSize))
      else
        (let (cs, st', stop) =
               foldl (\<lambda>acc c. case acc of (cs, st, stop) \<Rightarrow>
                   if stop then (cs @ [c], st, stop)
                   else (let (c', st', stop') = trim_size_node maxSize c st in (cs @ [c'], st', stop')))
                 ([], st, False) (children_list ch)
         in (RadixNode t pre (setChildren ch cs) leaf es, st', stop)))"

definition TrimBySize :: "radix_tree \<Rightarrow> int \<Rightarrow> int \<times> radix_tree" where
  "TrimBySize t maxSize =
     (if tree_size t \<le> maxSize then (0, t)
      else
        (let (r, (sz, trimmed), stop) = trim_size_node maxSize (root t) (tree_size t, 0)
         in (trimmed, t\<lparr>root := r, tree_size := sz\<rparr>)))"

text \<open>The loop of \<open>TrimByMinID\<close> over a leaf: the entries before the first one that is not
  below \<open>minID\<close> go; the flag says that there is such an entry.\<close>

definition trim_min :: "string \<Rightarrow> stream_entry list \<Rightarrow> trim_state \<Rightarrow> stream_entry list \<times> trim_state \<times> bool" where
  "trim_min minID es st =
     (let i = length (takeWhile (\<lambda>e. \<not> minID \<le> ID e) es); (sz, trimmed) = st in
      if i < length es then (drop i es, (sz - int i, trimmed + int i), True)
      else ([], (sz - int (length es), trimmed + int (length es)), False))"

fun trim_min_node :: "string \<Rightarrow> radix_node \<Rightarrow> trim_state \<Rightarrow> radix_node \<times> trim_state \<times> bool" where
  "trim_min_node minID (RadixNode t pre ch leaf es) st =
     (if leaf then
        (let (es', st', stop) = trim_min minID es st in (RadixNode t pre ch leaf es', st', stop))
      else
        (let (cs, st', stop) =
               foldl (\<lambda>acc c. case acc of (cs, st, stop) \<Rightarrow>
                   if stop then (cs @ [c], st, stop)
                   else (let (c', st', stop') = trim_min_node minID c st in (cs @ [c'], st', stop')))
                 ([], st, False) (children_list ch)
         in (RadixNode t pre (setChildren ch cs) leaf es, st', stop)))"

definition TrimByMinID :: "radix_tree \<Rightarrow> string \<Rightarrow> int \<times> radix_tree" where
  "TrimByMinID t minID =
     (let (r, (sz, trimmed), stop) = trim_min_node minID (root t) (tree_size t, 0)
      in (trimmed, t\<lparr>root := r, tree_size := sz\<rparr>))"

section \<open>The invariant of a tree\<close>

definition tree_items :: "radix_tree \<Rightarrow> (string \<times> stream_entry) list" where
  "tree_items t = items [] (root t)"

definition tree_entries :: "radix_tree \<Rightarrow> stream_entry list" where
  "tree_entries t = map snd (tree_items t)"

definition wf_tree :: "radix_tree \<Rightarrow> bool" where
  "wf_tree t \<longleftrightarrow> wf_node [] (root t) \<and> prefix (root t) = [] \<and> tree_size t = int (length (tree_items t))"

lemma wf_tree_new: "wf_tree NewRadixTree"
  by (simp add: wf_tree_def NewRadixTree_def NewRadixNode_def tree_items_def)

lemma tree_items_new: "tree_items NewRadixTree = []"
  by (simp add: NewRadixTree_def NewRadixNode_def tree_items_def)

lemma updateLastID_frame [simp]:
  "root (updateLastID t sid) = root t" "tree_size (updateLastID t sid) = tree_size t"
  "LastID (updateLastID t sid) = max (LastID t) sid"
  by (auto simp: updateLastID_def Let_def split: sum.splits)

lemma AddEntry_root [simp]:
  "root (AddEntry t sid flds) = add_node (root t) sid \<lparr>ID = sid, Fields = flds\<rparr>"
  "tree_size (AddEntry t sid flds) = tree_size t + 1"
  "LastID (AddEntry t sid flds) = max (LastID t) sid"
  by (simp_all add: AddEntry_def Let_def)

lemma tree_add_node:
  assumes "wf_tree t"
  shows "wf_node [] (add_node (root t) sid \<lparr>ID = sid, Fields = flds\<rparr>)"
    and "prefix (add_node (root t) sid \<lparr>ID = sid, Fields = flds\<rparr>) = []"
    and "mset (items [] (add_node (root t) sid \<lparr>ID = sid, Fields = flds\<rparr>))
      = add_mset (sid, \<lparr>ID = sid, Fields = flds\<rparr>) (mset (items [] (root t)))"
  using assms add_node_correct [of "[]" "root t" "\<lparr>ID = sid, Fields = flds\<rparr>" sid]
  by (simp_all add: wf_tree_def live_def add_node_prefix)

lemma wf_AddEntry [wf_intros]:
  assumes "wf_tree t"
  shows "wf_tree (AddEntry t sid flds)"
proof -
  have "length (items [] (add_node (root t) sid \<lparr>ID = sid, Fields = flds\<rparr>)) = Suc (length (items [] (root t)))"
    using arg_cong [OF tree_add_node(3) [OF assms, of sid flds], of size] by simp
  with tree_add_node(1,2) [OF assms, of sid flds] assms show ?thesis
    by (simp add: wf_tree_def tree_items_def)
qed

section \<open>What Range returns\<close>

definition limit :: "nat \<Rightarrow> 'a list \<Rightarrow> 'a list" where
  "limit cnt xs = (if cnt = 0 then xs else take cnt xs)"

lemma limit_append [simp]: "limit cnt (limit cnt xs @ ys) = limit cnt (xs @ ys)"
  by (simp add: limit_def min_def)

lemma limit_id [simp]: "cnt = 0 \<or> length xs \<le> cnt \<Longrightarrow> limit cnt xs = xs"
  by (auto simp: limit_def)

lemma limit_full: "0 < cnt \<Longrightarrow> cnt \<le> length xs \<Longrightarrow> limit cnt (xs @ ys) = limit cnt xs"
  by (simp add: limit_def)

lemma length_limit: "cnt = 0 \<or> length (limit cnt xs) \<le> cnt"
  by (simp add: limit_def)

lemma scan_entries_limit:
  "cnt = 0 \<or> length result < cnt \<Longrightarrow>
   scan_entries ok cnt es result =
     (limit cnt (result @ filter (\<lambda>e. ok (ID e)) es), 0 < cnt \<and> cnt \<le> length (result @ filter (\<lambda>e. ok (ID e)) es))"
proof (induction ok cnt es result rule: scan_entries.induct)
  case (1 ok cnt result)
  then show ?case by auto
next
  case (2 ok cnt e es result)
  then show ?case by (auto simp: limit_def Let_def take_Cons' Suc_diff_le)
qed

lemma foldl_limit:
  assumes "\<And>c r. c \<in> set cs \<Longrightarrow> cnt = 0 \<or> length r \<le> cnt \<Longrightarrow> f r c = limit cnt (r @ F c)"
    and "cnt = 0 \<or> length r \<le> cnt"
  shows "foldl f r cs = limit cnt (r @ concat (map F cs))"
  using assms
proof (induction cs arbitrary: r)
  case Nil
  then show ?case by simp
next
  case (Cons c cs)
  have "foldl f (limit cnt (r @ F c)) cs = limit cnt (limit cnt (r @ F c) @ concat (map F cs))"
    using Cons.prems(1) length_limit by (intro Cons.IH) auto
  with Cons.prems show ?case by simp
qed

lemma range_traverse_items:
  "wf_node cur n \<Longrightarrow> cnt = 0 \<or> length result \<le> cnt \<Longrightarrow>
   range_traverse ok cnt n cur result = limit cnt (result @ map snd (filter (\<lambda>x. ok (fst x)) (items cur n)))"
proof (induction ok cnt n cur result rule: range_traverse.induct)
  case (1 ok cnt t pre ch leaf es cur result)
  show ?case
  proof (cases "0 < cnt \<and> cnt \<le> length result")
    case True
    then show ?thesis using "1.prems"(2) by (auto simp: limit_full)
  next
    case False
    define own where "own = (if leaf then filter (\<lambda>e. ok (ID e)) es else [])"
    define F where "F = (\<lambda>c. map snd (filter (\<lambda>x. ok (fst x)) (items (cur @ pre) c)))"
    define scan where "scan = (if ok (cur @ pre) \<and> leaf then scan_entries ok cnt es result else (result, False))"
    have ids: "\<forall>e \<in> set es. ID e = cur @ pre" using "1.prems"(1) by simp
    have scan: "scan = (limit cnt (result @ own), 0 < cnt \<and> cnt \<le> length (result @ own))"
    proof (cases "ok (cur @ pre) \<and> leaf")
      case True
      with False show ?thesis by (auto simp: scan_def own_def scan_entries_limit)
    next
      case no: False
      with ids have "own = []" by (auto simp: own_def filter_empty_conv)
      with no False show ?thesis by (auto simp: scan_def)
    qed
    have own: "map snd (filter (\<lambda>x. ok (fst x)) (items cur (RadixNode t pre ch leaf es))) = own @ concat (map F (children_list ch))"
      using ids by (auto simp: own_def F_def filter_map filter_concat map_concat comp_def intro!: filter_cong)
    have kids: "foldl (\<lambda>res child. range_traverse ok cnt child (cur @ pre) res) r (children_list ch)
        = limit cnt (r @ concat (map F (children_list ch)))"
      if "snd scan = False" "cnt = 0 \<or> length r \<le> cnt" for r
    proof (rule foldl_limit [OF _ that(2)])
      fix c and r :: "stream_entry list"
      assume c: "c \<in> set (children_list ch)" and r: "cnt = 0 \<or> length r \<le> cnt"
      have sc: "(fst scan, False) = scan" using that(1) by (metis prod.collapse)
      have "wf_node (cur @ pre) c" using "1.prems"(1) c by simp
      from "1.IH" [OF False refl scan_def sc _ c this r]
      show "range_traverse ok cnt c (cur @ pre) r = limit cnt (r @ F c)"
        by (simp add: F_def)
    qed
    show ?thesis
    proof (cases "snd scan")
      case True
      then have "range_traverse ok cnt (RadixNode t pre ch leaf es) cur result = fst scan"
        unfolding range_traverse.simps if_not_P [OF False] Let_def scan_def [symmetric]
        by (simp add: split_beta)
      moreover from True have "0 < cnt" "cnt \<le> length (result @ own)" by (simp_all add: scan)
      ultimately show ?thesis
        unfolding own scan using limit_full [of cnt "result @ own"] by simp
    next
      case no: False
      then have "range_traverse ok cnt (RadixNode t pre ch leaf es) cur result
          = foldl (\<lambda>res child. range_traverse ok cnt child (cur @ pre) res) (fst scan) (children_list ch)"
        unfolding range_traverse.simps if_not_P [OF False] Let_def scan_def [symmetric]
        by (simp add: split_beta)
      also have "\<dots> = limit cnt (fst scan @ concat (map F (children_list ch)))"
        using no length_limit by (intro kids) (auto simp: scan)
      finally show ?thesis unfolding own scan by simp
    qed
  qed
qed

text \<open>The bounds of \<open>Range\<close> as conditions on an ID: \<open>-\<close> is no lower bound, \<open>+\<close> is the byte
  \<open>0xFF\<close>, and a leading \<open>(\<close> makes a bound exclusive.\<close>

fun lower_bound :: "string \<Rightarrow> string \<Rightarrow> bool" where
  "lower_bound [] x = True"
| "lower_bound (c # s) x =
     (if c = CHR ''('' then (if s = ''-'' then [] < x else s < x)
      else c # s = ''-'' \<or> c # s \<le> x)"

fun upper_bound :: "string \<Rightarrow> string \<Rightarrow> bool" where
  "upper_bound [] x = (x = [])"
| "upper_bound (c # s) x =
     (if c = CHR ''('' then (if s = ''+'' then x < [CHR 0xFF] else x < s)
      else if c # s = ''+'' then x \<le> [CHR 0xFF] else x \<le> c # s)"

lemma items_ID: "wf_node cur n \<Longrightarrow> (p, e) \<in> set (items cur n) \<Longrightarrow> ID e = p"
proof (induction cur n rule: items.induct)
  case (1 cur t pre ch leaf es)
  then show ?case by (auto split: if_splits)
qed

lemma Range_entries:
  assumes "wf_tree t"
  shows "Range t startID endID cnt = limit (unat cnt)
    (filter (\<lambda>e. lower_bound startID (ID e) \<and> upper_bound endID (ID e)) (tree_entries t))"
proof -
  have limit: "(if 0 < cnt \<and> unat cnt < length xs then take (unat cnt) xs else xs) = xs"
    if "xs = limit (unat cnt) ys" for xs ys :: "stream_entry list"
    using that by (auto simp: limit_def word_less_nat_alt)
  define s i where "s = (if HasPrefix startID ''('' then drop 1 startID else startID)"
    and "i = (\<not> HasPrefix startID ''('')"
  define e j where "e = (if HasPrefix endID ''('' then drop 1 endID else endID)"
    and "j = (\<not> HasPrefix endID ''('')"
  define ok where "ok = (\<lambda>x. start_ok i (if s = ''-'' then [] else s) x \<and> end_ok j (if e = ''+'' then [CHR 0xFF] else e) x)"
  have lower: "start_ok i (if s = ''-'' then [] else s) x = lower_bound startID x" for x
    by (cases startID) (auto simp: start_ok_def s_def i_def HasPrefix_def)
  have upper: "end_ok j (if e = ''+'' then [CHR 0xFF] else e) x = upper_bound endID x" for x
    by (cases endID) (auto simp: end_ok_def e_def j_def HasPrefix_def)
  have "range_traverse ok (unat cnt) (root t) [] [] =
      limit (unat cnt) ([] @ map snd (filter (\<lambda>x. ok (fst x)) (items [] (root t))))"
    using assms by (intro range_traverse_items) (auto simp: wf_tree_def)
  then have trav: "range_traverse ok (unat cnt) (root t) [] [] =
      limit (unat cnt) (map snd (filter (\<lambda>x. ok (fst x)) (items [] (root t))))" by simp
  have pairs: "(if HasPrefix startID ''('' then (drop 1 startID, False) else (startID, True)) = (s, i)"
    "(if HasPrefix endID ''('' then (drop 1 endID, False) else (endID, True)) = (e, j)"
    by (simp_all add: s_def i_def e_def j_def)
  have "Range t startID endID cnt = (let result = range_traverse ok (unat cnt) (root t) [] [] in
      if 0 < cnt \<and> unat cnt < length result then take (unat cnt) result else result)"
    unfolding Range_def pairs Let_def prod.case ok_def ..
  then have R: "Range t startID endID cnt = range_traverse ok (unat cnt) (root t) [] []"
    unfolding Let_def limit [OF trav] .
  have E: "map snd (filter (\<lambda>x. ok (fst x)) (items [] (root t))) = filter (\<lambda>e. ok (ID e)) (tree_entries t)"
    unfolding tree_entries_def tree_items_def filter_map comp_def
    using assms items_ID [of "[]" "root t"] by (intro arg_cong [of _ _ "map snd"] filter_cong) (auto simp: wf_tree_def)
  show ?thesis unfolding R trav E by (simp add: ok_def lower upper)
qed

section \<open>What the trims keep and remove\<close>

text \<open>The loop over the children, as a recursion.\<close>

fun visit :: "('c \<Rightarrow> 's \<Rightarrow> 'c \<times> 's \<times> bool) \<Rightarrow> 's \<Rightarrow> 'c list \<Rightarrow> 'c list \<times> 's \<times> bool" where
  "visit f st [] = ([], st, False)"
| "visit f st (c # cs) =
     (case f c st of (c', st', stop) \<Rightarrow>
        if stop then (c' # cs, st', True)
        else (case visit f st' cs of (cs', st'', stop') \<Rightarrow> (c' # cs', st'', stop')))"

lemma foldl_stopped:
  "foldl (\<lambda>acc c. case acc of (cs, st, stop) \<Rightarrow>
      if stop then (cs @ [c], st, stop) else (let (c', st', stop') = f c st in (cs @ [c'], st', stop')))
    (acc, st, True) cs = (acc @ cs, st, True)"
  by (induction cs arbitrary: acc) auto

lemma foldl_visit:
  "foldl (\<lambda>acc c. case acc of (cs, st, stop) \<Rightarrow>
      if stop then (cs @ [c], st, stop) else (let (c', st', stop') = f c st in (cs @ [c'], st', stop')))
    (acc, st, False) cs = (case visit f st cs of (cs', st', stop) \<Rightarrow> (acc @ cs', st', stop))"
proof (induction cs arbitrary: acc st)
  case (Cons c cs)
  obtain c' st' stop where f: "f c st = (c', st', stop)" by (rule prod_cases3)
  then show ?case
    using Cons.IH [of "acc @ [c']" st'] foldl_stopped [of f "acc @ [c']" st' cs]
    by (cases stop) (simp_all split: prod.splits)
qed simp

lemma length_visit: "visit f st cs = (cs', st', stop) \<Longrightarrow> length cs' = length cs"
  by (induction f st cs arbitrary: cs' st' stop rule: visit.induct) (auto split: prod.splits if_splits)

text \<open>A leaf that also has children holds an ID that is a proper prefix of others.\<close>

fun prefix_free :: "radix_node \<Rightarrow> bool" where
  "prefix_free (RadixNode t pre ch leaf es) \<longleftrightarrow>
     (leaf \<longrightarrow> children_list ch = []) \<and> (\<forall>c \<in> set (children_list ch). prefix_free c)"

lemma Ball_map_eq: "map P xs = map P ys \<Longrightarrow> (\<forall>x \<in> set xs. P x) = (\<forall>y \<in> set ys. P y)"
proof -
  assume "map P xs = map P ys"
  then have "set (map P xs) = set (map P ys)" by (rule arg_cong)
  moreover have "(\<forall>x \<in> set zs. P x) \<longleftrightarrow> False \<notin> set (map P zs)" for zs by auto
  ultimately show ?thesis by (simp only:)
qed

text \<open>What a trim does not change.\<close>

definition same_shape :: "string \<Rightarrow> radix_node \<Rightarrow> radix_node \<Rightarrow> bool" where
  "same_shape cur n n' \<longleftrightarrow> wf_node cur n' \<and> prefix n' = prefix n \<and> isLeaf n' = isLeaf n \<and>
     (children_list (children n') = [] \<longleftrightarrow> children_list (children n) = []) \<and>
     leaf_ids cur n' = leaf_ids cur n \<and> ordered n' = ordered n \<and> prefix_free n' = prefix_free n \<and>
     set (items cur n') \<subseteq> set (items cur n)"

lemma same_shape_refl: "wf_node cur n \<Longrightarrow> same_shape cur n n"
  by (simp add: same_shape_def)

text \<open>The contract the two trims share: a leaf loses entries from the front, both counters
  follow, and a node that is no leaf passes the state through its children.\<close>

locale leaf_trim =
  fixes trim_leaf :: "stream_entry list \<Rightarrow> trim_state \<Rightarrow> stream_entry list \<times> trim_state \<times> bool"
    and trim_node :: "radix_node \<Rightarrow> trim_state \<Rightarrow> radix_node \<times> trim_state \<times> bool"
    and going :: "trim_state \<Rightarrow> bool"
  assumes at_leaf: "trim_node (RadixNode t pre ch True es) st =
      (case trim_leaf es st of (es', st', stop) \<Rightarrow> (RadixNode t pre ch True es', st', stop))"
    and at_inner: "trim_node (RadixNode t pre ch False es) st =
      (case visit trim_node st (children_list ch) of (cs, st', stop) \<Rightarrow>
         (RadixNode t pre (setChildren ch cs) False es, st', stop))"
    and front: "trim_leaf es st = (es', st', stop) \<Longrightarrow>
      \<exists>i \<le> length es. es' = drop i es \<and> st' = (fst st - int i, snd st + int i)"
    and no_entries: "going st \<Longrightarrow> trim_leaf [] st = ([], st, False)"
    and in_parts: "trim_leaf (xs @ ys) st =
      (case trim_leaf xs st of (xs', st', stop) \<Rightarrow>
         if stop then (xs' @ ys, st', True)
         else (case trim_leaf ys st' of (ys', st'', stop') \<Rightarrow> (xs' @ ys', st'', stop')))"
    and goes_on: "going st \<Longrightarrow> trim_leaf xs st = (xs', st', False) \<Longrightarrow> going st'"
begin

text \<open>Trimming keeps the shape of the tree, and the counters follow the entries.\<close>

definition trimmed_to :: "string \<Rightarrow> radix_node \<Rightarrow> trim_state \<Rightarrow> radix_node \<Rightarrow> trim_state \<Rightarrow> bool" where
  "trimmed_to cur n st n' st' \<longleftrightarrow> same_shape cur n n' \<and>
     fst st' - int (length (items cur n')) = fst st - int (length (items cur n)) \<and> fst st' + snd st' = fst st + snd st"

lemma visit_trimmed:
  assumes "\<And>c st c' st' stop. c \<in> set cs \<Longrightarrow> trim_node c st = (c', st', stop) \<Longrightarrow> trimmed_to cur c st c' st'"
    and "\<And>c. c \<in> set cs \<Longrightarrow> wf_node cur c"
    and "visit trim_node st cs = (cs', st', stop)"
  shows "list_all2 (same_shape cur) cs cs' \<and>
    fst st' - int (length (concat (map (items cur) cs'))) = fst st - int (length (concat (map (items cur) cs))) \<and>
    fst st' + snd st' = fst st + snd st"
  using assms
proof (induction cs arbitrary: st cs' st' stop)
  case (Cons c cs)
  obtain c1 st1 stop1 where f: "trim_node c st = (c1, st1, stop1)" by (rule prod_cases3)
  have t: "trimmed_to cur c st c1 st1" using Cons.prems(1) [OF _ f] by simp
  show ?case
  proof (cases stop1)
    case True
    with f Cons.prems(2,3) t show ?thesis
      by (auto simp: trimmed_to_def list_all2_same intro!: same_shape_refl)
  next
    case False
    obtain cs2 st2 stop2 where v: "visit trim_node st1 cs = (cs2, st2, stop2)" by (rule prod_cases3)
    with False f Cons.prems(3) have r: "cs' = c1 # cs2" "st' = st2" by simp_all
    have "list_all2 (same_shape cur) cs cs2 \<and>
      fst st2 - int (length (concat (map (items cur) cs2))) = fst st1 - int (length (concat (map (items cur) cs))) \<and>
      fst st2 + snd st2 = fst st1 + snd st1"
      by (rule Cons.IH [OF _ _ v]) (use Cons.prems(1,2) in auto)
    with t show ?thesis unfolding r trimmed_to_def by simp
  qed
qed simp

lemma same_shape_node:
  assumes wf: "wf_node cur n" and inner: "\<not> isLeaf n"
    and cs: "list_all2 (same_shape (cur @ prefix n)) (children_list (children n)) cs"
  shows "same_shape cur n (RadixNode (nodeType n) (prefix n) (setChildren (children n) cs) False (entries n))"
    and "children_list (setChildren (children n) cs) = cs"
proof -
  have w: "wf_children (children n)" and keys: "keys_list (children n) = map (hd \<circ> prefix) (children_list (children n))"
    using wf by (simp_all add: wf_node_unfold [of _ n])
  have len: "length cs = length (children_list (children n))" using cs by (simp add: list_all2_lengthD)
  have d: "wf_children (setChildren (children n) cs)" "keys_list (setChildren (children n) cs) = keys_list (children n)"
    "children_list (setChildren (children n) cs) = cs"
    using nc.fold_set_at [OF w, of cs] len by (simp_all add: setChildren_def Let_def)
  then show "children_list (setChildren (children n) cs) = cs" by simp
  have nth: "same_shape (cur @ prefix n) (children_list (children n) ! i) (cs ! i)" if "i < length cs" for i
    using cs that by (simp add: list_all2_conv_all_nth)
  have maps: "map (hd \<circ> prefix) cs = map (hd \<circ> prefix) (children_list (children n))"
    "map (leaf_ids (cur @ prefix n)) cs = map (leaf_ids (cur @ prefix n)) (children_list (children n))"
    "map ordered cs = map ordered (children_list (children n))"
    "map prefix_free cs = map prefix_free (children_list (children n))"
    using nth len by (auto intro!: nth_equalityI simp: same_shape_def)
  have kids: "prefix c \<noteq> [] \<and> (isLeaf c \<or> children_list (children c) \<noteq> []) \<and> wf_node (cur @ prefix n) c"
    if "c \<in> set cs" for c
  proof -
    from that obtain i where i: "i < length cs" "c = cs ! i" by (auto simp: in_set_conv_nth)
    have "children_list (children n) ! i \<in> set (children_list (children n))" using i len by simp
    with wf nth [OF i(1)] i show ?thesis unfolding wf_node_unfold [of _ n] same_shape_def by metis
  qed
  let ?n = "RadixNode (nodeType n) (prefix n) (setChildren (children n) cs) False (entries n)"
  have "wf_node cur ?n"
    using wf inner d kids maps(1) keys by (simp add: wf_node_unfold [of _ n])
  moreover have "leaf_ids cur ?n = leaf_ids cur n"
    using inner maps(2) d(3) by (simp add: items_unfold(2) [of _ n])
  moreover have "ordered ?n = ordered n"
    using Ball_map_eq [OF maps(3)] d by (simp add: ordered_unfold [of n])
  moreover have "prefix_free ?n = prefix_free n"
    using Ball_map_eq [OF maps(4)] d inner by (cases n) simp
  moreover have "cs = [] \<longleftrightarrow> children_list (children n) = []"
    using len by (simp flip: length_0_conv)
  moreover have "set (concat (map (items (cur @ prefix n)) cs)) \<subseteq> set (concat (map (items (cur @ prefix n)) (children_list (children n))))"
    using cs by (induction rule: list_all2_induct) (auto simp: same_shape_def)
  then have "set (items cur ?n) \<subseteq> set (items cur n)"
    using inner d(3) by (simp add: items_unfold(1) [of _ n])
  ultimately show "same_shape cur n ?n"
    using inner d(3) by (simp add: same_shape_def)
qed

lemma trim_node_trimmed:
  assumes "wf_node cur n" and "trim_node n st = (n', st', stop)"
  shows "trimmed_to cur n st n' st'"
  using assms
proof (induction cur n arbitrary: st n' st' stop rule: items.induct)
  case (1 cur t pre ch leaf es)
  show ?case
  proof (cases leaf)
    case True
    obtain es1 st1 stop1 where l: "trim_leaf es st = (es1, st1, stop1)" by (rule prod_cases3)
    with True 1(3) have r: "n' = RadixNode t pre ch True es1" "st' = st1" by (simp_all add: at_leaf)
    obtain i where i: "i \<le> length es" "es1 = drop i es" "st1 = (fst st - int i, snd st + int i)"
      using front [OF l] by blast
    have "wf_node cur n'" using 1(2) True i(2) by (auto simp: r dest: in_set_dropD)
    with True i show ?thesis by (auto simp: trimmed_to_def same_shape_def r dest: in_set_dropD)
  next
    case False
    obtain cs st1 stop1 where v: "visit trim_node st (children_list ch) = (cs, st1, stop1)" by (rule prod_cases3)
    with False 1(3) have r: "n' = RadixNode t pre (setChildren ch cs) False es" "st' = st1"
      by (simp_all add: at_inner)
    have kids: "list_all2 (same_shape (cur @ pre)) (children_list ch) cs \<and>
        fst st1 - int (length (concat (map (items (cur @ pre)) cs)))
          = fst st - int (length (concat (map (items (cur @ pre)) (children_list ch)))) \<and>
        fst st1 + snd st1 = fst st + snd st"
      by (rule visit_trimmed [OF _ _ v]) (use 1 in auto)
    note s = same_shape_node [OF 1(2), unfolded radix_node.sel, OF False conjunct1 [OF kids]]
    from s kids False show ?thesis by (simp add: trimmed_to_def r)
  qed
qed

text \<open>Where no ID is a prefix of another, the traversal trims the sequence of all entries as
  if it were the list of one leaf.\<close>

lemma visit_exact:
  assumes "\<And>c st c' st' stop. c \<in> set cs \<Longrightarrow> going st \<Longrightarrow> trim_node c st = (c', st', stop) \<Longrightarrow>
      trim_leaf (F c) st = (F c', st', stop)"
    and "going st" and "visit trim_node st cs = (cs', st', stop)"
  shows "trim_leaf (concat (map F cs)) st = (concat (map F cs'), st', stop)"
  using assms
proof (induction cs arbitrary: st cs' st' stop)
  case Nil
  then show ?case by (simp add: no_entries)
next
  case (Cons c cs)
  obtain c1 st1 stop1 where f: "trim_node c st = (c1, st1, stop1)" by (rule prod_cases3)
  have l: "trim_leaf (F c) st = (F c1, st1, stop1)" using Cons.prems(1) [OF _ Cons.prems(2) f] by simp
  show ?case
  proof (cases stop1)
    case True
    with f l Cons.prems(3) show ?thesis by (auto simp: in_parts)
  next
    case False
    obtain cs2 st2 stop2 where v: "visit trim_node st1 cs = (cs2, st2, stop2)" by (rule prod_cases3)
    have "trim_leaf (concat (map F cs)) st1 = (concat (map F cs2), st2, stop2)"
      by (rule Cons.IH [OF _ _ v]) (use Cons.prems(1,2) goes_on l False in auto)
    with False f l v Cons.prems(3) show ?thesis by (auto simp: in_parts)
  qed
qed

lemma trim_node_exact:
  assumes "wf_node cur n" and "prefix_free n" and "going st" and "trim_node n st = (n', st', stop)"
  shows "trim_leaf (map snd (items cur n)) st = (map snd (items cur n'), st', stop)"
  using assms
proof (induction cur n arbitrary: st n' st' stop rule: items.induct)
  case (1 cur t pre ch leaf es)
  show ?case
  proof (cases leaf)
    case True
    with 1(3) have "children_list ch = []" by simp
    with True 1(5) show ?thesis by (auto simp: at_leaf comp_def split: prod.splits)
  next
    case False
    obtain cs st1 stop1 where v: "visit trim_node st (children_list ch) = (cs, st1, stop1)" by (rule prod_cases3)
    with False 1(5) have r: "n' = RadixNode t pre (setChildren ch cs) False es" "st' = st1" "stop = stop1"
      by (simp_all add: at_inner)
    have "list_all2 (same_shape (cur @ pre)) (children_list ch) cs"
      using visit_trimmed [OF _ _ v, of "cur @ pre"] 1(2) trim_node_trimmed by fastforce
    note s = same_shape_node(2) [OF 1(2), unfolded radix_node.sel, OF False this]
    have "trim_leaf (concat (map (\<lambda>c. map snd (items (cur @ pre) c)) (children_list ch))) st
        = (concat (map (\<lambda>c. map snd (items (cur @ pre) c)) cs), st1, stop1)"
      by (rule visit_exact [OF _ 1(4) v]) (use 1(1,2,3) in auto)
    with False s show ?thesis by (simp add: r map_concat comp_def)
  qed
qed

end

subsection \<open>Both trims meet the contract\<close>

lemma trim_front_drop:
  "trim_front maxSize es st =
     (let i = min (nat (fst st - maxSize)) (length es) in (drop i es, (fst st - int i, snd st + int i)))"
proof (induction maxSize es st rule: trim_front.induct)
  case (2 maxSize e es sz trimmed)
  show ?case
  proof (cases "maxSize < sz")
    case True
    then have "nat (sz - maxSize) = Suc (nat (sz - 1 - maxSize))" by simp
    with 2 True show ?thesis by (simp add: Let_def)
  qed simp
qed (simp add: Let_def)

definition trim_size_leaf :: "int \<Rightarrow> stream_entry list \<Rightarrow> trim_state \<Rightarrow> stream_entry list \<times> trim_state \<times> bool" where
  "trim_size_leaf maxSize es st = (case trim_front maxSize es st of (es', st') \<Rightarrow> (es', st', fst st' \<le> maxSize))"

lemma trim_size_leaf_drop:
  "trim_size_leaf maxSize es st =
     (let i = min (nat (fst st - maxSize)) (length es)
      in (drop i es, (fst st - int i, snd st + int i), fst st - int i \<le> maxSize))"
  by (simp add: trim_size_leaf_def trim_front_drop Let_def)

interpretation ts: leaf_trim "trim_size_leaf maxSize" "trim_size_node maxSize" "\<lambda>st. maxSize < fst st" for maxSize
proof
  fix t pre ch es st es' st' stop xs ys
  show "trim_size_node maxSize (RadixNode t pre ch True es) st =
      (case trim_size_leaf maxSize es st of (es', st', stop) \<Rightarrow> (RadixNode t pre ch True es', st', stop))"
    by (simp add: trim_size_leaf_def split: prod.splits)
  show "trim_size_node maxSize (RadixNode t pre ch False es) st =
      (case visit (trim_size_node maxSize) st (children_list ch) of (cs, st', stop) \<Rightarrow>
         (RadixNode t pre (setChildren ch cs) False es, st', stop))"
    by (simp add: foldl_visit split: prod.splits)
  show "\<exists>i \<le> length es. es' = drop i es \<and> st' = (fst st - int i, snd st + int i)"
    if "trim_size_leaf maxSize es st = (es', st', stop)"
    using that by (auto simp: trim_size_leaf_drop Let_def intro!: exI [of _ "min (nat (fst st - maxSize)) (length es)"])
  show "trim_size_leaf maxSize [] st = ([], st, False)" if "maxSize < fst st"
    using that by (cases st) (simp add: trim_size_leaf_drop)
  show "maxSize < fst st'" if "maxSize < fst st" "trim_size_leaf maxSize xs st = (es', st', False)"
    using that by (auto simp: trim_size_leaf_drop Let_def)
  show "trim_size_leaf maxSize (xs @ ys) st =
      (case trim_size_leaf maxSize xs st of (xs', st', stop) \<Rightarrow>
         if stop then (xs' @ ys, st', True)
         else (case trim_size_leaf maxSize ys st' of (ys', st'', stop') \<Rightarrow> (xs' @ ys', st'', stop')))"
  proof -
    have "nat (fst st - int (length xs) - maxSize) = nat (fst st - maxSize) - length xs" by arith
    then show ?thesis by (auto simp: trim_size_leaf_drop Let_def min_def)
  qed
qed

lemma trim_min_dropWhile:
  "trim_min minID es st =
     (let i = length (takeWhile (\<lambda>e. ID e < minID) es)
      in (dropWhile (\<lambda>e. ID e < minID) es, (fst st - int i, snd st + int i), i < length es))"
  using length_takeWhile_le [of "\<lambda>e. ID e < minID" es]
  by (auto simp: trim_min_def Let_def not_le dropWhile_eq_drop split: prod.splits)

interpretation tm: leaf_trim "trim_min minID" "trim_min_node minID" "\<lambda>_. True" for minID
proof
  fix t pre ch es st es' st' stop xs ys
  show "trim_min_node minID (RadixNode t pre ch True es) st =
      (case trim_min minID es st of (es', st', stop) \<Rightarrow> (RadixNode t pre ch True es', st', stop))"
    by (simp split: prod.splits)
  show "trim_min_node minID (RadixNode t pre ch False es) st =
      (case visit (trim_min_node minID) st (children_list ch) of (cs, st', stop) \<Rightarrow>
         (RadixNode t pre (setChildren ch cs) False es, st', stop))"
    by (simp add: foldl_visit split: prod.splits)
  show "\<exists>i \<le> length es. es' = drop i es \<and> st' = (fst st - int i, snd st + int i)"
    if "trim_min minID es st = (es', st', stop)"
    using that length_takeWhile_le [of "\<lambda>e. ID e < minID" es]
    by (auto simp: trim_min_dropWhile Let_def dropWhile_eq_drop)
  show "trim_min minID [] st = ([], st, False)"
    by (simp add: trim_min_dropWhile)
  show "trim_min minID (xs @ ys) st =
      (case trim_min minID xs st of (xs', st', stop) \<Rightarrow>
         if stop then (xs' @ ys, st', True)
         else (case trim_min minID ys st' of (ys', st'', stop') \<Rightarrow> (xs' @ ys', st'', stop')))"
  proof (cases "\<forall>x \<in> set xs. ID x < minID")
    case True
    then have "length (takeWhile (\<lambda>e. ID e < minID) xs) = length xs" by (induction xs) simp_all
    with True show ?thesis by (simp add: trim_min_dropWhile Let_def)
  next
    case False
    then have "length (takeWhile (\<lambda>e. ID e < minID) xs) < length xs"
      by (metis length_takeWhile_le nat_less_le takeWhile_eq_take take_all takeWhile_eq_all_conv)
    with False show ?thesis
      by (auto simp: trim_min_dropWhile Let_def dropWhile_append1 takeWhile_append1)
  qed
qed simp

subsection \<open>Trimming a tree\<close>

text \<open>What holds after any of the two trims: the invariant, the IDs and their order are kept,
  and the result counts the entries removed.\<close>

definition tree_trimmed :: "radix_tree \<Rightarrow> int \<Rightarrow> radix_tree \<Rightarrow> bool" where
  "tree_trimmed t removed t' \<longleftrightarrow> wf_tree t' \<and> same_shape [] (root t) (root t') \<and> LastID t' = LastID t \<and>
     lastTimestamp t' = lastTimestamp t \<and> sequence t' = sequence t \<and>
     tree_size t' = tree_size t - removed"

lemma tree_trimmed_entries: "tree_trimmed t removed t' \<Longrightarrow> set (tree_entries t') \<subseteq> set (tree_entries t)"
  by (auto simp: tree_trimmed_def same_shape_def tree_entries_def tree_items_def)

lemma TrimBySize_trimmed: "wf_tree t \<Longrightarrow> TrimBySize t maxSize = (removed, t') \<Longrightarrow> tree_trimmed t removed t'"
proof (cases "tree_size t \<le> maxSize")
  case True
  assume "wf_tree t" "TrimBySize t maxSize = (removed, t')"
  with True show ?thesis by (auto simp: TrimBySize_def tree_trimmed_def wf_tree_def same_shape_refl)
next
  case False
  assume wf: "wf_tree t" and "TrimBySize t maxSize = (removed, t')"
  moreover obtain r sz tr stop where n: "trim_size_node maxSize (root t) (tree_size t, 0) = (r, (sz, tr), stop)"
    by (metis prod_cases3 surj_pair)
  ultimately have r: "removed = tr" "t' = t\<lparr>root := r, tree_size := sz\<rparr>" using False by (simp_all add: TrimBySize_def)
  have "wf_node [] (root t)" using wf by (simp add: wf_tree_def)
  from ts.trim_node_trimmed [OF this n] wf show ?thesis
    by (simp add: ts.trimmed_to_def tree_trimmed_def r wf_tree_def tree_items_def same_shape_def)
qed

lemma TrimByMinID_trimmed: "wf_tree t \<Longrightarrow> TrimByMinID t minID = (removed, t') \<Longrightarrow> tree_trimmed t removed t'"
proof -
  assume wf: "wf_tree t" and "TrimByMinID t minID = (removed, t')"
  moreover obtain r sz tr stop where n: "trim_min_node minID (root t) (tree_size t, 0) = (r, (sz, tr), stop)"
    by (metis prod_cases3 surj_pair)
  ultimately have r: "removed = tr" "t' = t\<lparr>root := r, tree_size := sz\<rparr>" by (simp_all add: TrimByMinID_def)
  have "wf_node [] (root t)" using wf by (simp add: wf_tree_def)
  from tm.trim_node_trimmed [OF this n] wf show ?thesis
    by (simp add: tm.trimmed_to_def tree_trimmed_def r wf_tree_def tree_items_def same_shape_def)
qed

lemma TrimBySize_exact:
  assumes wf: "wf_tree t" and free: "prefix_free (root t)" and trim: "TrimBySize t maxSize = (removed, t')"
  shows "tree_entries t' = drop (nat (tree_size t - maxSize)) (tree_entries t)"
proof (cases "tree_size t \<le> maxSize")
  case True
  with trim show ?thesis by (simp add: TrimBySize_def)
next
  case False
  obtain r sz tr stop where n: "trim_size_node maxSize (root t) (tree_size t, 0) = (r, (sz, tr), stop)"
    by (metis prod_cases3 surj_pair)
  with False trim have r: "t' = t\<lparr>root := r, tree_size := sz\<rparr>" by (simp add: TrimBySize_def)
  have "wf_node [] (root t)" "maxSize < fst (tree_size t, 0 :: int)" using wf False by (simp_all add: wf_tree_def)
  note ts.trim_node_exact [OF this(1) free this(2) n]
  moreover have "drop (min k (length xs)) (map snd xs) = drop k (map snd xs)" for k and xs :: "(string \<times> stream_entry) list"
    by (simp add: min_def)
  ultimately show ?thesis
    by (simp add: r tree_entries_def tree_items_def trim_size_leaf_drop Let_def)
qed

lemma TrimByMinID_exact:
  assumes wf: "wf_tree t" and free: "prefix_free (root t)" and trim: "TrimByMinID t minID = (removed, t')"
  shows "tree_entries t' = dropWhile (\<lambda>e. ID e < minID) (tree_entries t)"
proof -
  obtain r sz tr stop where n: "trim_min_node minID (root t) (tree_size t, 0) = (r, (sz, tr), stop)"
    by (metis prod_cases3 surj_pair)
  with trim have r: "t' = t\<lparr>root := r, tree_size := sz\<rparr>" by (simp add: TrimByMinID_def)
  have "wf_node [] (root t)" using wf by (simp add: wf_tree_def)
  from tm.trim_node_exact [OF this free _ n] show ?thesis
    by (simp add: r tree_entries_def tree_items_def trim_min_dropWhile Let_def)
qed

text \<open>IDs of one length are prefix free: the usual case of 13-digit timestamps.\<close>

lemma prefix_free_same_length:
  "wf_node cur n \<Longrightarrow> \<forall>x \<in> set (leaf_ids cur n). length x = k \<Longrightarrow> prefix_free n"
proof (induction cur n rule: items.induct)
  case (1 cur t pre ch leaf es)
  let ?n = "RadixNode t pre ch leaf es"
  have "children_list ch = []" if leaf
  proof (rule ccontr)
    assume "children_list ch \<noteq> []"
    then obtain c where c: "c \<in> set (children_list ch)" by (meson list.set_sel(1))
    with 1(2) have "prefix c \<noteq> []" by simp
    from child_leaf [OF 1(2), of c] c obtain s where "cur @ pre @ prefix c @ s \<in> set (leaf_ids cur ?n)" by auto
    moreover have "cur @ pre \<in> set (leaf_ids cur ?n)" using that by simp
    ultimately have "length (cur @ pre @ prefix c @ s) = length (cur @ pre)" using 1(3) by metis
    with \<open>prefix c \<noteq> []\<close> show False by simp
  qed
  moreover have "prefix_free c" if "c \<in> set (children_list ch)" for c
    using 1(1) [OF that] 1(2,3) that by auto
  ultimately show ?case by simp
qed

section \<open>Appending in order\<close>

text \<open>A tree all of whose IDs came in increasing order: its children are in key order and no
  ID lies beyond \<open>LastID\<close>.\<close>

definition in_order :: "radix_tree \<Rightarrow> bool" where
  "in_order t \<longleftrightarrow> wf_tree t \<and> ordered (root t) \<and> (\<forall>x \<in> set (leaf_ids [] (root t)). x \<le> LastID t)"

lemma in_order_new: "in_order NewRadixTree"
  by (simp add: in_order_def wf_tree_new) (simp add: NewRadixTree_def NewRadixNode_def)

lemma in_order_AddEntry:
  assumes "in_order t" and "LastID t \<le> sid"
  shows "in_order (AddEntry t sid flds)"
    and "tree_items (AddEntry t sid flds) = tree_items t @ [(sid, \<lparr>ID = sid, Fields = flds\<rparr>)]"
proof -
  let ?e = "\<lparr>ID = sid, Fields = flds\<rparr>"
  have wf: "wf_tree t" and live: "live (root t)" and node: "wf_node [] (root t)"
    using assms(1) by (simp_all add: in_order_def wf_tree_def live_def)
  have le: "\<forall>x \<in> set (leaf_ids [] (root t)). x \<le> [] @ sid" using assms by (auto simp: in_order_def)
  have ord: "ordered (root t)" using assms(1) by (simp add: in_order_def)
  have l: "ordered (add_node (root t) sid ?e) \<and> items [] (add_node (root t) sid ?e) = items [] (root t) @ [([] @ sid, ?e)]"
    by (rule add_node_last [OF node live _ ord le]) simp
  then show "tree_items (AddEntry t sid flds) = tree_items t @ [(sid, ?e)]"
    by (simp add: tree_items_def)
  have "set (leaf_ids [] (add_node (root t) sid ?e)) = insert ([] @ sid) (set (leaf_ids [] (root t)))"
    using add_node_correct [OF node live, of ?e sid] by simp
  with l le wf_AddEntry [OF wf] assms(2) show "in_order (AddEntry t sid flds)"
    by (auto simp: in_order_def max_def)
qed

lemma tree_entries_AddEntry:
  "in_order t \<Longrightarrow> LastID t \<le> sid \<Longrightarrow>
   tree_entries (AddEntry t sid flds) = tree_entries t @ [\<lparr>ID = sid, Fields = flds\<rparr>]"
  by (simp add: tree_entries_def in_order_AddEntry)

lemma in_order_trimmed: "in_order t \<Longrightarrow> tree_trimmed t removed t' \<Longrightarrow> in_order t'"
  by (simp add: in_order_def tree_trimmed_def same_shape_def)

end
