(* ===== verification/Radix_Props.thy ===== *)
theory Radix_Props
  imports Radix_Ops
begin

text \<open>
  The states a \<open>RadixTree\<close> reaches through its exported methods, and the properties of the
  index: what \<open>AddEntry\<close>, \<open>Range\<close>, \<open>TrimBySize\<close>, \<open>TrimByMinID\<close> and the ID functions
  promise their caller \<open>Stream\<close>.
\<close>

section \<open>Reachable trees\<close>

text \<open>Every sequence of calls of the exported methods of \<open>RadixTree\<close>.\<close>

inductive radix_reachable :: "radix_tree \<Rightarrow> bool" where
  new: "radix_reachable NewRadixTree"
| add: "radix_reachable t \<Longrightarrow> radix_reachable (AddEntry t sid flds)"
| gen: "radix_reachable t \<Longrightarrow> radix_reachable (snd (GenerateID env t))"
| gen_incomplete: "radix_reachable t \<Longrightarrow> radix_reachable (snd (GenerateIncompleteID t sid))"
| trim_size: "radix_reachable t \<Longrightarrow> radix_reachable (snd (TrimBySize t maxSize))"
| trim_min: "radix_reachable t \<Longrightarrow> radix_reachable (snd (TrimByMinID t minID))"

lemma GenerateID_frame [simp]:
  "root (snd (GenerateID env t)) = root t" "tree_size (snd (GenerateID env t)) = tree_size t"
  "LastID (snd (GenerateID env t)) = LastID t"
  by (simp_all add: GenerateID_def Let_def)

lemma GenerateIncompleteID_frame [simp]:
  "root (snd (GenerateIncompleteID t sid)) = root t"
  "tree_size (snd (GenerateIncompleteID t sid)) = tree_size t"
  "LastID (snd (GenerateIncompleteID t sid)) = LastID t"
  by (auto simp: GenerateIncompleteID_def Let_def split: sum.splits)

lemma wf_tree_cong: "root t' = root t \<Longrightarrow> tree_size t' = tree_size t \<Longrightarrow> wf_tree t' = wf_tree t"
  by (simp add: wf_tree_def tree_items_def)

lemma reachable_wf: "radix_reachable t \<Longrightarrow> wf_tree t"
proof (induction rule: radix_reachable.induct)
  case (trim_size t maxSize)
  then show ?case using TrimBySize_trimmed [of t maxSize] by (metis prod.collapse tree_trimmed_def)
next
  case (trim_min t minID)
  then show ?case using TrimByMinID_trimmed [of t minID] by (metis prod.collapse tree_trimmed_def)
next
  case (gen t env)
  then show ?case using wf_tree_cong [of "snd (GenerateID env t)" t] by simp
next
  case (gen_incomplete t sid)
  then show ?case using wf_tree_cong [of "snd (GenerateIncompleteID t sid)" t] by simp
qed (simp_all add: wf_tree_new wf_AddEntry)

text \<open>The entries of a list of calls of \<open>AddEntry\<close>.\<close>

definition add_all :: "radix_tree \<Rightarrow> (string \<times> string list list) list \<Rightarrow> radix_tree" where
  "add_all t xs = foldl (\<lambda>t x. AddEntry t (fst x) (snd x)) t xs"

definition entry_of :: "string \<times> string list list \<Rightarrow> stream_entry" where
  "entry_of x = \<lparr>ID = fst x, Fields = snd x\<rparr>"

lemma add_all_simps [simp]:
  "add_all t [] = t" "add_all t (x # xs) = add_all (AddEntry t (fst x) (snd x)) xs"
  by (simp_all add: add_all_def)

lemma add_all_reachable: "radix_reachable t \<Longrightarrow> radix_reachable (add_all t xs)"
  by (induction xs arbitrary: t) (simp_all add: radix_reachable.add)

lemma wf_add_all: "wf_tree t \<Longrightarrow> wf_tree (add_all t xs)"
  by (induction xs arbitrary: t) (simp_all add: wf_AddEntry)

lemma tree_entries_new: "tree_entries NewRadixTree = []"
  by (simp add: tree_entries_def tree_items_new)

lemma mset_AddEntry:
  "wf_tree t \<Longrightarrow> mset (tree_entries (AddEntry t sid flds)) = add_mset (entry_of (sid, flds)) (mset (tree_entries t))"
  using tree_add_node(3) [of t sid flds] by (simp add: tree_entries_def tree_items_def entry_of_def)

lemma mset_add_all: "wf_tree t \<Longrightarrow> mset (tree_entries (add_all t xs)) = mset (tree_entries t) + mset (map entry_of xs)"
  by (induction xs arbitrary: t) (simp_all add: wf_AddEntry mset_AddEntry)

lemma tree_entries_add_all:
  "in_order t \<Longrightarrow> sorted (LastID t # map fst xs) \<Longrightarrow> tree_entries (add_all t xs) = tree_entries t @ map entry_of xs"
proof (induction xs arbitrary: t)
  case (Cons x xs)
  then have "in_order (AddEntry t (fst x) (snd x))" "LastID t \<le> fst x"
    by (simp_all add: in_order_AddEntry)
  moreover from this Cons.prems have "sorted (LastID (AddEntry t (fst x) (snd x)) # map fst xs)"
    by (auto simp: max_def)
  ultimately show ?case using Cons.IH Cons.prems by (simp add: tree_entries_AddEntry entry_of_def)
qed simp

lemma tree_entries_history: "sorted (map fst xs) \<Longrightarrow> tree_entries (add_all NewRadixTree xs) = map entry_of xs"
  using tree_entries_add_all [OF in_order_new, of xs] by (simp add: NewRadixTree_def tree_entries_new [unfolded NewRadixTree_def])

lemma leaf_ids_add_all:
  "wf_tree t \<Longrightarrow> set (leaf_ids [] (root (add_all t xs))) = set (leaf_ids [] (root t)) \<union> set (map fst xs)"
proof (induction xs arbitrary: t)
  case (Cons x xs)
  have "wf_node [] (root t)" "live (root t)" using Cons.prems by (simp_all add: wf_tree_def live_def)
  from add_node_correct [OF this, of "\<lparr>ID = fst x, Fields = snd x\<rparr>" "fst x"]
  show ?case using Cons by (auto simp: wf_AddEntry)
qed simp

lemma prefix_free_add_all:
  assumes "\<forall>x \<in> set xs. length (fst x) = k"
  shows "prefix_free (root (add_all NewRadixTree xs))"
proof (rule prefix_free_same_length)
  show "wf_node [] (root (add_all NewRadixTree xs))"
    using wf_add_all [OF wf_tree_new] by (simp add: wf_tree_def)
  have "leaf_ids [] (root NewRadixTree) = []" by (simp add: NewRadixTree_def NewRadixNode_def)
  with assms show "\<forall>x \<in> set (leaf_ids [] (root (add_all NewRadixTree xs))). length x = k"
    using leaf_ids_add_all [OF wf_tree_new, of xs] by auto
qed

lemma tree_size_add_all: "tree_size (add_all t xs) = tree_size t + int (length xs)"
  by (induction xs arbitrary: t) simp_all

lemma Split_format_id: "0 \<le> ts \<Longrightarrow> 0 \<le> sq \<Longrightarrow> Split (format_id ts sq) (CHR ''-'') = [FormatInt ts, FormatInt sq]"
proof -
  assume "0 \<le> ts" "0 \<le> sq"
  then have "CHR ''-'' \<notin> set (FormatInt ts)" "CHR ''-'' \<notin> set (FormatInt sq)"
    by (simp_all add: FormatInt_def)
  then show ?thesis by (simp add: format_id_def Split_append Split_no_sep)
qed

section \<open>Properties\<close>

text \<open>C7: whatever calls of \<open>AddEntry\<close>, \<open>GenerateID\<close>, \<open>GenerateIncompleteID\<close>,
  \<open>TrimBySize\<close> and \<open>TrimByMinID\<close> built the tree, adding an entry keeps the structural
  invariant (every adaptive node consistent, keys distinct and equal to the first byte of the
  child's edge label, entries filed under their ID, the size counter exact), stores exactly
  the new entry beside the old ones, and moves \<open>LastID\<close> to the larger of the two IDs.\<close>

theorem radix_add_entry:
  assumes "radix_reachable t"
  shows "wf_tree (AddEntry t sid flds) \<and>
    mset (tree_entries (AddEntry t sid flds)) = add_mset \<lparr>ID = sid, Fields = flds\<rparr> (mset (tree_entries t)) \<and>
    tree_size (AddEntry t sid flds) = int (length (tree_entries t)) + 1 \<and>
    LastID (AddEntry t sid flds) = max (LastID t) sid"
proof -
  have wf: "wf_tree t" using assms by (rule reachable_wf)
  then have "tree_size t = int (length (tree_entries t))" by (simp add: wf_tree_def tree_entries_def)
  with wf show ?thesis by (simp add: wf_AddEntry mset_AddEntry entry_of_def)
qed

theorem radix_add_entry_witness:
  "mset (tree_entries (AddEntry (AddEntry NewRadixTree ''5-1'' []) ''5-2'' [[''f'', ''v'']]))
    = {#\<lparr>ID = ''5-1'', Fields = []\<rparr>, \<lparr>ID = ''5-2'', Fields = [[''f'', ''v'']]\<rparr>#}"
  using radix_add_entry [OF radix_reachable.add [OF radix_reachable.new, of "''5-1''" "[]"], of "''5-2''" "[[''f'', ''v'']]"]
    radix_add_entry [OF radix_reachable.new, of "''5-1''" "[]"]
  by (simp add: tree_entries_new)

text \<open>C11: on every reachable tree, \<open>Range\<close> returns, in the order of the tree, exactly the
  entries whose ID lies between the two bounds (an ID, an ID excluded by a leading
  parenthesis, or \<open>-\<close> and \<open>+\<close>), cut off after \<open>count\<close> entries when \<open>count\<close> is positive.\<close>

theorem radix_range_spec:
  assumes "radix_reachable t"
  shows "Range t startID endID cnt =
    (let found = filter (\<lambda>e. lower_bound startID (ID e) \<and> upper_bound endID (ID e)) (tree_entries t)
     in if cnt = 0 then found else take (unat cnt) found)"
proof -
  have "(unat cnt = 0) = (cnt = 0)" by (rule unat_eq_0)
  with Range_entries [OF reachable_wf [OF assms], of startID endID cnt] show ?thesis
    by (simp add: limit_def)
qed

theorem radix_range_spec_witness:
  "Range (add_all NewRadixTree [(''5-1'', []), (''5-2'', []), (''6-0'', [])]) ''(5-1'' ''+'' 1
    = [\<lparr>ID = ''5-2'', Fields = []\<rparr>]"
proof -
  let ?xs = "[(''5-1'', []), (''5-2'', []), (''6-0'', [])] :: (string \<times> string list list) list"
  have "tree_entries (add_all NewRadixTree ?xs) = map entry_of ?xs"
    by (rule tree_entries_history) simp
  with radix_range_spec [OF add_all_reachable [OF radix_reachable.new, of ?xs], of "''(5-1''" "''+''" 1]
  show ?thesis by (simp add: entry_of_def less_char_def less_eq_char_def)
qed

text \<open>Entries appended with increasing IDs are kept in that order, so a full range over
  the stream returns the history itself.\<close>

lemma radix_append_history:
  assumes "sorted (map fst xs)" and "\<forall>x \<in> set xs. fst x \<le> [CHR 0xFF]"
  shows "Range (add_all NewRadixTree xs) ''-'' ''+'' 0 = map (\<lambda>x. \<lparr>ID = fst x, Fields = snd x\<rparr>) xs"
proof -
  note tree_entries_history [OF assms(1)]
  moreover have "Range (add_all NewRadixTree xs) ''-'' ''+'' 0
      = filter (\<lambda>e. lower_bound ''-'' (ID e) \<and> upper_bound ''+'' (ID e)) (tree_entries (add_all NewRadixTree xs))"
    by (subst Range_entries [OF wf_add_all [OF wf_tree_new]]) (simp add: limit_def)
  ultimately show ?thesis using assms(2) by (auto simp: entry_of_def filter_id_conv)
qed

text \<open>C23: trimming by size, when no ID is a proper prefix of another (as for IDs of one
  length), removes exactly the oldest entries beyond \<open>maxSize\<close> in the order of the tree,
  returns their number, and keeps the invariant and \<open>LastID\<close>.\<close>

theorem radix_trim_by_size:
  assumes "radix_reachable t" and "prefix_free (root t)" and "TrimBySize t maxSize = (removed, t')" and "0 \<le> maxSize"
  shows "tree_entries t' = drop (length (tree_entries t) - nat maxSize) (tree_entries t) \<and>
    removed = int (length (tree_entries t) - nat maxSize) \<and> wf_tree t' \<and> LastID t' = LastID t"
proof -
  have wf: "wf_tree t" using assms(1) by (rule reachable_wf)
  then have size: "tree_size t = int (length (tree_entries t))" by (simp add: wf_tree_def tree_entries_def)
  then have n: "nat (tree_size t - maxSize) = length (tree_entries t) - nat maxSize" using assms(4) by simp
  have tr: "tree_trimmed t removed t'" using TrimBySize_trimmed [OF wf assms(3)] .
  have es: "tree_entries t' = drop (nat (tree_size t - maxSize)) (tree_entries t)"
    by (rule TrimBySize_exact [OF wf assms(2,3)])
  have "tree_size t' = int (length (tree_entries t'))" using tr by (simp add: tree_trimmed_def wf_tree_def tree_entries_def)
  then have "removed = int (length (tree_entries t) - nat maxSize)"
    using tr size es unfolding n by (auto simp: tree_trimmed_def)
  then show ?thesis using tr es unfolding n by (simp add: tree_trimmed_def)
qed

theorem radix_trim_by_size_witness:
  "tree_entries (snd (TrimBySize (add_all NewRadixTree [(''5-1'', []), (''5-2'', []), (''6-0'', [])]) 1))
    = [\<lparr>ID = ''6-0'', Fields = []\<rparr>]"
proof -
  let ?xs = "[(''5-1'', []), (''5-2'', []), (''6-0'', [])] :: (string \<times> string list list) list"
  have "tree_entries (add_all NewRadixTree ?xs) = map entry_of ?xs"
    by (rule tree_entries_history) simp
  moreover have "prefix_free (root (add_all NewRadixTree ?xs))" by (rule prefix_free_add_all [of _ 3]) simp
  ultimately show ?thesis
    using radix_trim_by_size [OF add_all_reachable [OF radix_reachable.new, of ?xs] _ prod.collapse [symmetric], of 1]
    by (simp add: entry_of_def)
qed

text \<open>C24: trimming by minimum ID, when no ID is a proper prefix of another, on a tree in ID
  order, removes exactly the entries below \<open>minID\<close> and returns their number.\<close>

theorem radix_trim_by_min_id:
  assumes "radix_reachable t" and "prefix_free (root t)" and "sorted (map ID (tree_entries t))"
    and "TrimByMinID t minID = (removed, t')"
  shows "tree_entries t' = filter (\<lambda>e. minID \<le> ID e) (tree_entries t) \<and>
    removed = int (length (filter (\<lambda>e. ID e < minID) (tree_entries t))) \<and> wf_tree t' \<and> LastID t' = LastID t"
proof -
  have wf: "wf_tree t" using assms(1) by (rule reachable_wf)
  have tr: "tree_trimmed t removed t'" using TrimByMinID_trimmed [OF wf assms(4)] .
  have drop: "dropWhile (\<lambda>e. ID e < minID) es = filter (\<lambda>e. minID \<le> ID e) es" if "sorted (map ID es)" for es
    using that by (induction es) (auto simp: not_less intro!: filter_True [symmetric] intro: order_trans)
  have es: "tree_entries t' = filter (\<lambda>e. minID \<le> ID e) (tree_entries t)"
    using TrimByMinID_exact [OF wf assms(2,4)] drop [OF assms(3)] by simp
  have "tree_size t' = int (length (tree_entries t'))" "tree_size t = int (length (tree_entries t))"
    using tr wf by (simp_all add: tree_trimmed_def wf_tree_def tree_entries_def)
  then have "removed = int (length (tree_entries t)) - int (length (tree_entries t'))"
    using tr by (simp add: tree_trimmed_def)
  moreover have "length (tree_entries t) = length (filter (\<lambda>e. ID e < minID) (tree_entries t)) + length (tree_entries t')"
    unfolding es using sum_length_filter_compl [of "\<lambda>e. ID e < minID" "tree_entries t"] by (simp add: not_less)
  ultimately show ?thesis using tr es by (simp add: tree_trimmed_def)
qed

theorem radix_trim_by_min_id_witness:
  "tree_entries (snd (TrimByMinID (add_all NewRadixTree [(''5-1'', []), (''5-2'', []), (''6-0'', [])]) ''5-2''))
    = [\<lparr>ID = ''5-2'', Fields = []\<rparr>, \<lparr>ID = ''6-0'', Fields = []\<rparr>]"
proof -
  let ?xs = "[(''5-1'', []), (''5-2'', []), (''6-0'', [])] :: (string \<times> string list list) list"
  have e: "tree_entries (add_all NewRadixTree ?xs) = map entry_of ?xs"
    by (rule tree_entries_history) simp
  moreover have "prefix_free (root (add_all NewRadixTree ?xs))" by (rule prefix_free_add_all [of _ 3]) simp
  moreover have "sorted (map ID (tree_entries (add_all NewRadixTree ?xs)))"
    unfolding e by (simp add: entry_of_def)
  ultimately show ?thesis
    using radix_trim_by_min_id [OF add_all_reachable [OF radix_reachable.new, of ?xs] _ _ prod.collapse [symmetric], of "''5-2''"]
    by (simp add: entry_of_def)
qed

text \<open>C25: \<open>GenerateID\<close> moves the pair of last timestamp and sequence number strictly forward
  in lexicographic order, also when the clock stands still or goes back, and the ID it returns
  passes \<open>ValidateID\<close> unchanged and splits and parses back into that pair. Timestamp and sequence
  number are not negative, and the sequence number is below the largest \<open>int64\<close>: at the largest
  one the increment wraps around to a negative number.\<close>

theorem radix_generate_id:
  assumes "GenerateID env t = (sid, t')" and "in_i64 (now_ms env)"
    and "in_i64 (lastTimestamp t)" and "0 \<le> lastTimestamp t"
    and "0 \<le> sequence t" and "sequence t < 2 ^ 63 - 1"
  shows "(lastTimestamp t < lastTimestamp t' \<or> lastTimestamp t = lastTimestamp t' \<and> sequence t < sequence t') \<and>
    ValidateID sid = (True, sid) \<and>
    map ParseInt (Split sid (CHR ''-'')) = [Inr (lastTimestamp t'), Inr (sequence t')]"
proof -
  have sid: "sid = format_id (lastTimestamp t') (sequence t')"
    using assms(1) by (auto simp: GenerateID_def Let_def)
  have "in_i64 (sequence t + 1)" using assms(5,6) by (simp add: in_i64_def)
  then have forward: "lastTimestamp t < lastTimestamp t' \<or> lastTimestamp t = lastTimestamp t' \<and> sequence t < sequence t'"
    and ok: "0 \<le> lastTimestamp t'" "0 \<le> sequence t'" "in_i64 (lastTimestamp t')" "in_i64 (sequence t')"
    using assms by (auto simp: GenerateID_def Let_def in_i64_def split: if_splits)
  note parts = Split_format_id [OF ok(1,2)]
  have "sid \<noteq> ''+''" "sid \<noteq> ''-''" using parts by (auto simp: sid dest!: sym [of "[]"])
  with forward ok parts show ?thesis by (simp add: sid ValidateID_def ParseInt_FormatInt)
qed

theorem radix_generate_id_witness:
  "fst (GenerateID (plain_env 7000000) NewRadixTree) = ''7-0'' \<and>
   ValidateID ''7-0'' = (True, ''7-0'')"
proof -
  let ?env = "plain_env 7000000"
  have g: "GenerateID ?env NewRadixTree = (''7-0'', NewRadixTree\<lparr>lastTimestamp := 7, sequence := 0\<rparr>)"
    by code_simp
  from radix_generate_id [OF g] show ?thesis by (simp add: g in_i64_def now_ms_def) (simp add: NewRadixTree_def)
qed

text \<open>At the largest sequence number the next one is negative, so that the pair moves backwards.\<close>

lemma generate_id_wraps:
  "now_ms env \<le> lastTimestamp t \<Longrightarrow> sequence t = 2 ^ 63 - 1 \<Longrightarrow>
   lastTimestamp (snd (GenerateID env t)) = lastTimestamp t \<and> sequence (snd (GenerateID env t)) = - (2 ^ 63)"
  by (simp add: GenerateID_def Let_def wrap_i64_def)

text \<open>The IDs are ordered as strings, not as pairs of numbers: after \<open>9-0\<close> the larger
  \<open>10-0\<close> does not count as larger, and after \<open>10-0\<close> the smaller \<open>9-0\<close> does.\<close>

lemma radix_string_order:
  "\<not> IsLargestID (AddEntry NewRadixTree ''9-0'' flds) ''10-0'' \<and>
   IsLargestID (AddEntry NewRadixTree ''10-0'' flds) ''9-0''"
  by (simp add: IsLargestID_def NewRadixTree_def less_char_def max_def less_eq_char_def)

text \<open>An ID that is a proper prefix of other IDs hides them from \<open>TrimBySize\<close>: the
  traversal does not descend below a leaf, so a stream holding \<open>1-1\<close>, \<open>1-10\<close> and \<open>1-11\<close>
  trimmed to one entry still holds two.\<close>

lemma radix_trim_hidden:
  "fst (TrimBySize (add_all NewRadixTree [(''1-1'', []), (''1-10'', []), (''1-11'', [])]) 1) = 1 \<and>
   map ID (tree_entries (snd (TrimBySize (add_all NewRadixTree [(''1-1'', []), (''1-10'', []), (''1-11'', [])]) 1)))
     = [''1-10'', ''1-11'']"
  by code_simp

end
