(* ===== verification/Resp.thy ===== *)
theory Resp
  imports Strconv
begin

text \<open>
  \<open>pkg/resp/resp.go\<close>: the values of the Redis serialization protocol, the parser
  \<open>ParseResp\<close> with its helpers, the accessors and the serializer \<open>RAW\<close>.

  The reader behind a \<open>Resp\<close> is the list of the bytes not read yet; reading past its end is
  \<open>io.EOF\<close>, which is what the \<open>bytes.Reader\<close> of both callers of the parser reports. A Go map
  is an association list with distinct keys, whose order stands for the iteration order of the
  map, which Go leaves open. \<open>ParseResp\<close> and the loops of \<open>parseArray\<close> and \<open>parseMap\<close> call
  each other; the recursion is on fuel, and \<open>ParseResp\<close> starts with one more than the number of
  input bytes, which is always enough (\<open>parse_no_fuel\<close>).
\<close>

section \<open>Values\<close>

datatype resp = Resp (Length: int) (Type: char) (Data: resp_data)
and resp_data = DNil | DBytes string | DArr "resp list" | DMap "(string \<times> resp) list"

definition is_line_type :: "char \<Rightarrow> bool" where
  "is_line_type c \<longleftrightarrow> c \<in> set ''+-:_#,(''"

definition is_bulk_type :: "char \<Rightarrow> bool" where
  "is_bulk_type c \<longleftrightarrow> c \<in> set ''$!=''"

definition is_array_type :: "char \<Rightarrow> bool" where
  "is_array_type c \<longleftrightarrow> c \<in> set ''*>~''"

definition is_map_type :: "char \<Rightarrow> bool" where
  "is_map_type c \<longleftrightarrow> c = CHR ''%''"

text \<open>The errors, by what \<open>errors.Is\<close> and \<open>errors.As\<close> find in them; the texts the parser wraps
  around them reach only the log.\<close>

datatype resp_error =
    EOF
  | UnexpectedEOF
  | InvalidInput string
  | ErrEmptyLine
  | ErrUnknownType char
  | ErrIncompleteInput int int
  | AtoiError num_error
  | InvalidLength int

text \<open>The outcome of a read: a value and the bytes after it, an error, a run-time panic, or, in
  the model only, no fuel.\<close>

datatype 'a pres = POk 'a string | PErr resp_error | PPanic | PFuel

fun pbind :: "'a pres \<Rightarrow> ('a \<Rightarrow> string \<Rightarrow> 'b pres) \<Rightarrow> 'b pres" where
  "pbind (POk x s) f = f x s"
| "pbind (PErr e) f = PErr e"
| "pbind PPanic f = PPanic"
| "pbind PFuel f = PFuel"

section \<open>Accessors\<close>

fun join_comma :: "string list \<Rightarrow> string" where
  "join_comma [] = []"
| "join_comma [x] = x"
| "join_comma (x # y # xs) = x @ '','' @ join_comma (y # xs)"

definition stringifyArray :: "string list \<Rightarrow> string" where
  "stringifyArray elems = ''['' @ join_comma elems @ '']''"

definition stringifyMap :: "(string \<times> string) list \<Rightarrow> string" where
  "stringifyMap m = CHR 0x7B # join_comma (map (\<lambda>(k, v). k @ '':'' @ v) m) @ [CHR 0x7D]"

fun Bytes :: "resp \<Rightarrow> string" where
  "Bytes (Resp n t (DBytes b)) = b"
| "Bytes (Resp n t DNil) = []"
| "Bytes (Resp n t (DArr rs)) = (if n = -1 then [] else stringifyArray (map Bytes rs))"
| "Bytes (Resp n t (DMap m)) = stringifyMap (map (\<lambda>(k, v). (k, Bytes v)) m)"

text \<open>\<open>func (r *Resp) String()\<close>\<close>

abbreviation String :: "resp \<Rightarrow> string" where "String \<equiv> Bytes"

datatype conv_error = ErrInvalidType | ParseFailed num_error

fun data_bytes :: "resp \<Rightarrow> string option" where
  "data_bytes (Resp n t (DBytes b)) = Some b"
| "data_bytes _ = None"

definition Int64 :: "resp \<Rightarrow> conv_error + int" where
  "Int64 r = (case data_bytes r of
       None \<Rightarrow> Inl ErrInvalidType
     | Some b \<Rightarrow> (case ParseInt b of Inl e \<Rightarrow> Inl (ParseFailed e) | Inr i \<Rightarrow> Inr i))"

definition Uint64 :: "resp \<Rightarrow> conv_error + 64 word" where
  "Uint64 r = (case data_bytes r of
       None \<Rightarrow> Inl ErrInvalidType
     | Some b \<Rightarrow> (case ParseUint b of Inl e \<Rightarrow> Inl (ParseFailed e) | Inr i \<Rightarrow> Inr i))"

text \<open>\<open>strconv.ParseFloat\<close> is an argument: the program has no use for the number.\<close>

definition Float64 :: "(string \<Rightarrow> num_error + 'f) \<Rightarrow> resp \<Rightarrow> conv_error + 'f" where
  "Float64 parse_float r = (case data_bytes r of
       None \<Rightarrow> Inl ErrInvalidType
     | Some b \<Rightarrow> (case parse_float b of Inl e \<Rightarrow> Inl (ParseFailed e) | Inr f \<Rightarrow> Inr f))"

definition Bool :: "resp \<Rightarrow> conv_error + bool" where
  "Bool r = (case data_bytes r of None \<Rightarrow> Inl ErrInvalidType | Some b \<Rightarrow> Inr (b = ''t''))"

definition IsNull :: "resp \<Rightarrow> bool" where
  "IsNull r = (Type r = CHR ''_'')"

text \<open>The type assertion \<open>r.Data.([]*Resp)\<close>.\<close>

definition resp_array :: "resp \<Rightarrow> resp list go" where
  "resp_array r = (case Data r of DArr rs \<Rightarrow> Ret rs | _ \<Rightarrow> Panic)"

definition GetCommandName :: "resp \<Rightarrow> (string + string) go" where
  "GetCommandName r =
     (if Type r \<noteq> CHR ''*'' then Ret (Inl (''invalid type: '' @ [Type r]))
      else if Length r \<le> 0 then Ret (Inl (''invalid length: '' @ Itoa (Length r)))
      else (case resp_array r of Ret (x # _) \<Rightarrow> Ret (Inr (String x)) | _ \<Rightarrow> Panic))"

definition ToStringSlice :: "resp \<Rightarrow> (string + string list) go" where
  "ToStringSlice r =
     (if Type r \<noteq> CHR ''*'' then Ret (Inl (''invalid type: '' @ [Type r]))
      else if Length r < 0 then Panic
      else (case resp_array r of
          Panic \<Rightarrow> Panic
        | Ret rs \<Rightarrow> if length rs \<le> nat (Length r)
            then Ret (Inr (map String rs @ replicate (nat (Length r) - length rs) [])) else Panic))"

section \<open>The parser\<close>

definition readLine :: "string \<Rightarrow> string pres" where
  "readLine s =
     (case dropWhile (\<lambda>c. c \<noteq> LF) s of
        [] \<Rightarrow> PErr EOF
      | lf # rest \<Rightarrow>
          (let b = takeWhile (\<lambda>c. c \<noteq> LF) s @ [lf] in
           if length b \<le> 2 \<or> b ! (length b - 2) \<noteq> CR then PErr (InvalidInput b)
           else POk (take (length b - 2) b) rest))"

definition parseLen :: "string \<Rightarrow> resp_error + int" where
  "parseLen line =
     (case Atoi (drop 1 line) of
        Inl e \<Rightarrow> Inl (AtoiError e)
      | Inr n \<Rightarrow> if n < -1 then Inl (InvalidLength n) else Inr n)"

text \<open>\<open>make([]T, n)\<close> panics when the slice would need more than \<open>maxAlloc\<close> bytes of the 64-bit
  runtime (48 address bits).\<close>

definition maxAlloc :: int where "maxAlloc = 2 ^ 48"

text \<open>\<open>io.ReadFull\<close>: no bytes at all is \<open>io.EOF\<close>, too few are \<open>io.ErrUnexpectedEOF\<close>.\<close>

definition ReadFull :: "int \<Rightarrow> string \<Rightarrow> string pres" where
  "ReadFull n s =
     (if n \<le> int (length s) then POk (take (nat n) s) (drop (nat n) s)
      else if s = [] then PErr EOF else PErr UnexpectedEOF)"

definition parseBulkString :: "string \<Rightarrow> string \<Rightarrow> (string \<times> int) pres" where
  "parseBulkString line s =
     (case parseLen line of
        Inl e \<Rightarrow> PErr e
      | Inr n \<Rightarrow>
          if n = -1 then POk ([], n) s
          else if maxAlloc < n then PPanic
          else pbind (ReadFull n s) (\<lambda>data s.
            (case ReadFull 2 s of
               POk _ s \<Rightarrow> POk (data, n) s
             | PErr e \<Rightarrow> if e = EOF then POk (data, n) [] else PErr e
             | _ \<Rightarrow> PPanic)))"

text \<open>The loops of \<open>parseArray\<close> and \<open>parseMap\<close> run \<open>n\<close> times and stop at the first error.\<close>

fun parse_resp :: "nat \<Rightarrow> string \<Rightarrow> resp pres"
  and parse_elems :: "nat \<Rightarrow> int \<Rightarrow> string \<Rightarrow> resp list pres"
  and parse_pairs :: "nat \<Rightarrow> int \<Rightarrow> (string \<times> resp) list \<Rightarrow> string \<Rightarrow> (string \<times> resp) list pres" where
  "parse_resp 0 s = PFuel"
| "parse_resp (Suc f) s =
     pbind (readLine s) (\<lambda>line s.
       (case line of
          [] \<Rightarrow> PErr ErrEmptyLine
        | respType # value \<Rightarrow>
            if is_line_type respType then POk (Resp 0 respType (DBytes value)) s
            else if is_bulk_type respType then
              pbind (parseBulkString line s) (\<lambda>(data, n) s.
                if n \<noteq> -1 \<and> int (length data) \<noteq> n then PErr (ErrIncompleteInput n (int (length data)))
                else POk (Resp n respType (DBytes data)) s)
            else if is_array_type respType then
              (case parseLen line of
                 Inl e \<Rightarrow> PErr e
               | Inr n \<Rightarrow>
                   if n = -1 then POk (Resp n respType (DArr [])) s
                   else if maxAlloc < 8 * n then PPanic
                   else pbind (parse_elems f n s) (\<lambda>arr s.
                     if n \<noteq> int (length arr) then PErr (ErrIncompleteInput n (int (length arr)))
                     else POk (Resp n respType (DArr arr)) s))
            else if is_map_type respType then
              (case parseLen line of
                 Inl e \<Rightarrow> PErr e
               | Inr n \<Rightarrow>
                   if n = -1 then POk (Resp n respType (DMap [])) s
                   else pbind (parse_pairs f n [] s) (\<lambda>m s.
                     if n \<noteq> int (length m) then PErr (ErrIncompleteInput n (int (length m)))
                     else POk (Resp n respType (DMap m)) s))
            else PErr (ErrUnknownType respType)))"
| "parse_elems 0 n s = PFuel"
| "parse_elems (Suc f) n s =
     (if n \<le> 0 then POk [] s
      else pbind (parse_resp f s) (\<lambda>r s. pbind (parse_elems f (n - 1) s) (\<lambda>rs s. POk (r # rs) s)))"
| "parse_pairs 0 n m s = PFuel"
| "parse_pairs (Suc f) n m s =
     (if n \<le> 0 then POk m s
      else pbind (parse_resp f s) (\<lambda>key s. pbind (parse_resp f s) (\<lambda>val s.
        parse_pairs f (n - 1) (map_put m (String key) val) s)))"

definition ParseResp :: "string \<Rightarrow> resp pres" where
  "ParseResp s = parse_resp (length s + 1) s"

section \<open>The serializer\<close>

fun RAW :: "resp \<Rightarrow> string go" where
  "RAW (Resp n t d) =
     (if is_line_type t then Ret (t # Bytes (Resp n t d) @ crlf)
      else if is_bulk_type t then
        (case d of
           DNil \<Rightarrow> Ret (''$-1'' @ crlf)
         | DBytes data \<Rightarrow> Ret (t # Itoa (int (length data)) @ crlf @ data @ crlf)
         | _ \<Rightarrow> Panic)
      else if is_array_type t then
        (case d of
           DNil \<Rightarrow> Ret (''*-1'' @ crlf)
         | DArr elements \<Rightarrow>
             foldl (\<lambda>b elem. case b of Panic \<Rightarrow> Panic | Ret b \<Rightarrow>
                 (case RAW elem of Panic \<Rightarrow> Panic | Ret e \<Rightarrow> Ret (b @ e)))
               (Ret (t # Itoa (int (length elements)) @ crlf)) elements
         | _ \<Rightarrow> Panic)
      else if is_map_type t then
        (case d of
           DNil \<Rightarrow> Ret (''%0'' @ crlf)
         | DMap m \<Rightarrow>
             foldl (\<lambda>b kv. case b of Panic \<Rightarrow> Panic | Ret b \<Rightarrow>
                 (case RAW (snd kv) of Panic \<Rightarrow> Panic | Ret e \<Rightarrow> Ret (b @ ''+'' @ fst kv @ crlf @ e)))
               (Ret (t # Itoa (int (length m)) @ crlf)) m
         | _ \<Rightarrow> Panic)
      else Ret [])"

text \<open>\<open>ToResponse\<close> serializes arrays and maps and then returns the empty slice for them.\<close>

fun ToResponse :: "resp \<Rightarrow> string go" where
  "ToResponse (Resp n t d) =
     (let r = Resp n t d in
      if is_line_type t then Ret (t # Bytes r @ crlf)
      else if t = CHR ''$'' \<or> t = CHR ''='' then Ret (t # Itoa n @ crlf @ Bytes r @ crlf)
      else if t = CHR ''!'' then Ret (t # Itoa n @ crlf @ ''ERR '' @ Bytes r @ crlf)
      else if is_array_type t then
        (case d of DArr rs \<Rightarrow> if list_all (\<lambda>x. ToResponse x \<noteq> Panic) rs then Ret [] else Panic | _ \<Rightarrow> Panic)
      else if is_map_type t then
        (case d of DMap m \<Rightarrow> if list_all (\<lambda>kv. ToResponse (snd kv) \<noteq> Panic) m then Ret [] else Panic | _ \<Rightarrow> Panic)
      else Ret [])"

section \<open>Lines\<close>

lemma readLine_ok: "line \<noteq> [] \<Longrightarrow> LF \<notin> set line \<Longrightarrow> readLine (line @ crlf @ rest) = POk line rest"
proof -
  assume line: "line \<noteq> []" "LF \<notin> set line"
  then have "takeWhile (\<lambda>c. c \<noteq> LF) (line @ crlf @ rest) = line @ [CR]"
    "dropWhile (\<lambda>c. c \<noteq> LF) (line @ crlf @ rest) = LF # rest"
    by (subst takeWhile_append2 dropWhile_append2; auto simp: crlf_def)+
  with line show ?thesis by (auto simp: readLine_def Let_def nth_append Suc_le_eq)
qed

lemma readLine_POkE:
  assumes "readLine s = POk line rest"
  obtains "line \<noteq> []" "LF \<notin> set line" "s = line @ crlf @ rest"
proof -
  obtain c where d: "dropWhile (\<lambda>c. c \<noteq> LF) s = c # rest"
    using assms by (auto simp: readLine_def Let_def split: list.splits if_splits)
  then have [simp]: "c = LF" by (metis (mono_tags) hd_dropWhile list.distinct(1) list.sel(1))
  let ?t = "takeWhile (\<lambda>c. c \<noteq> LF) s"
  have l: "1 < length ?t" "?t ! (length ?t - 1) = CR" and line: "line = take (length ?t - 1) ?t"
    using assms by (auto simp: readLine_def Let_def d nth_append split: if_splits)
  then have t: "?t = line @ [CR]"
    by (metis append_butlast_last_id butlast_conv_take last_conv_nth length_greater_0_conv less_trans zero_less_one)
  have "s = ?t @ dropWhile (\<lambda>c. c \<noteq> LF) s" by simp
  then have "s = line @ crlf @ rest" unfolding d t by (simp add: crlf_def)
  moreover have "LF \<notin> set ?t" by (auto dest: set_takeWhileD)
  then have "LF \<notin> set line" unfolding t by simp
  moreover have "line \<noteq> []" using l(1) t by auto
  ultimately show thesis using that by blast
qed

section \<open>The parser consumes its input\<close>

text \<open>What is left after a read of at least \<open>k\<close> bytes.\<close>

definition reads :: "nat \<Rightarrow> string \<Rightarrow> 'a pres \<Rightarrow> bool" where
  "reads k s p \<longleftrightarrow> (\<forall>x rest. p = POk x rest \<longrightarrow> (\<exists>u. s = u @ rest \<and> k \<le> length u))"

lemma reads_POk: "reads 0 s (POk x s)"
  by (simp add: reads_def)

lemma reads_fail [simp]: "reads k s (PErr e)" "reads k s PPanic" "reads k s PFuel"
  by (simp_all add: reads_def)

lemma reads_bind:
  assumes "reads k s p" and "\<And>x rest. p = POk x rest \<Longrightarrow> reads 0 rest (f x rest)"
  shows "reads k s (pbind p f)"
proof (cases p)
  case (POk x s')
  then obtain u where "s = u @ s'" "k \<le> length u" using assms(1) by (auto simp: reads_def)
  moreover have "reads 0 s' (f x s')" using assms(2) POk by simp
  ultimately show ?thesis unfolding POk reads_def pbind.simps
    by (metis append_assoc length_append trans_le_add1)
qed simp_all

lemma reads_weaken: "reads k s p \<Longrightarrow> reads 0 s p"
  by (auto simp: reads_def)

lemma reads_readLine: "reads 3 s (readLine s)"
  by (auto simp: reads_def crlf_def Suc_le_eq elim!: readLine_POkE)

lemma reads_ReadFull: "0 \<le> n \<Longrightarrow> reads 0 s (ReadFull n s)"
  by (auto simp: reads_def ReadFull_def intro: exI [of _ "take (nat n) s"])

lemma parseLen_ge: "parseLen line = Inr n \<Longrightarrow> -1 \<le> n"
  by (auto simp: parseLen_def split: sum.splits if_splits)

lemma reads_bulk: "reads 0 s (parseBulkString line s)"
proof -
  have "reads 0 s (case ReadFull 2 s of POk _ s \<Rightarrow> POk (data, n) s
      | PErr e \<Rightarrow> if e = EOF then POk (data, n) [] else PErr e | _ \<Rightarrow> PPanic)" for s data and n :: int
    by (auto simp: ReadFull_def reads_def intro: exI [of _ "take 2 s"])
  then show ?thesis
    using parseLen_ge [of line]
    by (auto simp: parseBulkString_def reads_POk split: sum.splits intro!: reads_bind reads_ReadFull)
qed

lemma parse_reads:
  "reads 3 s (parse_resp f s)" "reads 0 s (parse_elems f n s)" "reads 0 s (parse_pairs f n m s)"
proof (induction f arbitrary: s n m)
  case (Suc f)
  {
    case 1
    show ?case unfolding parse_resp.simps
      by (rule reads_bind [OF reads_readLine])
        (auto simp: reads_POk split: list.splits sum.splits intro!: reads_bind reads_bulk Suc(2,3))
  next
    case 2
    show ?case
      by (auto simp: reads_POk intro!: reads_bind Suc(2) reads_weaken [OF Suc(1)])
  next
    case 3
    show ?case
      by (auto simp: reads_POk intro!: reads_bind Suc(3) reads_weaken [OF Suc(1)])
  }
qed simp_all

lemma parse_length:
  "parse_resp f s = POk r rest \<Longrightarrow> length rest + 3 \<le> length s"
  using parse_reads(1) [of s f] by (auto simp: reads_def)

section \<open>Fuel\<close>

lemma pbind_fuel: "pbind p f = PFuel \<longleftrightarrow> p = PFuel \<or> (\<exists>x s. p = POk x s \<and> f x s = PFuel)"
  by (cases p) auto

lemma readLine_no_fuel [simp]: "readLine s \<noteq> PFuel"
  by (auto simp: readLine_def Let_def split: list.splits)

lemma ReadFull_no_fuel [simp]: "ReadFull n s \<noteq> PFuel"
  by (simp add: ReadFull_def)

lemma bulk_no_fuel [simp]: "parseBulkString line s \<noteq> PFuel"
  by (auto simp: parseBulkString_def pbind_fuel split: sum.splits pres.splits if_splits)

lemma readLine_length: "readLine s = POk line rest \<Longrightarrow> length rest + 3 \<le> length s"
  using reads_readLine [of s] by (auto simp: reads_def)

lemma parse_no_fuel:
  "length s < f \<Longrightarrow> parse_resp f s \<noteq> PFuel"
  "length s + 1 < f \<Longrightarrow> parse_elems f n s \<noteq> PFuel"
  "length s + 1 < f \<Longrightarrow> parse_pairs f n m s \<noteq> PFuel"
proof (induction f arbitrary: s n m)
  case (Suc f)
  {
    case 1
    have "parse_elems f n rest \<noteq> PFuel" "parse_pairs f n m rest \<noteq> PFuel" if "readLine s = POk line rest" for n m line rest
      using 1 readLine_length [OF that] by (auto intro!: Suc(2,3))
    then show ?case unfolding parse_resp.simps
      by (auto simp: pbind_fuel split: list.splits sum.splits if_splits)
  next
    case 2
    then show ?case
      using Suc(1) [of s] by (auto simp: pbind_fuel dest!: parse_length intro!: Suc(2))
  next
    case 3
    have "parse_resp f rest \<noteq> PFuel" if "parse_resp f s = POk r rest" for r rest
      using Suc(1) 3 parse_length [OF that] by simp
    with 3 show ?case
      using Suc(1) [of s] by (auto simp: pbind_fuel dest!: parse_length intro!: Suc(3))
  }
qed simp_all

lemma parse_more_fuel:
  "parse_resp f s \<noteq> PFuel \<Longrightarrow> parse_resp (f + k) s = parse_resp f s"
  "parse_elems f n s \<noteq> PFuel \<Longrightarrow> parse_elems (f + k) n s = parse_elems f n s"
  "parse_pairs f n m s \<noteq> PFuel \<Longrightarrow> parse_pairs (f + k) n m s = parse_pairs f n m s"
proof (induction f arbitrary: s n m)
  case (Suc f)
  have cong: "pbind p g = pbind p' g'" if "p = p'" "\<And>x s. p' = POk x s \<Longrightarrow> g x s = g' x s"
    for p p' :: "'a pres" and g g' :: "'a \<Rightarrow> string \<Rightarrow> 'b pres"
    using that by (cases p') auto
  {
    case 1
    then show ?case unfolding add_Suc parse_resp.simps
      by (intro cong refl) (auto simp: pbind_fuel Suc(2,3) split: list.splits sum.splits if_splits intro!: cong)
  next
    case 2
    then show ?case
      by (auto simp: pbind_fuel Suc(1,2) intro!: cong)
  next
    case 3
    then show ?case
      by (auto simp: pbind_fuel Suc(1,3) intro!: cong)
  }
qed simp_all

section \<open>The parser without fuel\<close>

definition ParseElems :: "int \<Rightarrow> string \<Rightarrow> resp list pres" where
  "ParseElems n s = parse_elems (length s + 2) n s"

definition ParsePairs :: "int \<Rightarrow> (string \<times> resp) list \<Rightarrow> string \<Rightarrow> (string \<times> resp) list pres" where
  "ParsePairs n m s = parse_pairs (length s + 2) n m s"

declare parse_resp.simps [simp del] parse_elems.simps [simp del] parse_pairs.simps [simp del]

lemma parse_enough:
  "length s < f \<Longrightarrow> parse_resp f s = ParseResp s"
  "length s + 1 < f \<Longrightarrow> parse_elems f n s = ParseElems n s"
  "length s + 1 < f \<Longrightarrow> parse_pairs f n m s = ParsePairs n m s"
proof -
  have f: "f = k + (f - k)" if "k \<le> f" for k using that by simp
  show "parse_resp f s = ParseResp s" if "length s < f"
    unfolding ParseResp_def using that
    by (subst f [of "length s + 1"], simp) (rule parse_more_fuel(1), simp add: parse_no_fuel(1))
  show "parse_elems f n s = ParseElems n s" if "length s + 1 < f"
    unfolding ParseElems_def using that
    by (subst f [of "length s + 2"], simp) (rule parse_more_fuel(2), simp add: parse_no_fuel(2))
  show "parse_pairs f n m s = ParsePairs n m s" if "length s + 1 < f"
    unfolding ParsePairs_def using that
    by (subst f [of "length s + 2"], simp) (rule parse_more_fuel(3), simp add: parse_no_fuel(3))
qed

lemma ParseResp_no_fuel: "ParseResp s \<noteq> PFuel"
  by (simp add: ParseResp_def parse_no_fuel)

lemma ParseElems_simps:
  "n \<le> 0 \<Longrightarrow> ParseElems n s = POk [] s"
  "0 < n \<Longrightarrow> ParseElems n s =
     pbind (ParseResp s) (\<lambda>r s. pbind (ParseElems (n - 1) s) (\<lambda>rs s. POk (r # rs) s))"
proof -
  have s: "length s + 2 = Suc (length s + 1)" by simp
  show "ParseElems n s = POk [] s" if "n \<le> 0"
    unfolding ParseElems_def s using that by (simp add: parse_elems.simps)
  show "ParseElems n s = pbind (ParseResp s) (\<lambda>r s. pbind (ParseElems (n - 1) s) (\<lambda>rs s. POk (r # rs) s))"
    if "0 < n"
  proof (cases "ParseResp s")
    case (POk r rest)
    then have "length rest + 3 \<le> length s" by (auto simp: ParseResp_def dest: parse_length)
    then have "parse_elems (length s + 1) (n - 1) rest = ParseElems (n - 1) rest" by (intro parse_enough) simp
    moreover have "parse_resp (length s + 1) s = POk r rest" using POk by (simp add: ParseResp_def)
    ultimately show ?thesis
      unfolding ParseElems_def [of n] s using that POk by (simp add: parse_elems.simps)
  qed (use that in \<open>simp_all add: ParseElems_def [of n] s ParseResp_def parse_elems.simps\<close>)
qed

lemma ParsePairs_simps:
  "n \<le> 0 \<Longrightarrow> ParsePairs n m s = POk m s"
  "0 < n \<Longrightarrow> ParsePairs n m s =
     pbind (ParseResp s) (\<lambda>key s. pbind (ParseResp s) (\<lambda>val s. ParsePairs (n - 1) (map_put m (String key) val) s))"
proof -
  have s: "length s + 2 = Suc (length s + 1)" by simp
  show "ParsePairs n m s = POk m s" if "n \<le> 0"
    unfolding ParsePairs_def s using that by (simp add: parse_pairs.simps)
  show "ParsePairs n m s =
     pbind (ParseResp s) (\<lambda>key s. pbind (ParseResp s) (\<lambda>val s. ParsePairs (n - 1) (map_put m (String key) val) s))"
    if "0 < n"
  proof (cases "ParseResp s")
    case (POk r rest)
    then have l: "length rest + 3 \<le> length s" by (auto simp: ParseResp_def dest: parse_length)
    then have p: "parse_resp (length s + 1) rest = ParseResp rest" by (intro parse_enough) simp
    have "parse_pairs (length s + 1) (n - 1) m' rest' = ParsePairs (n - 1) m' rest'"
      if "ParseResp rest = POk r' rest'" for m' r' rest'
      using that l by (intro parse_enough) (auto simp: ParseResp_def dest: parse_length)
    moreover have "parse_resp (length s + 1) s = POk r rest" using POk by (simp add: ParseResp_def)
    ultimately show ?thesis
      unfolding ParsePairs_def [of n] s using that POk p
      by (cases "ParseResp rest") (simp_all add: parse_pairs.simps)
  qed (use that in \<open>simp_all add: ParsePairs_def [of n] s ParseResp_def parse_pairs.simps\<close>)
qed

lemma parse_line:
  "readLine s = POk line rest \<Longrightarrow> line = t # value \<Longrightarrow> is_line_type t \<Longrightarrow>
   ParseResp s = POk (Resp 0 t (DBytes value)) rest"
  by (simp add: ParseResp_def parse_resp.simps)

lemma types_exclusive [simp]:
  "is_bulk_type t \<Longrightarrow> \<not> is_line_type t" "is_array_type t \<Longrightarrow> \<not> is_line_type t"
  "is_map_type t \<Longrightarrow> \<not> is_line_type t" "is_array_type t \<Longrightarrow> \<not> is_bulk_type t"
  "is_map_type t \<Longrightarrow> \<not> is_bulk_type t" "is_map_type t \<Longrightarrow> \<not> is_array_type t"
  by (auto simp: is_line_type_def is_bulk_type_def is_array_type_def is_map_type_def)

lemma parse_bulk:
  assumes "readLine s = POk line rest" and "line = t # value" and "is_bulk_type t"
  shows "ParseResp s = pbind (parseBulkString line rest) (\<lambda>(data, n) s. POk (Resp n t (DBytes data)) s)"
proof -
  have "int (length data) = n" if "parseBulkString line rest = POk (data, n) s'" "n \<noteq> -1" for data n s'
    using that parseLen_ge [of line]
    by (auto simp: parseBulkString_def ReadFull_def split: sum.splits if_splits pres.splits)
  then have "(case x of (data, n) \<Rightarrow> if n \<noteq> -1 \<and> int (length data) \<noteq> n then PErr (ErrIncompleteInput n (int (length data)))
      else POk (Resp n t (DBytes data)) s') = (case x of (data, n) \<Rightarrow> POk (Resp n t (DBytes data)) s')"
    if "parseBulkString line rest = POk x s'" for x s'
    using that by (cases x) auto
  then show ?thesis
    using assms by (cases "parseBulkString line rest") (auto simp: ParseResp_def parse_resp.simps)
qed

lemma parse_array:
  assumes "readLine s = POk line rest" and "line = t # value" and "is_array_type t"
    and "parseLen line = Inr n" and "n \<noteq> -1" and "8 * n \<le> maxAlloc"
  shows "ParseResp s = pbind (ParseElems n rest) (\<lambda>arr s.
    if n \<noteq> int (length arr) then PErr (ErrIncompleteInput n (int (length arr))) else POk (Resp n t (DArr arr)) s)"
proof -
  have "parse_elems (length s) n rest = ParseElems n rest"
    using readLine_length [OF assms(1)] by (intro parse_enough) simp
  with assms show ?thesis by (simp add: ParseResp_def parse_resp.simps)
qed

lemma parse_map:
  assumes "readLine s = POk line rest" and "line = t # value" and "is_map_type t"
    and "parseLen line = Inr n" and "n \<noteq> -1"
  shows "ParseResp s = pbind (ParsePairs n [] rest) (\<lambda>m s.
    if n \<noteq> int (length m) then PErr (ErrIncompleteInput n (int (length m))) else POk (Resp n t (DMap m)) s)"
proof -
  have "parse_pairs (length s) n [] rest = ParsePairs n [] rest"
    using readLine_length [OF assms(1)] by (intro parse_enough) simp
  with assms show ?thesis by (simp add: ParseResp_def parse_resp.simps)
qed

section \<open>Round trip\<close>

text \<open>The values \<open>RAW\<close> writes back as they were read: a line holds no line feed, the recorded
  length is that of the data and within what \<open>make\<close> accepts, and map keys are distinct.\<close>

fun wf_resp :: "resp \<Rightarrow> bool" where
  "wf_resp (Resp n t DNil) = False"
| "wf_resp (Resp n t (DBytes b)) =
     (if is_line_type t then n = 0 \<and> LF \<notin> set b
      else is_bulk_type t \<and> n = int (length b) \<and> n \<le> maxAlloc)"
| "wf_resp (Resp n t (DArr rs)) =
     (is_array_type t \<and> n = int (length rs) \<and> 8 * n \<le> maxAlloc \<and> (\<forall>r \<in> set rs. wf_resp r))"
| "wf_resp (Resp n t (DMap m)) =
     (is_map_type t \<and> n = int (length m) \<and> in_i64 n \<and> distinct (map fst m) \<and>
      (\<forall>kv \<in> set m. LF \<notin> set (fst kv) \<and> wf_resp (snd kv)))"

fun raw :: "resp \<Rightarrow> string" where
  "raw (Resp n t DNil) = []"
| "raw (Resp n t (DBytes b)) =
     (if is_line_type t then t # b @ crlf else t # Itoa (int (length b)) @ crlf @ b @ crlf)"
| "raw (Resp n t (DArr rs)) = t # Itoa (int (length rs)) @ crlf @ concat (map raw rs)"
| "raw (Resp n t (DMap m)) =
     t # Itoa (int (length m)) @ crlf @ concat (map (\<lambda>kv. ''+'' @ fst kv @ crlf @ raw (snd kv)) m)"

text \<open>\<open>readLine\<close> returns a slice of the buffer of \<open>bufio.Reader\<close>, and a value of a line type keeps it as
  its data (\<open>line[1:]\<close>), where \<open>ParseResp\<close> copies. The two agree until the reader fills its buffer
  again: a later element of the same aggregate may then overwrite the data of an earlier line.
  Both callers of the parser read from a \<open>bytes.Reader\<close>, so the first fill has every byte up to
  \<open>bufio_size\<close>. A value is \<open>buffer_safe\<close> if its bytes fit into this fill, or it is a single line
  (a longer one is copied), or only bulk strings, which the parser copies, occur in it. The keys of
  a map are written as lines, and each is turned into a string after its value was read.\<close>

definition bufio_size :: nat where
  "bufio_size = 4096"

fun bulk_only :: "resp \<Rightarrow> bool" where
  "bulk_only (Resp n t DNil) = True"
| "bulk_only (Resp n t (DBytes b)) = is_bulk_type t"
| "bulk_only (Resp n t (DArr rs)) = (\<forall>r \<in> set rs. bulk_only r)"
| "bulk_only (Resp n t (DMap m)) = (m = [])"

definition buffer_safe :: "resp \<Rightarrow> bool" where
  "buffer_safe r \<longleftrightarrow> length (raw r) \<le> bufio_size \<or> is_line_type (Type r) \<or> bulk_only r"

lemma RAW_foldl:
  "(\<And>x. x \<in> set xs \<Longrightarrow> F x = Ret (g x)) \<Longrightarrow>
   foldl (\<lambda>b x. case b of Panic \<Rightarrow> Panic | Ret b \<Rightarrow> (case F x of Panic \<Rightarrow> Panic | Ret e \<Rightarrow> Ret (b @ h x e))) (Ret a) xs
     = Ret (a @ concat (map (\<lambda>x. h x (g x)) xs))"
  by (induction xs arbitrary: a) auto

lemma RAW_raw: "wf_resp r \<Longrightarrow> RAW r = Ret (raw r)"
proof (induction r rule: raw.induct)
  case (3 n t rs)
  then show ?case using RAW_foldl [of rs RAW raw "\<lambda>x e. e"] by simp
next
  case (4 n t m)
  then have "RAW (snd kv) = Ret (raw (snd kv))" if "kv \<in> set m" for kv
    using that by (cases kv) auto
  with 4 show ?case
    using RAW_foldl [of m "\<lambda>kv. RAW (snd kv)" "\<lambda>kv. raw (snd kv)" "\<lambda>kv e. ''+'' @ fst kv @ crlf @ e"] by simp
qed (auto split: if_splits)

lemma parseLen_Itoa: "in_i64 n \<Longrightarrow> -1 \<le> n \<Longrightarrow> parseLen (t # Itoa n) = Inr n"
  by (simp add: parseLen_def Atoi_FormatInt)

lemma readLine_len:
  "t \<noteq> LF \<Longrightarrow> readLine (t # Itoa n @ crlf @ rest) = POk (t # Itoa n) rest"
  using readLine_ok [of "t # Itoa n" rest] by auto

lemma type_not_LF [simp]:
  "is_line_type t \<Longrightarrow> t \<noteq> LF" "is_bulk_type t \<Longrightarrow> t \<noteq> LF" "is_array_type t \<Longrightarrow> t \<noteq> LF" "is_map_type t \<Longrightarrow> t \<noteq> LF"
  by (auto simp: is_line_type_def is_bulk_type_def is_array_type_def is_map_type_def)

lemma parse_raw_line:
  "is_line_type t \<Longrightarrow> LF \<notin> set b \<Longrightarrow> ParseResp (t # b @ crlf @ rest) = POk (Resp 0 t (DBytes b)) rest"
  using readLine_ok [of "t # b" rest] type_not_LF(1) [of t] by (metis append_Cons list.distinct(1) parse_line set_ConsD)

lemma ReadFull_append [simp]: "ReadFull (int (length b)) (b @ rest) = POk b rest"
  by (simp add: ReadFull_def)

lemma ReadFull_crlf [simp]: "ReadFull 2 (crlf @ rest) = POk crlf rest"
  by (simp add: ReadFull_def crlf_def)

lemma parse_raw_bulk:
  assumes "is_bulk_type t" and "int (length b) \<le> maxAlloc"
  shows "ParseResp (t # Itoa (int (length b)) @ crlf @ b @ crlf @ rest) = POk (Resp (int (length b)) t (DBytes b)) rest"
proof -
  have "in_i64 (int (length b))" using assms(2) by (simp add: in_i64_def maxAlloc_def)
  then have "parseBulkString (t # Itoa (int (length b))) (b @ crlf @ rest) = POk (b, int (length b)) rest"
    using assms(2) by (simp add: parseBulkString_def parseLen_Itoa)
  then show ?thesis
    by (subst parse_bulk [OF readLine_len refl]) (simp_all add: assms)
qed

lemma ParseElems_concat:
  "(\<And>r rest. r \<in> set rs \<Longrightarrow> ParseResp (raw r @ rest) = POk r rest) \<Longrightarrow>
   ParseElems (int (length rs)) (concat (map raw rs) @ rest) = POk rs rest"
  by (induction rs) (simp_all add: ParseElems_simps)

lemma ParsePairs_concat:
  "(\<And>kv rest. kv \<in> set m \<Longrightarrow> LF \<notin> set (fst kv) \<and> ParseResp (raw (snd kv) @ rest) = POk (snd kv) rest) \<Longrightarrow>
   distinct (map fst (acc @ m)) \<Longrightarrow>
   ParsePairs (int (length m)) acc (concat (map (\<lambda>kv. ''+'' @ fst kv @ crlf @ raw (snd kv)) m) @ rest) = POk (acc @ m) rest"
proof (induction m arbitrary: acc)
  case (Cons kv m)
  obtain k v where kv: "kv = (k, v)" by (cases kv)
  have "is_line_type (CHR ''+'')" by (simp add: is_line_type_def)
  note key = parse_raw_line [OF this]
  have "map_put acc k v = acc @ [(k, v)]" using Cons.prems(2) kv by (intro map_put_new) auto
  moreover have "LF \<notin> set k" "ParseResp (raw v @ x) = POk v x" for x using Cons.prems(1) [of kv] kv by auto
  ultimately show ?case using Cons.IH [of "acc @ [(k, v)]"] Cons.prems
    by (simp add: ParsePairs_simps key kv)
qed (simp add: ParsePairs_simps)

lemma parse_raw: "wf_resp r \<Longrightarrow> ParseResp (raw r @ rest) = POk r rest"
proof (induction r arbitrary: rest rule: raw.induct)
  case (2 n t b)
  then show ?case by (auto simp: parse_raw_line parse_raw_bulk split: if_splits)
next
  case (3 n t rs)
  then have "ParseElems (int (length rs)) (concat (map raw rs) @ rest) = POk rs rest"
    by (intro ParseElems_concat) auto
  moreover have "in_i64 (int (length rs))" using 3(2) by (simp add: in_i64_def maxAlloc_def)
  ultimately show ?case using 3(2)
    by (simp add: parse_array [OF readLine_len refl] parseLen_Itoa)
next
  case (4 n t m)
  then have "ParsePairs (int (length m)) [] (concat (map (\<lambda>kv. ''+'' @ fst kv @ crlf @ raw (snd kv)) m) @ rest) = POk ([] @ m) rest"
    by (intro ParsePairs_concat) auto
  moreover have t: "is_map_type t" "t \<noteq> LF" "parseLen (t # Itoa (int (length m))) = Inr (int (length m))"
    using 4(2) by (auto simp: parseLen_Itoa)
  ultimately show ?case using 4(2)
    by (simp add: parse_map [OF readLine_len [OF t(2)] refl t(1,3)])
qed simp

section \<open>What the parser returns\<close>

text \<open>The dynamic type of the data follows the type byte, and the length is that of the data or
  -1 for a null.\<close>

fun typed_resp :: "resp \<Rightarrow> bool" where
  "typed_resp (Resp n t DNil) = False"
| "typed_resp (Resp n t (DBytes b)) =
     (if is_line_type t then n = 0 \<and> LF \<notin> set b
      else is_bulk_type t \<and> (n = int (length b) \<and> n \<le> maxAlloc \<or> n = -1 \<and> b = []))"
| "typed_resp (Resp n t (DArr rs)) =
     (is_array_type t \<and> (n = int (length rs) \<and> 8 * n \<le> maxAlloc \<or> n = -1 \<and> rs = []) \<and> (\<forall>r \<in> set rs. typed_resp r))"
| "typed_resp (Resp n t (DMap m)) =
     (is_map_type t \<and> (n = int (length m) \<and> in_i64 n \<or> n = -1 \<and> m = []) \<and> distinct (map fst m) \<and>
      (\<forall>kv \<in> set m. typed_resp (snd kv)))"

fun yields :: "('a \<Rightarrow> bool) \<Rightarrow> 'a pres \<Rightarrow> bool" where
  "yields P (POk x s) = P x"
| "yields P _ = True"

lemma yields_bind: "yields P p \<Longrightarrow> (\<And>x s. p = POk x s \<Longrightarrow> P x \<Longrightarrow> yields Q (f x s)) \<Longrightarrow> yields Q (pbind p f)"
  by (cases p) auto

lemma parseLen_range: "parseLen line = Inr n \<Longrightarrow> in_i64 n"
  by (auto simp: parseLen_def split: sum.splits if_splits dest: Atoi_range)

lemma yields_bulk:
  "yields (\<lambda>(data, n). n = int (length data) \<and> n \<le> maxAlloc \<or> n = -1 \<and> data = []) (parseBulkString line s)"
  using parseLen_ge [of line] by (auto simp: parseBulkString_def ReadFull_def split: sum.splits pres.splits)

lemma yields_readLine: "yields (\<lambda>line. LF \<notin> set line) (readLine s)"
  by (cases "readLine s") (auto elim: readLine_POkE)

lemma parse_typed_fuel:
  "yields typed_resp (parse_resp f s)"
  "yields (\<lambda>rs. \<forall>r \<in> set rs. typed_resp r) (parse_elems f n s)"
  "distinct (map fst m) \<Longrightarrow> \<forall>kv \<in> set m. typed_resp (snd kv) \<Longrightarrow>
   yields (\<lambda>m. distinct (map fst m) \<and> (\<forall>kv \<in> set m. typed_resp (snd kv))) (parse_pairs f n m s)"
proof (induction f arbitrary: s n m)
  case (Suc f)
  {
    case 1
    show ?case unfolding parse_resp.simps
    proof (rule yields_bind [OF yields_readLine])
      fix line rest
      assume line: "LF \<notin> set line"
      have arr: "yields typed_resp (pbind (parse_elems f n rest) (\<lambda>arr s.
          if n \<noteq> int (length arr) then PErr (ErrIncompleteInput n (int (length arr))) else POk (Resp n t (DArr arr)) s))"
        if "is_array_type t" "8 * n \<le> maxAlloc" for n t
        by (rule yields_bind [OF Suc(2)]) (use that in auto)
      have mp: "yields typed_resp (pbind (parse_pairs f n [] rest) (\<lambda>m s.
          if n \<noteq> int (length m) then PErr (ErrIncompleteInput n (int (length m))) else POk (Resp n t (DMap m)) s))"
        if "is_map_type t" "in_i64 n" for n t
        by (rule yields_bind [OF Suc(3)]) (use that in auto)
      have blk: "yields typed_resp (pbind (parseBulkString (t # vs) rest) (\<lambda>(data, n) s.
          if n \<noteq> -1 \<and> int (length data) \<noteq> n then PErr (ErrIncompleteInput n (int (length data)))
          else POk (Resp n t (DBytes data)) s))" if "is_bulk_type t" for t vs
        by (rule yields_bind [OF yields_bulk]) (use that in auto)
      show "yields typed_resp (case line of [] \<Rightarrow> PErr ErrEmptyLine | respType # value \<Rightarrow>
            if is_line_type respType then POk (Resp 0 respType (DBytes value)) rest
            else if is_bulk_type respType then
              pbind (parseBulkString line rest) (\<lambda>(data, n) s.
                if n \<noteq> -1 \<and> int (length data) \<noteq> n then PErr (ErrIncompleteInput n (int (length data)))
                else POk (Resp n respType (DBytes data)) s)
            else if is_array_type respType then
              (case parseLen line of Inl e \<Rightarrow> PErr e | Inr n \<Rightarrow>
                   if n = -1 then POk (Resp n respType (DArr [])) rest
                   else if maxAlloc < 8 * n then PPanic
                   else pbind (parse_elems f n rest) (\<lambda>arr s.
                     if n \<noteq> int (length arr) then PErr (ErrIncompleteInput n (int (length arr)))
                     else POk (Resp n respType (DArr arr)) s))
            else if is_map_type respType then
              (case parseLen line of Inl e \<Rightarrow> PErr e | Inr n \<Rightarrow>
                   if n = -1 then POk (Resp n respType (DMap [])) rest
                   else pbind (parse_pairs f n [] rest) (\<lambda>m s.
                     if n \<noteq> int (length m) then PErr (ErrIncompleteInput n (int (length m)))
                     else POk (Resp n respType (DMap m)) s))
            else PErr (ErrUnknownType respType))"
        using line by (auto simp: arr mp blk dest: parseLen_range split: list.splits sum.splits)
    qed
  next
    case 2
    show ?case unfolding parse_elems.simps
      by (auto intro!: yields_bind [OF Suc(1)] yields_bind [OF Suc(2)])
  next
    case 3
    have "yields (\<lambda>m. distinct (map fst m) \<and> (\<forall>kv \<in> set m. typed_resp (snd kv)))
        (parse_pairs f (n - 1) (map_put m k v) rest)" if "typed_resp v" for k v rest
      using 3 that map_put_set [of m k v] by (intro Suc(3) map_put_distinct) auto
    with 3 show ?case unfolding parse_pairs.simps
      by (auto intro!: yields_bind [OF Suc(1)])
  }
qed (simp_all add: parse_resp.simps parse_elems.simps parse_pairs.simps)

lemma parse_typed: "ParseResp s = POk r rest \<Longrightarrow> typed_resp r"
  using parse_typed_fuel(1) [of "length s + 1" s] by (simp add: ParseResp_def)

lemma RAW_foldl_total:
  "(\<And>x. x \<in> set xs \<Longrightarrow> F x \<noteq> Panic) \<Longrightarrow>
   foldl (\<lambda>b x. case b of Panic \<Rightarrow> Panic | Ret b \<Rightarrow> (case F x of Panic \<Rightarrow> Panic | Ret e \<Rightarrow> Ret (h b x e))) (Ret a) xs \<noteq> Panic"
proof (induction xs arbitrary: a)
  case (Cons x xs)
  obtain e where "F x = Ret e" using Cons.prems by (cases "F x") auto
  with Cons show ?case by simp
qed simp

lemma RAW_total: "typed_resp r \<Longrightarrow> RAW r \<noteq> Panic"
proof (induction r rule: raw.induct)
  case (3 n t rs)
  then show ?case using RAW_foldl_total [of rs RAW "\<lambda>b x e. b @ e"] by simp
next
  case (4 n t m)
  then have "RAW (snd kv) \<noteq> Panic" if "kv \<in> set m" for kv using that by (cases kv) auto
  with 4 show ?case
    using RAW_foldl_total [of m "\<lambda>kv. RAW (snd kv)" "\<lambda>b kv e. b @ ''+'' @ fst kv @ crlf @ e"] by simp
qed (auto split: if_splits)

end
