(* ===== verification/Resp_Writer.thy ===== *)
theory Resp_Writer
  imports Resp
begin

text \<open>
  \<open>pkg/resp/writer.go\<close> and \<open>pkg/resp/command.go\<close>: the encoder of replies for both protocol
  versions, and the commands a replica sends.

  The bytes handed to the underlying \<open>bufio.Writer\<close> or \<open>bytes.Buffer\<close> are the field
  \<open>written\<close>; the model covers the case in which the underlying writer accepts them, so the
  only errors are those of the values themselves. The scratch slices \<open>lenBuf\<close> and \<open>numBuf\<close>
  are overwritten by every use and are not part of the state. A value that the standard
  library formats on its own (a float, a time, an IP address, a \<open>BinaryMarshaler\<close>, anything
  that goes to \<open>encoding/json\<close>) is represented by the text, or the error, that formatting
  returns. A pointer is represented by what it points to.
\<close>

section \<open>The writer\<close>

record writer =
  respVersion :: int
  written :: string

definition RESP2 :: int where "RESP2 = 2"
definition RESP3 :: int where "RESP3 = 3"

definition NewWriter :: "int \<Rightarrow> writer" where
  "NewWriter version = \<lparr>respVersion = version, written = []\<rparr>"

definition SetVersion :: "int \<Rightarrow> writer \<Rightarrow> writer" where
  "SetVersion version w = w\<lparr>respVersion := version\<rparr>"

text \<open>\<open>Write\<close>, \<open>WriteByte\<close>\<close>

definition emit :: "string \<Rightarrow> writer \<Rightarrow> writer" where
  "emit b w = w\<lparr>written := written w @ b\<rparr>"

text \<open>\<open>bufio.Writer.Reset\<close> with the writer itself as the new target does nothing, so the bytes
  already buffered stay.\<close>

definition Reset :: "writer \<Rightarrow> writer" where
  "Reset w = w"

text \<open>\<open>Flush\<close> hands the buffered bytes to the connection.\<close>

definition Flush :: "writer \<Rightarrow> string \<times> writer" where
  "Flush w = (written w, w\<lparr>written := []\<rparr>)"

section \<open>Scalars\<close>

definition writeCLRF :: "writer \<Rightarrow> writer" where
  "writeCLRF w = emit [LF] (emit [CR] w)"

definition writeLen :: "int \<Rightarrow> writer \<Rightarrow> writer" where
  "writeLen n w = emit (Itoa n @ [CR, LF]) w"

definition WriteSimpleValue :: "char \<Rightarrow> string \<Rightarrow> writer \<Rightarrow> writer" where
  "WriteSimpleValue valType b w = writeCLRF (emit b (emit [valType] w))"

definition writeBytesWithType :: "char \<Rightarrow> string \<Rightarrow> writer \<Rightarrow> writer" where
  "writeBytesWithType valType b w = writeCLRF (emit b (writeLen (int (length b)) (emit [valType] w)))"

definition WriteString :: "string \<Rightarrow> writer \<Rightarrow> writer" where
  "WriteString s w = writeBytesWithType (CHR ''$'') s w"

definition WriteBytes :: "string \<Rightarrow> writer \<Rightarrow> writer" where
  "WriteBytes b w = writeBytesWithType (CHR ''$'') b w"

definition writeInt :: "int \<Rightarrow> writer \<Rightarrow> writer" where
  "writeInt n w = WriteSimpleValue (CHR '':'') (FormatInt n) w"

definition WriteInteger :: "int \<Rightarrow> writer \<Rightarrow> writer" where
  "WriteInteger n w = writeInt n w"

definition writeUint :: "64 word \<Rightarrow> writer \<Rightarrow> writer" where
  "writeUint n w = WriteSimpleValue (CHR '':'') (FormatUint n) w"

definition writeFloat :: "string \<Rightarrow> writer \<Rightarrow> writer" where
  "writeFloat txt w = WriteSimpleValue (CHR '','') txt w"

definition writeResp2Float :: "string \<Rightarrow> writer \<Rightarrow> writer" where
  "writeResp2Float txt w = writeBytesWithType (CHR ''$'') txt w"

definition WriteNull :: "char \<Rightarrow> writer \<Rightarrow> writer" where
  "WriteNull valType w =
     (if respVersion w = RESP2 then writeLen (-1) (emit [valType] w)
      else WriteSimpleValue (CHR ''_'') [] w)"

section \<open>Values\<close>

datatype scalar =
    GNil
  | GString string
  | GBytes string
  | GInt int
  | GUint "64 word"
  | GFloat string
  | GBool bool
  | GTime string
  | GDuration int
  | GMarshaler "string + string"
  | GIP string
  | GError string
  | GVersion int
  | GOther "string + string"

datatype goval = GScalar scalar | GSlice "goval list"

text \<open>The result of a write: the writer and the error, if any.\<close>

type_synonym wres = "writer \<times> string option"

text \<open>What is not in the list goes to a JSON encoder that writes to the connection itself; the
  empty \<open>rawMessage\<close> follows as a bulk string.\<close>

definition write_json :: "string + string \<Rightarrow> writer \<Rightarrow> wres" where
  "write_json j w = (case j of
       Inl e \<Rightarrow> (w, Some (''failed to encode value: '' @ e))
     | Inr txt \<Rightarrow> (writeBytesWithType (CHR ''$'') [] (emit txt w), None))"

fun writeResp2Value :: "scalar \<Rightarrow> writer \<Rightarrow> wres" where
  "writeResp2Value GNil w = (WriteString [] w, None)"
| "writeResp2Value (GString s) w = (WriteString s w, None)"
| "writeResp2Value (GBytes b) w = (writeBytesWithType (CHR ''$'') b w, None)"
| "writeResp2Value (GInt i) w = (writeInt i w, None)"
| "writeResp2Value (GUint u) w = (writeUint u w, None)"
| "writeResp2Value (GFloat txt) w = (writeResp2Float txt w, None)"
| "writeResp2Value (GBool v) w = (if v then (WriteString ''1'' w, None) else (WriteString ''0'' w, None))"
| "writeResp2Value (GTime txt) w = (writeBytesWithType (CHR ''$'') txt w, None)"
| "writeResp2Value (GDuration ns) w = (writeInt ns w, None)"
| "writeResp2Value (GMarshaler (Inl e)) w = (w, Some e)"
| "writeResp2Value (GMarshaler (Inr b)) w = (writeBytesWithType (CHR ''$'') b w, None)"
| "writeResp2Value (GIP txt) w = (WriteString txt w, None)"
| "writeResp2Value (GError msg) w = (WriteSimpleValue (CHR ''-'') msg w, None)"
| "writeResp2Value (GVersion v) w = (writeInt v w, None)"
| "writeResp2Value (GOther j) w = write_json j w"

fun writeResp3Value :: "scalar \<Rightarrow> writer \<Rightarrow> wres" where
  "writeResp3Value GNil w = (WriteSimpleValue (CHR ''_'') [] w, None)"
| "writeResp3Value (GBytes b) w = (writeBytesWithType (CHR ''$'') b w, None)"
| "writeResp3Value (GString s) w = (WriteString s w, None)"
| "writeResp3Value (GInt i) w = (writeInt i w, None)"
| "writeResp3Value (GUint u) w = (writeUint u w, None)"
| "writeResp3Value (GFloat txt) w = (writeFloat txt w, None)"
| "writeResp3Value (GBool v) w =
     (if v then (WriteSimpleValue (CHR ''#'') ''t'' w, None) else (WriteSimpleValue (CHR ''#'') ''f'' w, None))"
| "writeResp3Value (GTime txt) w = (writeBytesWithType (CHR ''$'') txt w, None)"
| "writeResp3Value (GDuration ns) w = (writeInt ns w, None)"
| "writeResp3Value (GMarshaler (Inl e)) w = (w, Some e)"
| "writeResp3Value (GMarshaler (Inr b)) w = (writeBytesWithType (CHR ''$'') b w, None)"
| "writeResp3Value (GIP txt) w = (WriteString txt w, None)"
| "writeResp3Value (GError msg) w = (writeBytesWithType (CHR ''!'') msg w, None)"
| "writeResp3Value (GVersion v) w = (writeInt v w, None)"
| "writeResp3Value (GOther j) w = write_json j w"

text \<open>A loop of writes that returns at the first error.\<close>

fun write_all :: "(writer \<Rightarrow> wres) list \<Rightarrow> writer \<Rightarrow> wres" where
  "write_all [] w = (w, None)"
| "write_all (f # fs) w = (case f w of (w, Some e) \<Rightarrow> (w, Some e) | (w, None) \<Rightarrow> write_all fs w)"

text \<open>\<open>WriteValue\<close>, with \<open>WriteSlice\<close> for the slices it meets.\<close>

fun WriteValue :: "goval \<Rightarrow> writer \<Rightarrow> wres" where
  "WriteValue (GScalar v) = (\<lambda>w. if respVersion w = RESP2 then writeResp2Value v w else writeResp3Value v w)"
| "WriteValue (GSlice vs) = (\<lambda>w. write_all (map WriteValue vs) (writeLen (int (length vs)) (emit ''*'' w)))"

definition WriteSlice :: "goval list \<Rightarrow> writer \<Rightarrow> wres" where
  "WriteSlice vs w = write_all (map WriteValue vs) (writeLen (int (length vs)) (emit ''*'' w))"

definition WriteError :: "string \<Rightarrow> writer \<Rightarrow> wres" where
  "WriteError err w = WriteValue (GScalar (GError err)) w"

definition WriteStringSlice :: "string list \<Rightarrow> writer \<Rightarrow> writer" where
  "WriteStringSlice v w = fold WriteString v (writeLen (int (length v)) (emit ''*'' w))"

definition write_pair :: "string \<Rightarrow> goval \<Rightarrow> writer \<Rightarrow> wres" where
  "write_pair k v w = WriteValue v (writeBytesWithType (CHR ''$'') k w)"

definition WriteMap :: "(string \<times> goval) list \<Rightarrow> writer \<Rightarrow> wres" where
  "WriteMap m w = write_all (map (\<lambda>(k, v). write_pair k v) m) (writeLen (int (length m)) (emit ''%'' w))"

definition WriteMapOrdered :: "(string \<times> goval) list \<Rightarrow> string list \<Rightarrow> writer \<Rightarrow> wres" where
  "WriteMapOrdered m orderedKeys w =
     write_all (map (\<lambda>k. case map_of m k of None \<Rightarrow> (\<lambda>w. (w, None)) | Some v \<Rightarrow> write_pair k v) orderedKeys)
       (writeLen (int (length m)) (emit ''%'' w))"

section \<open>Commands\<close>

definition CreateCommand :: "string list \<Rightarrow> string" where
  "CreateCommand args = written (WriteStringSlice args (NewWriter RESP3))"

definition CreatePingCommand :: string where
  "CreatePingCommand = CreateCommand [''PING'']"

definition CreateReplconfCommand :: "string list \<Rightarrow> string" where
  "CreateReplconfCommand args = CreateCommand (''REPLCONF'' # args)"

definition CreatePsyncCommand :: "string \<Rightarrow> string \<Rightarrow> string" where
  "CreatePsyncCommand replicationID offset = CreateCommand [''PSYNC'', replicationID, offset]"

section \<open>What a reader gets\<close>

definition bulk :: "string \<Rightarrow> resp" where
  "bulk s = Resp (int (length s)) (CHR ''$'') (DBytes s)"

definition line_resp :: "char \<Rightarrow> string \<Rightarrow> resp" where
  "line_resp t s = Resp 0 t (DBytes s)"

definition array_resp :: "resp list \<Rightarrow> resp" where
  "array_resp rs = Resp (int (length rs)) (CHR ''*'') (DArr rs)"

text \<open>The value a peer of the given protocol version reads for a Go value.\<close>

fun reply_scalar :: "int \<Rightarrow> scalar \<Rightarrow> resp" where
  "reply_scalar ver GNil = (if ver = RESP2 then bulk [] else line_resp (CHR ''_'') [])"
| "reply_scalar ver (GString s) = bulk s"
| "reply_scalar ver (GBytes s) = bulk s"
| "reply_scalar ver (GInt i) = line_resp (CHR '':'') (Itoa i)"
| "reply_scalar ver (GUint u) = line_resp (CHR '':'') (FormatUint u)"
| "reply_scalar ver (GFloat s) = (if ver = RESP2 then bulk s else line_resp (CHR '','') s)"
| "reply_scalar ver (GBool b) =
     (if ver = RESP2 then bulk (if b then ''1'' else ''0'') else line_resp (CHR ''#'') (if b then ''t'' else ''f''))"
| "reply_scalar ver (GTime s) = bulk s"
| "reply_scalar ver (GDuration i) = line_resp (CHR '':'') (Itoa i)"
| "reply_scalar ver (GMarshaler (Inr s)) = bulk s"
| "reply_scalar ver (GMarshaler (Inl s)) = bulk s"
| "reply_scalar ver (GIP s) = bulk s"
| "reply_scalar ver (GError s) =
     (if ver = RESP2 then line_resp (CHR ''-'') s else Resp (int (length s)) (CHR ''!'') (DBytes s))"
| "reply_scalar ver (GVersion i) = line_resp (CHR '':'') (Itoa i)"
| "reply_scalar ver (GOther j) = bulk []"

fun reply :: "int \<Rightarrow> goval \<Rightarrow> resp" where
  "reply ver (GScalar v) = reply_scalar ver v"
| "reply ver (GSlice vs) = array_resp (map (reply ver) vs)"

text \<open>The values that have a well-framed encoding: no line feed in what is sent as a line, no
  text longer than a reader accepts, nothing that goes to the JSON encoder.\<close>

fun framed_scalar :: "int \<Rightarrow> scalar \<Rightarrow> bool" where
  "framed_scalar ver (GString s) = (int (length s) \<le> maxAlloc)"
| "framed_scalar ver (GBytes s) = (int (length s) \<le> maxAlloc)"
| "framed_scalar ver (GFloat s) = (int (length s) \<le> maxAlloc \<and> LF \<notin> set s)"
| "framed_scalar ver (GTime s) = (int (length s) \<le> maxAlloc)"
| "framed_scalar ver (GMarshaler (Inr s)) = (int (length s) \<le> maxAlloc)"
| "framed_scalar ver (GMarshaler (Inl s)) = False"
| "framed_scalar ver (GIP s) = (int (length s) \<le> maxAlloc)"
| "framed_scalar ver (GError s) = (if ver = RESP2 then LF \<notin> set s else int (length s) \<le> maxAlloc)"
| "framed_scalar ver (GOther j) = False"
| "framed_scalar ver v = True"

fun framed :: "int \<Rightarrow> goval \<Rightarrow> bool" where
  "framed ver (GScalar v) = framed_scalar ver v"
| "framed ver (GSlice vs) = (8 * int (length vs) \<le> maxAlloc \<and> (\<forall>v \<in> set vs. framed ver v))"

lemmas write_defs = emit_def writeCLRF_def writeLen_def WriteSimpleValue_def writeBytesWithType_def
  WriteString_def WriteBytes_def writeInt_def writeUint_def writeFloat_def writeResp2Float_def

lemma emit_emit [simp]: "emit b (emit a w) = emit (a @ b) w"
  by (simp add: emit_def)

lemma emit_Nil [simp]: "emit [] w = w"
  by (simp add: emit_def)

lemma respVersion_emit [simp]: "respVersion (emit a w) = respVersion w" "written (emit a w) = written w @ a"
  by (simp_all add: emit_def)

lemma type_chars [simp]:
  "is_bulk_type (CHR ''$'')" "is_bulk_type (CHR ''!'')" "is_array_type (CHR ''*'')"
  "is_line_type (CHR '':'')" "is_line_type (CHR '','')" "is_line_type (CHR ''_'')" "is_line_type (CHR ''#'')"
  "is_line_type (CHR ''-'')" "is_line_type (CHR ''+'')" "\<not> is_line_type (CHR ''$'')" "\<not> is_line_type (CHR ''!'')"
  "\<not> is_line_type (CHR ''*'')"
  by (simp_all add: is_bulk_type_def is_array_type_def is_line_type_def)

lemma write_simple: "WriteSimpleValue t b w = emit (t # b @ crlf) w"
  by (simp add: WriteSimpleValue_def writeCLRF_def crlf_def)

lemma write_bytes: "writeBytesWithType t b w = emit (t # Itoa (int (length b)) @ crlf @ b @ crlf) w"
  by (simp add: writeBytesWithType_def writeCLRF_def writeLen_def crlf_def)

lemma write_len: "writeLen n (emit a w) = emit (a @ Itoa n @ crlf) w"
  by (simp add: writeLen_def crlf_def)

lemma FormatUint_no_LF [simp]: "LF \<notin> set (FormatUint u)"
  by (simp add: FormatUint_def)

lemma scalar_emits:
  "framed_scalar (respVersion w) v \<Longrightarrow> WriteValue (GScalar v) w = (emit (raw (reply_scalar (respVersion w) v)) w, None)"
  by (cases "(respVersion w, v)" rule: framed_scalar.cases)
    (auto simp: write_simple write_bytes WriteString_def writeInt_def writeUint_def writeFloat_def
      writeResp2Float_def bulk_def line_resp_def RESP2_def)

lemma write_all_emits:
  "(\<And>x w. x \<in> set xs \<Longrightarrow> respVersion w = ver \<Longrightarrow> F x w = (emit (g x) w, None)) \<Longrightarrow> respVersion w = ver \<Longrightarrow>
   write_all (map F xs) w = (emit (concat (map g xs)) w, None)"
  by (induction xs arbitrary: w) (auto simp: emit_def)

lemma value_emits: "framed (respVersion w) v \<Longrightarrow> WriteValue v w = (emit (raw (reply (respVersion w) v)) w, None)"
proof (induction v arbitrary: w)
  case (GScalar v)
  then show ?case using scalar_emits by simp
next
  case (GSlice vs)
  have "write_all (map WriteValue vs) (writeLen (int (length vs)) (emit ''*'' w))
      = (emit (concat (map (\<lambda>v. raw (reply (respVersion w) v)) vs)) (writeLen (int (length vs)) (emit ''*'' w)), None)"
    using GSlice by (intro write_all_emits) (auto simp: write_len)
  then show ?case by (simp add: array_resp_def write_len comp_def)
qed

lemma wf_reply_scalar: "framed_scalar ver v \<Longrightarrow> wf_resp (reply_scalar ver v)"
  by (cases "(ver, v)" rule: framed_scalar.cases) (auto simp: bulk_def line_resp_def maxAlloc_def)

lemma wf_reply: "framed ver v \<Longrightarrow> wf_resp (reply ver v)"
  by (induction v) (auto simp: wf_reply_scalar array_resp_def)

text \<open>A command: an array of bulk strings.\<close>

definition command_resp :: "string list \<Rightarrow> resp" where
  "command_resp args = array_resp (map bulk args)"

definition sendable :: "string list \<Rightarrow> bool" where
  "sendable args \<longleftrightarrow> 8 * int (length args) \<le> maxAlloc \<and> (\<forall>a \<in> set args. int (length a) \<le> maxAlloc)"

lemma wf_command: "sendable args \<Longrightarrow> wf_resp (command_resp args)"
  by (auto simp: sendable_def command_resp_def array_resp_def bulk_def)

lemma raw_bulk: "raw (bulk s) = CHR ''$'' # Itoa (int (length s)) @ crlf @ s @ crlf"
  by (simp add: bulk_def)

lemma fold_WriteString: "fold WriteString v w = emit (concat (map (\<lambda>s. raw (bulk s)) v)) w"
  by (induction v arbitrary: w) (simp_all add: WriteString_def write_bytes raw_bulk)

lemma WriteStringSlice_emits: "WriteStringSlice v w = emit (raw (command_resp v)) w"
  by (simp add: WriteStringSlice_def fold_WriteString write_len command_resp_def array_resp_def comp_def)

lemma CreateCommand_raw: "CreateCommand = (\<lambda>args. raw (command_resp args))"
  by (rule ext) (simp add: CreateCommand_def WriteStringSlice_emits NewWriter_def)

end
