(* ===== verification/Client.thy ===== *)
theory Client
  imports Resp_Writer
begin

text \<open>
  \<open>internal/client/client.go\<close>: the state of a connection with its accessors, and the loop
  \<open>HandleConnection\<close> that cuts the bytes of the connection into messages.

  The connection is the bytes written to it (\<open>conn_out\<close>) and the peer's address; the bytes
  that arrive are the argument of \<open>HandleConnection\<close>, with the end of the list for the closed
  connection. Errors of the socket are not modelled, and sending to \<open>messageChan\<close> is adding to
  the list of messages.
\<close>

section \<open>State\<close>

record client_info =
  name :: string
  libName :: string
  libVersion :: string

record client =
  client_ID :: string
  offset :: "64 word"
  authenticated :: bool
  info :: client_info
  preferredRespVersion :: int
  ListeningPort :: string
  lastInteraction :: int
  Writer :: writer
  closed :: bool
  lastWriteOffset :: "64 word"
  inTransaction :: bool
  txQueue :: "resp list"
  conn_out :: string
  remoteAddr :: string

definition NewClient :: "go_env \<Rightarrow> string \<Rightarrow> client" where
  "NewClient env addr =
     \<lparr>client_ID = [], offset = 0, authenticated = False,
      info = \<lparr>name = [], libName = [], libVersion = []\<rparr>, preferredRespVersion = RESP2,
      ListeningPort = [], lastInteraction = now_ns env, Writer = NewWriter RESP2, closed = False,
      lastWriteOffset = 0, inTransaction = False, txQueue = [], conn_out = [], remoteAddr = addr\<rparr>"

section \<open>Accessors\<close>

definition StartTransaction :: "client \<Rightarrow> client" where
  "StartTransaction c = c\<lparr>inTransaction := True, txQueue := []\<rparr>"

definition IsInTransaction :: "client \<Rightarrow> bool" where
  "IsInTransaction c = inTransaction c"

definition EnqueueCommand :: "resp \<Rightarrow> client \<Rightarrow> client" where
  "EnqueueCommand r c = c\<lparr>txQueue := txQueue c @ [r]\<rparr>"

definition GetTransactionQueue :: "client \<Rightarrow> resp list" where
  "GetTransactionQueue c = txQueue c"

definition ClearTransaction :: "client \<Rightarrow> client" where
  "ClearTransaction c = c\<lparr>inTransaction := False, txQueue := []\<rparr>"

definition GetLastWriteOffset :: "client \<Rightarrow> 64 word" where
  "GetLastWriteOffset c = lastWriteOffset c"

definition SetLastWriteOffset :: "64 word \<Rightarrow> client \<Rightarrow> client" where
  "SetLastWriteOffset off c = c\<lparr>lastWriteOffset := off\<rparr>"

definition UpdateOffset :: "64 word \<Rightarrow> client \<Rightarrow> client" where
  "UpdateOffset off c = c\<lparr>offset := off\<rparr>"

definition Offset :: "client \<Rightarrow> 64 word" where
  "Offset c = offset c"

definition SetRespVersion :: "int \<Rightarrow> client \<Rightarrow> client" where
  "SetRespVersion version c = c\<lparr>Writer := SetVersion version (Writer c)\<rparr>"

definition SetLibName :: "string \<Rightarrow> client \<Rightarrow> client" where
  "SetLibName n c = c\<lparr>info := (info c)\<lparr>libName := n\<rparr>\<rparr>"

definition SetLibVersion :: "string \<Rightarrow> client \<Rightarrow> client" where
  "SetLibVersion v c = c\<lparr>info := (info c)\<lparr>libVersion := v\<rparr>\<rparr>"

definition SetName :: "string \<Rightarrow> client \<Rightarrow> client" where
  "SetName n c = c\<lparr>info := (info c)\<lparr>name := n\<rparr>\<rparr>"

definition SetAuthenticated :: "bool \<Rightarrow> client \<Rightarrow> client" where
  "SetAuthenticated a c = c\<lparr>authenticated := a\<rparr>"

definition SetPreferredRespVersion :: "int \<Rightarrow> client \<Rightarrow> client" where
  "SetPreferredRespVersion version c = c\<lparr>preferredRespVersion := version\<rparr>"

definition GetPreferredRespVersion :: "client \<Rightarrow> int" where
  "GetPreferredRespVersion c = preferredRespVersion c"

definition GetName :: "client \<Rightarrow> string" where
  "GetName c = name (info c)"

definition GetLibName :: "client \<Rightarrow> string" where
  "GetLibName c = libName (info c)"

definition GetLibVersion :: "client \<Rightarrow> string" where
  "GetLibVersion c = libVersion (info c)"

definition IsAuthenticated :: "client \<Rightarrow> bool" where
  "IsAuthenticated c = authenticated c"

definition IsClosed :: "client \<Rightarrow> bool" where
  "IsClosed c = closed c"

definition RemoteAddr :: "client \<Rightarrow> string" where
  "RemoteAddr c = remoteAddr c"

definition Send :: "client \<Rightarrow> client" where
  "Send c = (let (b, w) = Flush (Writer c) in c\<lparr>Writer := w, conn_out := conn_out c @ b\<rparr>)"

definition Close :: "client \<Rightarrow> client" where
  "Close c = (if closed c then c else c\<lparr>closed := True\<rparr>)"

section \<open>Cutting the input into messages\<close>

text \<open>\<open>reader.ReadBytes('\n')\<close> over the whole input: the lines with their line feed; a last line
  without one ends the loop with \<open>io.EOF\<close>.\<close>

fun read_lines :: "string \<Rightarrow> string \<Rightarrow> string list" where
  "read_lines part [] = []"
| "read_lines part (c # s) = (if c = LF then (part @ [c]) # read_lines [] s else read_lines (part @ [c]) s)"

text \<open>The errors after which the loop keeps what it has read and waits for more.\<close>

fun keeps_buffer :: "resp_error \<Rightarrow> bool" where
  "keeps_buffer ErrEmptyLine = True"
| "keeps_buffer (ErrIncompleteInput n m) = True"
| "keeps_buffer (ErrUnknownType c) = True"
| "keeps_buffer EOF = True"
| "keeps_buffer _ = False"

text \<open>One round of the loop: the message that is sent, if any, and the buffer after it.\<close>

definition handle_part :: "string \<Rightarrow> string \<Rightarrow> (resp option \<times> string) go" where
  "handle_part buffer part =
     (let buffer = buffer @ part in
      case ParseResp buffer of
        PErr e \<Rightarrow> if keeps_buffer e then Ret (None, buffer) else Ret (None, [])
      | POk r _ \<Rightarrow>
          if Type r \<noteq> CHR ''*'' then Ret (None, [])
          else (case resp_array r of
              Panic \<Rightarrow> Panic
            | Ret rs \<Rightarrow> if length rs < 1 then Ret (None, []) else Ret (Some r, []))
      | _ \<Rightarrow> Panic)"

text \<open>The messages in the order they are sent, and whether the loop ended in a panic.\<close>

fun handle_parts :: "string \<Rightarrow> string list \<Rightarrow> resp list \<times> bool" where
  "handle_parts buffer [] = ([], False)"
| "handle_parts buffer (part # parts) =
     (case handle_part buffer part of
        Panic \<Rightarrow> ([], True)
      | Ret (None, buffer) \<Rightarrow> handle_parts buffer parts
      | Ret (Some r, buffer) \<Rightarrow> (case handle_parts buffer parts of (rs, p) \<Rightarrow> (r # rs, p)))"

definition HandleConnection :: "string \<Rightarrow> resp list \<times> bool" where
  "HandleConnection input = handle_parts [] (read_lines [] input)"

section \<open>Lines\<close>

lemma read_lines_append: "read_lines part (s @ LF # t) = read_lines part (s @ [LF]) @ read_lines [] t"
  by (induction s arbitrary: part) auto

lemma read_lines_one: "LF \<notin> set s \<Longrightarrow> read_lines part (s @ LF # t) = (part @ s @ [LF]) # read_lines [] t"
  by (induction s arbitrary: part) auto

lemma read_lines_crlf: "LF \<notin> set s \<Longrightarrow> read_lines [] (s @ crlf @ t) = (s @ crlf) # read_lines [] t"
  using read_lines_one [of "s @ [CR]" "[]" t] by (simp add: crlf_def)

definition len_line :: "char \<Rightarrow> nat \<Rightarrow> string" where
  "len_line t n = t # Itoa (int n) @ crlf"

text \<open>The lines of the arguments of a command, none of which holds a line feed.\<close>

definition arg_lines :: "string list \<Rightarrow> string list" where
  "arg_lines args = concat (map (\<lambda>a. [len_line (CHR ''$'') (length a), a @ crlf]) args)"

definition args_raw :: "string list \<Rightarrow> string" where
  "args_raw args = concat (map (\<lambda>a. raw (bulk a)) args)"

lemma raw_bulk_lines: "raw (bulk a) = len_line (CHR ''$'') (length a) @ a @ crlf"
  by (simp add: bulk_def len_line_def)

lemma raw_command: "raw (command_resp args) = len_line (CHR ''*'') (length args) @ args_raw args"
  by (simp add: command_resp_def array_resp_def len_line_def args_raw_def comp_def)

lemma read_lines_len: "t \<noteq> LF \<Longrightarrow> read_lines [] (len_line t n @ s) = len_line t n # read_lines [] s"
  using read_lines_crlf [of "t # Itoa (int n)" s] by (auto simp: len_line_def)

lemma read_lines_args:
  "\<forall>a \<in> set args. LF \<notin> set a \<Longrightarrow> read_lines [] (args_raw args @ s) = arg_lines args @ read_lines [] s"
  by (induction args) (auto simp: args_raw_def arg_lines_def raw_bulk_lines read_lines_len read_lines_crlf)

section \<open>A command that has not arrived completely\<close>

lemma ParseResp_Nil [simp]: "ParseResp [] = PErr EOF"
  by (simp add: ParseResp_def parse_resp.simps readLine_def)

lemma ParseElems_Nil: "0 < n \<Longrightarrow> ParseElems n [] = PErr EOF"
  by (simp add: ParseElems_simps)

lemma ParseElems_args:
  assumes "\<forall>a \<in> set args. int (length a) \<le> maxAlloc" and "0 \<le> n"
  shows "ParseElems (int (length args) + n) (args_raw args @ rest)
    = pbind (ParseElems n rest) (\<lambda>rs s. POk (map bulk args @ rs) s)"
  using assms
proof (induction args)
  case Nil
  then show ?case by (cases "ParseElems n rest") (simp_all add: args_raw_def)
next
  case (Cons a args)
  have "ParseResp (raw (bulk a) @ s) = POk (bulk a) s" for s
    using Cons.prems by (intro parse_raw) (simp add: bulk_def)
  with Cons show ?case
    by (cases "ParseElems n rest") (simp_all add: ParseElems_simps args_raw_def add.assoc)
qed

lemma len_line_in:
  assumes "int n \<le> maxAlloc" and "t \<noteq> LF"
  shows "readLine (len_line t n @ s) = POk (t # Itoa (int n)) s \<and> parseLen (t # Itoa (int n)) = Inr (int n)"
  using assms readLine_len [of t "int n" s]
  by (simp add: len_line_def parseLen_Itoa in_i64_def maxAlloc_def)

lemma bulk_header:
  assumes "int n \<le> maxAlloc"
  shows "ParseResp (len_line (CHR ''$'') n) = (if n = 0 then POk (bulk []) [] else PErr EOF)"
proof -
  have r: "readLine (len_line (CHR ''$'') n) = POk (CHR ''$'' # Itoa (int n)) []"
    "parseLen (CHR ''$'' # Itoa (int n)) = Inr (int n)"
    using len_line_in [OF assms, of "CHR ''$''" "[]"] by simp_all
  show ?thesis
    using assms by (subst parse_bulk [OF r(1) refl]) (simp_all add: parseBulkString_def r(2) ReadFull_def bulk_def)
qed

text \<open>The parser on the header of a command of \<open>n\<close> arguments and what has come of them.\<close>

lemma parse_command:
  assumes "8 * int n \<le> maxAlloc"
  shows "ParseResp (len_line (CHR ''*'') n @ s) = pbind (ParseElems (int n) s) (\<lambda>arr s.
    if int n \<noteq> int (length arr) then PErr (ErrIncompleteInput (int n) (int (length arr)))
    else POk (Resp (int n) (CHR ''*'') (DArr arr)) s)"
proof -
  have n: "int n \<le> maxAlloc" using assms by simp
  have "CHR ''*'' \<noteq> LF" by simp
  note l = len_line_in [OF n this]
  show ?thesis using assms l by (intro parse_array) auto
qed

lemma parse_partial:
  assumes "8 * int n \<le> maxAlloc" and "\<forall>a \<in> set sofar. int (length a) \<le> maxAlloc" and "length sofar < n"
  shows "ParseResp (len_line (CHR ''*'') n @ args_raw sofar) = PErr EOF"
    and "int (length a) \<le> maxAlloc \<Longrightarrow> a \<noteq> [] \<or> length sofar + 1 < n \<Longrightarrow>
      ParseResp (len_line (CHR ''*'') n @ args_raw sofar @ len_line (CHR ''$'') (length a)) = PErr EOF"
proof -
  define k where "k = int n - int (length sofar)"
  have k: "int n = int (length sofar) + k" "0 < k" using assms(3) by (simp_all add: k_def)
  note e = ParseElems_args [OF assms(2), of k]
  show "ParseResp (len_line (CHR ''*'') n @ args_raw sofar) = PErr EOF"
    unfolding parse_command [OF assms(1)] k(1) using e [of "[]"] k(2) by (simp add: ParseElems_Nil)
  assume a: "int (length a) \<le> maxAlloc" "a \<noteq> [] \<or> length sofar + 1 < n"
  have "a \<noteq> [] \<or> 0 < k - 1" using a(2) by (auto simp: k_def)
  then have "ParseElems k (len_line (CHR ''$'') (length a)) = PErr EOF"
    using k(2) bulk_header [OF a(1)] by (auto simp: ParseElems_simps ParseElems_Nil)
  then show "ParseResp (len_line (CHR ''*'') n @ args_raw sofar @ len_line (CHR ''$'') (length a)) = PErr EOF"
    unfolding parse_command [OF assms(1)] k(1) using e [of "len_line (CHR ''$'') (length a)"] k(2) by simp
qed

section \<open>Complete commands\<close>

lemma args_raw_append: "args_raw (xs @ ys) = args_raw xs @ args_raw ys"
  by (simp add: args_raw_def)

lemma args_raw_one: "args_raw [a] = len_line (CHR ''$'') (length a) @ a @ crlf"
  by (simp add: args_raw_def raw_bulk_lines)

lemma arg_lines_Cons: "arg_lines (a # args) = len_line (CHR ''$'') (length a) # (a @ crlf) # arg_lines args"
  by (simp add: arg_lines_def)

lemma handle_part_wait: "ParseResp (buffer @ part) = PErr EOF \<Longrightarrow> handle_part buffer part = Ret (None, buffer @ part)"
  by (simp add: handle_part_def)

lemma handle_part_command:
  "ParseResp (buffer @ part) = POk (command_resp args) rest \<Longrightarrow> args \<noteq> [] \<Longrightarrow>
   handle_part buffer part = Ret (Some (command_resp args), [])"
  by (cases args) (simp_all add: handle_part_def command_resp_def array_resp_def resp_array_def)

lemma parse_whole: "sendable args \<Longrightarrow> ParseResp (len_line (CHR ''*'') (length args) @ args_raw args) = POk (command_resp args) []"
  using parse_raw [OF wf_command, of args "[]"] by (simp add: raw_command)

text \<open>An empty last argument completes the command before its own line has come.\<close>

lemma parse_empty_last:
  assumes "sendable (sofar @ [[]])"
  shows "ParseResp (len_line (CHR ''*'') (length sofar + 1) @ args_raw sofar @ len_line (CHR ''$'') 0)
    = POk (command_resp (sofar @ [[]])) []"
proof -
  have s: "8 * int (length sofar + 1) \<le> maxAlloc" "\<forall>a \<in> set sofar. int (length a) \<le> maxAlloc"
    using assms by (simp_all add: sendable_def)
  have "ParseElems (int (length sofar) + 1) (args_raw sofar @ len_line (CHR ''$'') 0) = POk (map bulk sofar @ [bulk []]) []"
    using ParseElems_args [OF s(2), of 1 "len_line (CHR ''$'') 0"] bulk_header [of 0]
    by (simp add: ParseElems_simps maxAlloc_def)
  then show ?thesis
    using parse_command [OF s(1), of "args_raw sofar @ len_line (CHR ''$'') 0"]
    by (simp add: command_resp_def array_resp_def add.commute)
qed

lemma handle_crlf: "handle_part [] crlf = Ret (None, [])"
  by (simp add: handle_part_def ParseResp_def parse_resp.simps readLine_def crlf_def)

lemma handle_args:
  assumes "sendable (sofar @ args)" and "args \<noteq> []"
  shows "handle_parts (len_line (CHR ''*'') (length (sofar @ args)) @ args_raw sofar) (arg_lines args @ parts)
    = (case handle_parts [] parts of (rs, p) \<Rightarrow> (command_resp (sofar @ args) # rs, p))"
  using assms
proof (induction args arbitrary: sofar)
  case (Cons a args)
  let ?n = "length (sofar @ a # args)"
  let ?buf = "len_line (CHR ''*'') ?n @ args_raw sofar"
  have size: "8 * int ?n \<le> maxAlloc" "\<forall>x \<in> set sofar. int (length x) \<le> maxAlloc" "int (length a) \<le> maxAlloc"
    using Cons.prems(1) by (auto simp: sendable_def)
  have buf: "(?buf @ len_line (CHR ''$'') (length a)) @ a @ crlf = len_line (CHR ''*'') ?n @ args_raw (sofar @ [a])"
    by (simp add: args_raw_append args_raw_one)
  show ?case
  proof (cases "a = [] \<and> args = []")
    case True
    then have "handle_part ?buf (len_line (CHR ''$'') (length a)) = Ret (Some (command_resp (sofar @ a # args)), [])"
      using parse_empty_last [of sofar] Cons.prems(1) by (intro handle_part_command) simp_all
    with True show ?thesis by (simp add: arg_lines_def handle_crlf split: prod.splits)
  next
    case False
    then have "handle_part ?buf (len_line (CHR ''$'') (length a)) = Ret (None, ?buf @ len_line (CHR ''$'') (length a))"
      using parse_partial(2) [OF size(1,2) _ size(3)] by (intro handle_part_wait) auto
    then have first: "handle_parts ?buf (arg_lines (a # args) @ parts)
        = handle_parts (?buf @ len_line (CHR ''$'') (length a)) ((a @ crlf) # arg_lines args @ parts)"
      by (simp add: arg_lines_Cons)
    show ?thesis
    proof (cases "args = []")
      case True
      have "handle_part (?buf @ len_line (CHR ''$'') (length a)) (a @ crlf) = Ret (Some (command_resp (sofar @ [a])), [])"
        using parse_whole [of "sofar @ [a]"] Cons.prems(1) True
        by (intro handle_part_command [where rest = "[]"]) (simp_all add: args_raw_append args_raw_one)
      with True show ?thesis unfolding first by (simp add: arg_lines_def)
    next
      case more: False
      have "handle_part (?buf @ len_line (CHR ''$'') (length a)) (a @ crlf)
          = Ret (None, (?buf @ len_line (CHR ''$'') (length a)) @ a @ crlf)"
        using parse_partial(1) [OF size(1), of "sofar @ [a]"] size more
        by (intro handle_part_wait, unfold buf) auto
      then show ?thesis unfolding first handle_parts.simps using Cons.IH [of "sofar @ [a]"] Cons.prems more
        by (simp add: buf [simplified])
    qed
  qed
qed simp

lemma handle_command:
  assumes "sendable args" and "args \<noteq> []" and "\<forall>a \<in> set args. LF \<notin> set a"
  shows "handle_parts [] (read_lines [] (raw (command_resp args) @ s))
    = (case handle_parts [] (read_lines [] s) of (rs, p) \<Rightarrow> (command_resp args # rs, p))"
proof -
  have lines: "read_lines [] (raw (command_resp args) @ s)
      = len_line (CHR ''*'') (length args) # arg_lines args @ read_lines [] s"
    using read_lines_args [OF assms(3)] by (simp add: raw_command read_lines_len)
  have "handle_part [] (len_line (CHR ''*'') (length args)) = Ret (None, len_line (CHR ''*'') (length args))"
    using handle_part_wait [of "[]"] parse_partial(1) [of "length args" "[]"] assms(1,2)
    by (simp add: sendable_def args_raw_def)
  then show ?thesis
    using handle_args [of "[]" args "read_lines [] s"] assms(1,2) by (simp add: lines args_raw_def)
qed

lemma handle_commands:
  "\<forall>args \<in> set cmds. sendable args \<and> args \<noteq> [] \<and> (\<forall>a \<in> set args. LF \<notin> set a) \<Longrightarrow>
   handle_parts [] (read_lines [] (concat (map (\<lambda>args. raw (command_resp args)) cmds)))
     = (map command_resp cmds, False)"
  by (induction cmds) (simp_all add: handle_command)

section \<open>A line of no known type\<close>

definition unknown_type :: "char \<Rightarrow> bool" where
  "unknown_type c \<longleftrightarrow> \<not> is_line_type c \<and> \<not> is_bulk_type c \<and> \<not> is_array_type c \<and> \<not> is_map_type c \<and> c \<noteq> LF"

lemma parse_unknown:
  assumes "unknown_type c" and "LF \<notin> set x"
  shows "ParseResp (c # x @ crlf @ s) = PErr (ErrUnknownType c)"
proof -
  have "readLine ((c # x) @ crlf @ s) = POk (c # x) s"
    using assms by (intro readLine_ok) (auto simp: unknown_type_def)
  then show ?thesis
    using assms(1) by (simp add: ParseResp_def parse_resp.simps unknown_type_def)
qed

lemma handle_unknown:
  assumes "unknown_type c" and "LF \<notin> set x"
  shows "handle_parts (c # x @ crlf @ s) parts = ([], False)"
proof (induction parts arbitrary: s)
  case (Cons part parts)
  then show ?case using parse_unknown [OF assms, of "s @ part"] Cons.IH [of "s @ part"] by (simp add: handle_part_def)
qed simp

end
