(* ===== verification/Resp_Props.thy ===== *)
theory Resp_Props
  imports Client
begin

text \<open>
  The properties of the protocol layer: the parser, the serializer, the reply writer and the
  loop that cuts a connection into messages.
\<close>



text \<open>C26: on every input the parser comes to an end, with a value, an error or the panic of an
  allocation that is too large (the nesting of arrays and maps is bounded by the input); a value
  it returns has used up at least three bytes, carries data of the dynamic type its type byte
  stands for with the recorded length, and so can be serialized by \<open>RAW\<close> without a failed type
  assertion.\<close>

theorem resp_parse_total:
  "ParseResp s \<noteq> PFuel \<and>
   (\<forall>r rest. ParseResp s = POk r rest \<longrightarrow>
      (\<exists>u. s = u @ rest \<and> 3 \<le> length u) \<and> typed_resp r \<and> RAW r \<noteq> Panic)"
proof -
  have "reads 3 s (ParseResp s)" using parse_reads(1) by (simp add: ParseResp_def)
  then show ?thesis
    using ParseResp_no_fuel [of s] by (auto simp: reads_def dest: parse_typed RAW_total)
qed

theorem resp_parse_total_witness:
  "typed_resp (Resp (-1) (CHR ''*'') (DArr [])) \<and> RAW (Resp (-1) (CHR ''*'') (DArr [])) \<noteq> Panic"
proof -
  have "ParseResp (''*-1'' @ crlf) = POk (Resp (-1) (CHR ''*'') (DArr [])) []" by code_simp
  with resp_parse_total [of "''*-1'' @ crlf"] show ?thesis by blast
qed

text \<open>C27: the reply writer and the parser agree, for both protocol versions: a value whose texts
  are well framed is written without an error, and the peer reads exactly the reply meant for
  its version (nil, booleans, floats and errors have different forms) and stops at what
  follows. The reply is one whose lines the buffer of the reader still holds at the end
  (\<open>buffer_safe\<close>): at most 4096 bytes, a single line, or only bulk strings.\<close>

theorem writer_round_trip:
  assumes "framed (respVersion w) v" and "buffer_safe (reply (respVersion w) v)"
  shows "\<exists>bytes. WriteValue v w = (w\<lparr>written := written w @ bytes\<rparr>, None) \<and>
    ParseResp (bytes @ rest) = POk (reply (respVersion w) v) rest"
  using value_emits [OF assms(1)] parse_raw [OF wf_reply [OF assms(1)]] by (auto simp: emit_def)

theorem writer_round_trip_witness:
  "\<exists>bytes. WriteValue (GSlice [GScalar (GBool True), GScalar (GString ''a'')]) (NewWriter 3)
      = ((NewWriter 3)\<lparr>written := written (NewWriter 3) @ bytes\<rparr>, None) \<and>
    ParseResp (bytes @ []) = POk (Resp 2 (CHR ''*'') (DArr [Resp 0 (CHR ''#'') (DBytes ''t''), Resp 1 (CHR ''$'') (DBytes ''a'')])) []"
proof -
  have "buffer_safe (reply 3 (GSlice [GScalar (GBool True), GScalar (GString ''a'')]))" by code_simp
  then show ?thesis
    using writer_round_trip [of "NewWriter 3" "GSlice [GScalar (GBool True), GScalar (GString ''a'')]" "[]"]
    by (simp add: NewWriter_def array_resp_def line_resp_def bulk_def maxAlloc_def RESP2_def)
qed

text \<open>C28: a command made by \<open>CreateCommand\<close> for a replica is read by the parser as the array of
  its arguments, and the accessors give the arguments back.\<close>

theorem create_command_round_trip:
  assumes "sendable args" and "args \<noteq> []"
  shows "ParseResp (CreateCommand args @ rest) = POk (command_resp args) rest \<and>
    GetCommandName (command_resp args) = Ret (Inr (hd args)) \<and>
    ToStringSlice (command_resp args) = Ret (Inr args)"
proof -
  have "map (Bytes \<circ> bulk) args = args" by (induction args) (simp_all add: bulk_def)
  moreover have "Bytes (bulk (hd args)) = hd args" by (simp add: bulk_def)
  ultimately show ?thesis
    using parse_raw [OF wf_command [OF assms(1)]] assms(2)
    by (cases args) (simp_all add: CreateCommand_raw GetCommandName_def ToStringSlice_def command_resp_def array_resp_def resp_array_def)
qed

theorem create_command_round_trip_witness:
  "ParseResp (CreateCommand [''PING''] @ ''y'') = POk (command_resp [''PING'']) ''y''"
  using create_command_round_trip [of "[''PING'']" "''y''"] by (simp add: sendable_def maxAlloc_def)

text \<open>C29: a connection that carries commands whose arguments hold no line feed is cut into
  exactly these commands, in their order, with nothing left over and no panic; however the
  lines arrive, no message is sent before its command is complete.\<close>

theorem handle_connection_commands:
  assumes "\<forall>args \<in> set cmds. sendable args \<and> args \<noteq> [] \<and> (\<forall>a \<in> set args. LF \<notin> set a)"
  shows "HandleConnection (concat (map CreateCommand cmds)) = (map command_resp cmds, False)"
  using handle_commands [OF assms] by (simp add: HandleConnection_def CreateCommand_raw)

theorem handle_connection_commands_witness:
  "HandleConnection (CreateCommand [''SET'', ''k'', ''''] @ CreateCommand [''GET'', ''k''])
    = ([command_resp [''SET'', ''k'', ''''], command_resp [''GET'', ''k'']], False)"
  using handle_connection_commands [of "[[''SET'', ''k'', ''''], [''GET'', ''k'']]"]
  by (simp add: sendable_def maxAlloc_def)

text \<open>C30: one line whose first byte is no type byte (an inline command such as \<open>PING\<close>) blocks its
  connection for good: the buffer is never reset, and whatever follows, no message is sent.\<close>

theorem handle_connection_blocked:
  assumes "unknown_type c" and "LF \<notin> set x"
  shows "HandleConnection (c # x @ crlf @ s) = ([], False)"
proof -
  have l: "read_lines [] ((c # x) @ crlf @ s) = ((c # x) @ crlf) # read_lines [] s"
    using assms by (intro read_lines_crlf) (auto simp: unknown_type_def)
  then show ?thesis
    using handle_unknown [OF assms, of "[]" "read_lines [] s"] parse_unknown [OF assms, of "[]"]
    by (simp add: HandleConnection_def handle_part_def)
qed

theorem handle_connection_blocked_witness:
  "HandleConnection (''PING'' @ crlf @ CreateCommand [''PING'']) = ([], False)"
  using handle_connection_blocked [of "CHR ''P''" "''ING''" "CreateCommand [''PING'']"]
  by (simp add: unknown_type_def is_line_type_def is_bulk_type_def is_array_type_def is_map_type_def)

text \<open>A line feed inside an argument loses the command on a client connection: the value read
  so far ends in \<open>io.ErrUnexpectedEOF\<close>, for which the loop empties its buffer.\<close>

lemma handle_connection_loses_newline:
  "HandleConnection (CreateCommand [''SET'', ''k'', [CHR ''a'', LF, CHR ''b'']]) = ([], False)"
  by code_simp

text \<open>C31: a bulk string that announces more than 2^48 bytes ends the process: \<open>make\<close> panics before
  a single byte of it has been read, and nothing recovers.\<close>

theorem handle_connection_panics:
  assumes "maxAlloc < n" and "in_i64 n"
  shows "HandleConnection (''$'' @ Itoa n @ crlf) = ([], True)"
proof -
  have r: "readLine (CHR ''$'' # Itoa n @ crlf) = POk (CHR ''$'' # Itoa n) []"
    using readLine_len [of "CHR ''$''" n "[]"] by simp
  have "parseBulkString (CHR ''$'' # Itoa n) [] = PPanic"
    using assms by (simp add: parseBulkString_def parseLen_Itoa maxAlloc_def)
  then have "ParseResp (CHR ''$'' # Itoa n @ crlf) = PPanic"
    by (simp add: parse_bulk [OF r refl])
  moreover have "read_lines [] ((CHR ''$'' # Itoa n) @ crlf @ []) = [(CHR ''$'' # Itoa n) @ crlf]"
    by (subst read_lines_crlf) simp_all
  ultimately show ?thesis by (simp add: HandleConnection_def handle_part_def)
qed

theorem handle_connection_panics_witness:
  "HandleConnection (''$'' @ Itoa (2 ^ 60) @ crlf) = ([], True)"
  by (rule handle_connection_panics) (simp_all add: maxAlloc_def in_i64_def)

end
