(* ===== verification/Config.thy ===== *)
theory Config
  imports Go_Base
begin

text \<open>
  \<open>internal/app/server/config/config.go\<close>: the options of the server. Keys are checked in upper
  case; \<open>Set\<close> stores under the key as given, \<open>Get\<close> looks under the key in upper case.
\<close>

section \<open>State\<close>

record config =
  options :: "(string \<times> string) list"

definition ListenAddrKey :: string where "ListenAddrKey = ''LISTENADDR''"
definition DirKey :: string where "DirKey = ''DIR''"
definition DBFilenameKey :: string where "DBFilenameKey = ''DBFILENAME''"
definition ReplicaOfKey :: string where "ReplicaOfKey = ''REPLICAOF''"

definition WriteableCommands :: "string list" where
  "WriteableCommands = [''set'', ''del'', ''incr'']"

definition supportedOptions :: "string list" where
  "supportedOptions = [ListenAddrKey, DirKey, DBFilenameKey, ReplicaOfKey]"

definition NewConfig :: config where
  "NewConfig = \<lparr>options = []\<rparr>"

section \<open>Operations\<close>

definition err_option :: "string \<Rightarrow> string" where
  "err_option key = ''unknown option for '' @ key"

definition config_Set :: "go_env \<Rightarrow> config \<Rightarrow> string \<Rightarrow> string \<Rightarrow> string + config" where
  "config_Set env c key val =
     (if ToUpper env key \<notin> set supportedOptions then Inl (err_option key)
      else Inr (c\<lparr>options := map_put (options c) key val\<rparr>))"

text \<open>The pairs in the order in which the map is visited; what was stored before an unknown key
  stays.\<close>

fun config_SetBatch :: "go_env \<Rightarrow> config \<Rightarrow> (string \<times> string) list \<Rightarrow> string option \<times> config" where
  "config_SetBatch env c [] = (None, c)"
| "config_SetBatch env c ((key, val) # pairs) =
     (if ToUpper env key \<notin> set supportedOptions then (Some (err_option key), c)
      else if val = [] then config_SetBatch env c pairs
      else config_SetBatch env (c\<lparr>options := map_put (options c) key val\<rparr>) pairs)"

definition config_Get :: "go_env \<Rightarrow> config \<Rightarrow> string \<Rightarrow> string + string" where
  "config_Get env c key = (case map_of (options c) (ToUpper env key) of
       None \<Rightarrow> Inl (err_option key)
     | Some val \<Rightarrow> Inr val)"

definition config_GetBatch :: "go_env \<Rightarrow> config \<Rightarrow> string list \<Rightarrow> (string \<times> string) list" where
  "config_GetBatch env c keys =
     fold (\<lambda>key results. (case map_of (options c) (ToUpper env key) of
         None \<Rightarrow> results
       | Some val \<Rightarrow> if val \<noteq> [] then map_put results key val else results)) keys []"

section \<open>Facts\<close>

lemma upper_supported: "ToUpper env key = key \<Longrightarrow> key \<in> set supportedOptions \<Longrightarrow>
  config_Set env c key val = Inr (c\<lparr>options := map_put (options c) key val\<rparr>)"
  by (simp add: config_Set_def)

lemma supported_upper: "key \<in> set supportedOptions \<Longrightarrow> ToUpper env key = key"
  by (auto simp: supportedOptions_def ListenAddrKey_def DirKey_def DBFilenameKey_def ReplicaOfKey_def
      ToUpper_def ascii_def upper_char_def)

end
