(* ===== verification/Streams.thy ===== *)
theory Streams
  imports Radix_Props
begin

text \<open>
  \<open>pkg/keyval/stream.go\<close>: a stream is a radix tree and the channels of the blocked readers.

  A channel is a number, and what is queued in the channels is the record \<open>hub\<close>, which the
  operations take and return: a channel outlives its stream when the key is overwritten. The
  entry \<open>None\<close> is a channel that does not exist (any more).
\<close>

section \<open>State\<close>

record stream =
  tree :: radix_tree
  subscribers :: "nat list"

record hub =
  next_chan :: nat
  queue_of :: "nat \<Rightarrow> stream_entry list option"

definition empty_hub :: hub where
  "empty_hub = \<lparr>next_chan = 0, queue_of = (\<lambda>_. None)\<rparr>"

definition NewStream :: stream where
  "NewStream = \<lparr>tree = NewRadixTree, subscribers = []\<rparr>"

section \<open>Operations\<close>

text \<open>A send that does not block: an entry for a full channel is dropped.\<close>

definition chan_capacity :: nat where "chan_capacity = 100"

definition notify :: "stream_entry \<Rightarrow> nat \<Rightarrow> hub \<Rightarrow> hub" where
  "notify entry ch h = (case queue_of h ch of
       None \<Rightarrow> h
     | Some q \<Rightarrow> if length q < chan_capacity then h\<lparr>queue_of := (queue_of h)(ch \<mapsto> q @ [entry])\<rparr> else h)"

definition notifySubscribers :: "stream \<Rightarrow> stream_entry \<Rightarrow> hub \<Rightarrow> hub" where
  "notifySubscribers s entry h = fold (notify entry) (subscribers s) h"

definition err_xadd_zero :: string where
  "err_xadd_zero = ''ERR The ID specified in XADD must be greater than 0-0''"

definition err_xadd_smaller :: string where
  "err_xadd_smaller = ''ERR The ID specified in XADD is equal or smaller than the target stream top item''"

text \<open>The ID an entry gets, or the error, and the tree after it.\<close>

definition entry_id :: "go_env \<Rightarrow> radix_tree \<Rightarrow> string \<Rightarrow> (string + string) \<times> radix_tree" where
  "entry_id env t eid =
     (if eid = ''*'' then (let (sid, t) = GenerateID env t in (Inr sid, t))
      else if HasSuffix eid ''-*'' then GenerateIncompleteID t eid
      else
        (let (valid, sid) = ValidateID eid; isLargest = IsLargestID t sid in
         if \<not> valid \<or> \<not> isLargest then
           (if sid = ''0-0'' then (Inl err_xadd_zero, t) else (Inl err_xadd_smaller, t))
         else (Inr sid, t)))"

text \<open>\<open>func (s *Stream) AddEntry\<close>\<close>

definition stream_AddEntry :: "go_env \<Rightarrow> stream \<Rightarrow> stream_entry \<Rightarrow> hub \<Rightarrow> (string + string) \<times> stream \<times> hub" where
  "stream_AddEntry env s entry h =
     (case entry_id env (tree s) (ID entry) of
        (Inl err, t) \<Rightarrow> (Inl err, s\<lparr>tree := t\<rparr>, h)
      | (Inr sid, t) \<Rightarrow>
          (let s = s\<lparr>tree := AddEntry t sid (Fields entry)\<rparr>;
               h = notifySubscribers s \<lparr>ID = sid, Fields = Fields entry\<rparr> h
           in (Inr sid, s, h)))"

definition Subscribe :: "stream \<Rightarrow> hub \<Rightarrow> nat \<times> stream \<times> hub" where
  "Subscribe s h =
     (let ch = next_chan h in
      (ch, s\<lparr>subscribers := subscribers s @ [ch]\<rparr>,
       h\<lparr>next_chan := ch + 1, queue_of := (queue_of h)(ch \<mapsto> [])\<rparr>))"

definition Unsubscribe :: "stream \<Rightarrow> nat \<Rightarrow> hub \<Rightarrow> stream \<times> hub" where
  "Unsubscribe s ch h =
     (s\<lparr>subscribers := filter (\<lambda>c. c \<noteq> ch) (subscribers s)\<rparr>, h\<lparr>queue_of := (queue_of h)(ch := None)\<rparr>)"

definition stream_LastID :: "stream \<Rightarrow> string" where
  "stream_LastID s = LastID (tree s)"

definition stream_Range :: "stream \<Rightarrow> string \<Rightarrow> string \<Rightarrow> 64 word \<Rightarrow> stream_entry list" where
  "stream_Range s startID endID cnt =
     (let (startValid, startID) = ValidateID startID; (endValid, endID) = ValidateID endID in
      if \<not> startValid \<or> \<not> endValid then [] else Range (tree s) startID endID cnt)"

definition stream_TrimBySize :: "stream \<Rightarrow> int \<Rightarrow> int \<times> stream" where
  "stream_TrimBySize s maxSize = (let (n, t) = TrimBySize (tree s) maxSize in (n, s\<lparr>tree := t\<rparr>))"

definition stream_TrimByMinID :: "stream \<Rightarrow> string \<Rightarrow> int \<times> stream" where
  "stream_TrimByMinID s minID = (let (n, t) = TrimByMinID (tree s) minID in (n, s\<lparr>tree := t\<rparr>))"

section \<open>Invariant\<close>

text \<open>The index is well formed, and every field of an entry is a name and a value, as \<open>XADD\<close>
  passes them.\<close>

definition paired :: "string list list \<Rightarrow> bool" where
  "paired flds \<longleftrightarrow> (\<forall>f \<in> set flds. length f = 2)"

definition stream_ok :: "stream \<Rightarrow> bool" where
  "stream_ok s \<longleftrightarrow> wf_tree (tree s) \<and> (\<forall>e \<in> set (tree_entries (tree s)). paired (Fields e))"

section \<open>The index a stream relies on\<close>

text \<open>What \<open>Stream\<close> relies on in its tree: entries appended under IDs that do not go back are
  kept as a log in that order, and a range query filters the log.\<close>

locale ordered_log =
  fixes invar :: "'t \<Rightarrow> bool"
    and log :: "'t \<Rightarrow> stream_entry list"
    and last :: "'t \<Rightarrow> string"
    and new :: 't
    and add :: "'t \<Rightarrow> string \<Rightarrow> string list list \<Rightarrow> 't"
    and range :: "'t \<Rightarrow> string \<Rightarrow> string \<Rightarrow> 64 word \<Rightarrow> stream_entry list"
  assumes new_invar: "invar new" and new_log: "log new = []"
    and add_invar: "invar t \<Longrightarrow> last t \<le> sid \<Longrightarrow> invar (add t sid flds)"
    and add_log: "invar t \<Longrightarrow> last t \<le> sid \<Longrightarrow> log (add t sid flds) = log t @ [\<lparr>ID = sid, Fields = flds\<rparr>]"
    and add_last: "last t \<le> sid \<Longrightarrow> last (add t sid flds) = sid"
    and last_bound: "invar t \<Longrightarrow> e \<in> set (log t) \<Longrightarrow> ID e \<le> last t"
    and range_log: "invar t \<Longrightarrow> range t a b cnt =
      limit (unat cnt) (filter (\<lambda>e. lower_bound a (ID e) \<and> upper_bound b (ID e)) (log t))"
begin

text \<open>A reader that asks for what comes after the last entry it knows sees exactly the entries
  added since, in order, when the IDs increase strictly.\<close>

lemma log_sorted:
  "invar t \<Longrightarrow> sorted (map ID (log t)) \<Longrightarrow> last t \<le> sid \<Longrightarrow> sorted (map ID (log (add t sid flds)))"
  by (auto simp: add_log sorted_append intro: order_trans [OF last_bound])

lemma range_new_entry:
  assumes "invar t" and "last t < sid" and "lower_bound a sid" and "upper_bound b sid"
    and "\<And>x. x \<le> last t \<Longrightarrow> \<not> lower_bound a x"
  shows "range (add t sid flds) a b 0 = [\<lparr>ID = sid, Fields = flds\<rparr>]"
proof -
  have "filter (\<lambda>e. lower_bound a (ID e) \<and> upper_bound b (ID e)) (log t) = []"
    using assms(5) last_bound [OF assms(1)] by (auto simp: filter_empty_conv)
  then show ?thesis
    using assms by (simp add: range_log add_invar add_log limit_def less_imp_le)
qed

end

lemma items_leaf_ids: "(p, e) \<in> set (items cur n) \<Longrightarrow> p \<in> set (leaf_ids cur n)"
proof (induction cur n rule: items.induct)
  case (1 cur t pre ch leaf es)
  then show ?case by (auto split: if_splits)
qed

lemma in_order_bound: "in_order t \<Longrightarrow> e \<in> set (tree_entries t) \<Longrightarrow> ID e \<le> LastID t"
proof -
  assume io: "in_order t" and "e \<in> set (tree_entries t)"
  then obtain p where p: "(p, e) \<in> set (items [] (root t))" by (auto simp: tree_entries_def tree_items_def)
  have wf: "wf_node [] (root t)" using io by (simp add: in_order_def wf_tree_def)
  have "p \<in> set (leaf_ids [] (root t))" using p by (rule items_leaf_ids)
  with io items_ID [OF wf p] show ?thesis by (simp add: in_order_def)
qed

interpretation rt: ordered_log in_order tree_entries LastID NewRadixTree AddEntry Range
proof
  show "in_order NewRadixTree" by (rule in_order_new)
  show "tree_entries NewRadixTree = []" by (rule tree_entries_new)
  show "in_order (AddEntry t sid flds)" if "in_order t" "LastID t \<le> sid" for t sid flds
    using that by (rule in_order_AddEntry)
  show "tree_entries (AddEntry t sid flds) = tree_entries t @ [\<lparr>ID = sid, Fields = flds\<rparr>]"
    if "in_order t" "LastID t \<le> sid" for t sid flds
    using that by (rule tree_entries_AddEntry)
  show "LastID (AddEntry t sid flds) = sid" if "LastID t \<le> sid" for t sid flds
    using that by (simp add: max_def)
  show "ID e \<le> LastID t" if "in_order t" "e \<in> set (tree_entries t)" for t e
    using that by (rule in_order_bound)
  show "Range t a b cnt = limit (unat cnt) (filter (\<lambda>e. lower_bound a (ID e) \<and> upper_bound b (ID e)) (tree_entries t))"
    if "in_order t" for t a b cnt
    using that by (intro Range_entries) (simp add: in_order_def)
qed

end
