(* ===== verification/Keyval.thy ===== *)
theory Keyval
  imports Streams
begin

text \<open>
  \<open>pkg/keyval/kv.go\<close>: the key space. The store is a Go map from keys to values; a stream is
  held by value (the program reaches a stream only through its key), and what is queued for
  blocked readers is in the \<open>hub\<close> of \<open>Streams\<close>. Every method holds the lock of the store for
  its whole body, so each is one step. The clock is \<open>now_ns\<close> of the environment.
\<close>

section \<open>State\<close>

datatype value_type =
    ValueTypeString | ValueTypeList | ValueTypeHash | ValueTypeSet | ValueTypeSortedSet
  | ValueTypeStream | ValueTypeJSON

fun value_type_String :: "value_type \<Rightarrow> string" where
  "value_type_String ValueTypeString = ''string''"
| "value_type_String ValueTypeList = ''list''"
| "value_type_String ValueTypeHash = ''hash''"
| "value_type_String ValueTypeSet = ''set''"
| "value_type_String ValueTypeSortedSet = ''sortedset''"
| "value_type_String ValueTypeStream = ''stream''"
| "value_type_String ValueTypeJSON = ''json''"

datatype value_data = VBytes string | VStream stream

record kvalue =
  VType :: value_type
  VData :: value_data
  Expiry :: "64 word"

type_synonym kvstore = "(string \<times> kvalue) list"

definition NewStore :: kvstore where
  "NewStore = []"

definition string_value :: "string \<Rightarrow> kvalue" where
  "string_value b = \<lparr>VType = ValueTypeString, VData = VBytes b, Expiry = 0\<rparr>"

section \<open>Operations\<close>

definition now_u64 :: "go_env \<Rightarrow> 64 word" where
  "now_u64 env = word_of_int (now_ms env)"

definition kv_isExpired :: "go_env \<Rightarrow> kvstore \<Rightarrow> string \<Rightarrow> bool" where
  "kv_isExpired env st key = (case map_of st key of
       Some v \<Rightarrow> 0 < Expiry v \<and> Expiry v < now_u64 env
     | None \<Rightarrow> False)"

text \<open>\<open>None\<close> is the nil slice.\<close>

definition kv_Get :: "go_env \<Rightarrow> kvstore \<Rightarrow> string \<Rightarrow> string option go \<times> kvstore" where
  "kv_Get env st key =
     (if kv_isExpired env st key then (Ret None, map_delete st key)
      else (case map_of st key of
          None \<Rightarrow> (Ret None, st)
        | Some v \<Rightarrow>
            if VType v \<noteq> ValueTypeString then (Ret None, st)
            else (case VData v of VBytes b \<Rightarrow> (Ret (Some b), st) | _ \<Rightarrow> (Panic, st))))"

definition kv_Type :: "kvstore \<Rightarrow> string \<Rightarrow> string" where
  "kv_Type st key = (case map_of st key of
       None \<Rightarrow> ''none''
     | Some elem \<Rightarrow> value_type_String (VType elem))"

definition kv_Set :: "kvstore \<Rightarrow> string \<Rightarrow> string \<Rightarrow> kvstore" where
  "kv_Set st key b = map_put st key (string_value b)"

text \<open>The four ways to set a time to live differ in the time they compute; \<open>set_expiry\<close> is the
  update they share.\<close>

definition set_expiry :: "kvstore \<Rightarrow> string \<Rightarrow> 64 word \<Rightarrow> kvstore" where
  "set_expiry st key ex = (case map_of st key of
       Some v \<Rightarrow> map_put st key (v\<lparr>Expiry := ex\<rparr>)
     | None \<Rightarrow> st)"

definition kv_Expire :: "go_env \<Rightarrow> kvstore \<Rightarrow> string \<Rightarrow> int \<Rightarrow> kvstore" where
  "kv_Expire env st key duration = set_expiry st key (word_of_int ((now_ns env + duration) div 1000000))"

definition kv_PExpire :: "go_env \<Rightarrow> kvstore \<Rightarrow> string \<Rightarrow> int \<Rightarrow> kvstore" where
  "kv_PExpire env st key duration = kv_Expire env st key duration"

definition kv_ExpireAt :: "kvstore \<Rightarrow> string \<Rightarrow> go_time \<Rightarrow> kvstore" where
  "kv_ExpireAt st key expiry = set_expiry st key (word_of_int (UnixMilli expiry))"

definition kv_PExpireAt :: "kvstore \<Rightarrow> string \<Rightarrow> go_time \<Rightarrow> kvstore" where
  "kv_PExpireAt st key expiry = kv_ExpireAt st key expiry"

definition kv_Keys :: "kvstore \<Rightarrow> string list" where
  "kv_Keys st = map fst st"

definition RestoreRDB :: "kvstore \<Rightarrow> kvstore \<Rightarrow> kvstore" where
  "RestoreRDB st data = data"

definition kv_Exists :: "kvstore \<Rightarrow> string \<Rightarrow> bool" where
  "kv_Exists st key = (map_of st key \<noteq> None)"

definition kv_DeleteTTL :: "kvstore \<Rightarrow> string \<Rightarrow> kvstore" where
  "kv_DeleteTTL st key = set_expiry st key 0"

definition err_wrongtype :: string where
  "err_wrongtype = ''WRONGTYPE Operation against a key holding the wrong kind of value''"

definition kv_GetStream :: "kvstore \<Rightarrow> string \<Rightarrow> bool \<Rightarrow> (string + stream option) go \<times> kvstore" where
  "kv_GetStream st key createIfNotExist = (case map_of st key of
       None \<Rightarrow>
         if \<not> createIfNotExist then (Ret (Inr None), st)
         else (Ret (Inr (Some NewStream)),
               map_put st key \<lparr>VType = ValueTypeStream, VData = VStream NewStream, Expiry = 0\<rparr>)
     | Some s \<Rightarrow>
         if VType s \<noteq> ValueTypeStream then (Ret (Inl err_wrongtype), st)
         else (case VData s of VStream x \<Rightarrow> (Ret (Inr (Some x)), st) | _ \<Rightarrow> (Panic, st)))"

text \<open>Writing through the pointer \<open>GetStream\<close> returned.\<close>

definition put_stream :: "kvstore \<Rightarrow> string \<Rightarrow> stream \<Rightarrow> kvstore" where
  "put_stream st key s = (case map_of st key of
       Some v \<Rightarrow> map_put st key (v\<lparr>VData := VStream s\<rparr>)
     | None \<Rightarrow> st)"

definition kv_GetExpiry :: "kvstore \<Rightarrow> string \<Rightarrow> 64 word" where
  "kv_GetExpiry st key = (case map_of st key of Some v \<Rightarrow> Expiry v | None \<Rightarrow> 0)"

definition kv_IsExpired :: "go_env \<Rightarrow> kvstore \<Rightarrow> string \<Rightarrow> bool" where
  "kv_IsExpired env st key = (case map_of st key of
       Some v \<Rightarrow> 0 < Expiry v \<and> Expiry v < now_u64 env
     | None \<Rightarrow> False)"

definition kv_Export :: "kvstore \<Rightarrow> kvstore" where
  "kv_Export st = fold (\<lambda>(k, v) m. map_put m k v) st []"

section \<open>Invariant\<close>

text \<open>The keys are distinct and the dynamic type of the data is the one its type tag stands
  for; only strings and streams are ever stored, and streams satisfy their invariant.\<close>

definition wf_value :: "kvalue \<Rightarrow> bool" where
  "wf_value v = (case VData v of
       VBytes b \<Rightarrow> VType v = ValueTypeString
     | VStream s \<Rightarrow> VType v = ValueTypeStream \<and> stream_ok s)"

definition wf_store :: "kvstore \<Rightarrow> bool" where
  "wf_store st \<longleftrightarrow> distinct (map fst st) \<and> (\<forall>kv \<in> set st. wf_value (snd kv))"

lemma wf_store_lookup: "wf_store st \<Longrightarrow> map_of st k = Some v \<Longrightarrow> wf_value v"
  by (auto simp: wf_store_def dest!: map_of_SomeD bspec)

lemma wf_store_put [wf_intros]: "wf_store st \<Longrightarrow> wf_value v \<Longrightarrow> wf_store (map_put st k v)"
  using map_put_set [of st k v] by (auto simp: wf_store_def map_put_distinct)

lemma wf_store_delete [wf_intros]: "wf_store st \<Longrightarrow> wf_store (map_delete st k)"
  using map_delete_distinct [of st k] by (simp add: wf_store_def map_delete_def)

lemma wf_store_new [wf_intros]: "wf_store NewStore"
  by (simp add: wf_store_def NewStore_def)

lemma wf_string_value [simp]: "wf_value (string_value b)"
  by (simp add: string_value_def wf_value_def)

lemma wf_value_expiry [simp]: "wf_value (v\<lparr>Expiry := e\<rparr>) = wf_value v"
  by (simp add: wf_value_def split: value_data.splits)

lemma wf_kv_Set [wf_intros]: "wf_store st \<Longrightarrow> wf_store (kv_Set st k b)"
  by (simp add: kv_Set_def wf_store_put)

lemma wf_set_expiry [wf_intros]: "wf_store st \<Longrightarrow> wf_store (set_expiry st k e)"
  by (auto simp: set_expiry_def split: option.splits intro!: wf_store_put intro: wf_store_lookup)

lemma wf_kv_Get [wf_intros]: "wf_store st \<Longrightarrow> wf_store (snd (kv_Get env st k))"
  by (auto simp: kv_Get_def wf_store_delete split: option.splits value_data.splits)

lemma wf_new_stream: "wf_value \<lparr>VType = ValueTypeStream, VData = VStream NewStream, Expiry = 0\<rparr>"
  by (simp add: NewStream_def stream_ok_def wf_tree_new rt.new_log wf_value_def)

lemma wf_kv_GetStream [wf_intros]: "wf_store st \<Longrightarrow> wf_store (snd (kv_GetStream st k create))"
  by (auto simp: kv_GetStream_def wf_new_stream
      split: option.splits value_data.splits intro!: wf_store_put)

lemma wf_put_stream [wf_intros]:
  "wf_store st \<Longrightarrow> kv_GetStream st0 k create = (Ret (Inr (Some s0)), st) \<Longrightarrow> stream_ok s \<Longrightarrow> wf_store (put_stream st k s)"
  by (auto simp: put_stream_def kv_GetStream_def wf_value_def split: option.splits if_splits value_data.splits
      intro!: wf_store_put)

lemma kv_Get_no_panic: "wf_store st \<Longrightarrow> fst (kv_Get env st k) \<noteq> Panic"
  by (auto simp: kv_Get_def wf_value_def split: option.splits value_data.splits dest!: wf_store_lookup)

lemma kv_GetStream_no_panic: "wf_store st \<Longrightarrow> fst (kv_GetStream st k create) \<noteq> Panic"
  by (auto simp: kv_GetStream_def wf_value_def split: option.splits value_data.splits dest!: wf_store_lookup)

lemma kv_Export_id: "wf_store st \<Longrightarrow> kv_Export st = st"
proof -
  have "fold (\<lambda>(k, v) m. map_put m k v) xs ys = ys @ xs" if "distinct (map fst (ys @ xs))" for xs ys :: kvstore
    using that
  proof (induction xs arbitrary: ys)
    case (Cons x xs)
    then have "map_put ys (fst x) (snd x) = ys @ [x]" using map_put_new [of "fst x" ys "snd x"] by simp
    with Cons show ?case by (simp add: split_beta)
  qed simp
  then show "wf_store st \<Longrightarrow> ?thesis" by (simp add: kv_Export_def wf_store_def)
qed

section \<open>The contract of the store\<close>

text \<open>What a command may rely on: the live string under a key, as a view of the store at one
  moment of the clock, and how each operation changes it.\<close>

definition live_string :: "go_env \<Rightarrow> kvstore \<Rightarrow> string \<Rightarrow> string option" where
  "live_string env st k = (case map_of st k of
       Some v \<Rightarrow> if kv_isExpired env st k then None
                 else (case VData v of VBytes b \<Rightarrow> Some b | _ \<Rightarrow> None)
     | None \<Rightarrow> None)"

locale string_store =
  fixes invar :: "'s \<Rightarrow> bool"
    and view :: "go_env \<Rightarrow> 's \<Rightarrow> string \<Rightarrow> string option"
    and get :: "go_env \<Rightarrow> 's \<Rightarrow> string \<Rightarrow> string option go \<times> 's"
    and put :: "'s \<Rightarrow> string \<Rightarrow> string \<Rightarrow> 's"
    and expire :: "'s \<Rightarrow> string \<Rightarrow> 64 word \<Rightarrow> 's"
  assumes get_invar: "invar st \<Longrightarrow> invar (snd (get env st k))"
    and put_invar: "invar st \<Longrightarrow> invar (put st k b)"
    and expire_invar: "invar st \<Longrightarrow> invar (expire st k e)"
    and get_view: "invar st \<Longrightarrow> fst (get env st k) = Ret (view env st k)"
    and get_frame: "invar st \<Longrightarrow> view env (snd (get env st k)) = view env st"
    and put_view: "view env (put st k b) = (view env st)(k \<mapsto> b)"
    and expire_past: "invar st \<Longrightarrow> e \<noteq> 0 \<Longrightarrow> e < now_u64 env \<Longrightarrow> view env (expire st k e) = (view env st)(k := None)"
    and expire_future: "invar st \<Longrightarrow> e = 0 \<or> now_u64 env \<le> e \<Longrightarrow> view env st k = Some b \<Longrightarrow>
      view env (expire st k e) = view env st"
begin

lemma get_after_put: "invar st \<Longrightarrow> fst (get env (put st k b) k') = Ret (if k' = k then Some b else view env st k')"
  by (simp add: get_view put_invar put_view)

lemma get_twice: "invar st \<Longrightarrow> fst (get env (snd (get env st k)) k') = fst (get env st k')"
  by (simp add: get_view get_invar get_frame)

lemma put_then_expired:
  "invar st \<Longrightarrow> e \<noteq> 0 \<Longrightarrow> e < now_u64 env \<Longrightarrow> fst (get env (expire (put st k b) k e) k) = Ret None"
  by (simp add: get_view expire_invar put_invar expire_past)

lemma put_not_expired:
  "invar st \<Longrightarrow> e = 0 \<or> now_u64 env \<le> e \<Longrightarrow> fst (get env (expire (put st k b) k e) k) = Ret (Some b)"
  using expire_future [of "put st k b" e env k b] by (simp add: get_view expire_invar put_invar put_view)

end

lemma live_string_put: "live_string env (kv_Set st k b) k' = (if k' = k then Some b else live_string env st k')"
  by (simp add: live_string_def kv_Set_def kv_isExpired_def string_value_def split: option.splits)

lemma live_string_delete: "live_string env (map_delete st k) k' = (if k' = k then None else live_string env st k')"
  by (simp add: live_string_def kv_isExpired_def split: option.splits)

lemma live_string_expired: "kv_isExpired env st k \<Longrightarrow> live_string env st k = None"
  by (simp add: live_string_def split: option.splits)

lemma kv_Get_live: "wf_store st \<Longrightarrow> fst (kv_Get env st k) = Ret (live_string env st k)"
  by (auto simp: kv_Get_def live_string_def wf_value_def split: option.splits value_data.splits dest!: wf_store_lookup)

lemma live_string_Get: "live_string env (snd (kv_Get env st k)) = live_string env st"
  by (auto simp: kv_Get_def live_string_delete live_string_expired intro!: ext split: option.splits value_data.splits)

lemma live_string_expiry:
  "live_string env (set_expiry st k e) = (\<lambda>k'. if k' \<noteq> k then live_string env st k'
     else (case map_of st k of None \<Rightarrow> None | Some v \<Rightarrow>
       if 0 < e \<and> e < now_u64 env then None else (case VData v of VBytes b \<Rightarrow> Some b | _ \<Rightarrow> None)))"
  by (auto simp: set_expiry_def live_string_def kv_isExpired_def intro!: ext split: option.splits)

interpretation ks: string_store wf_store live_string kv_Get kv_Set set_expiry
proof
  fix st env k b e
  assume wf: "wf_store st"
  then show "wf_store (snd (kv_Get env st k))" "wf_store (kv_Set st k b)" "wf_store (set_expiry st k e)"
    by (simp_all add: wf_intros)
  show "fst (kv_Get env st k) = Ret (live_string env st k)" using wf by (rule kv_Get_live)
  show "live_string env (snd (kv_Get env st k)) = live_string env st" by (rule live_string_Get)
  show "live_string env (set_expiry st k e) = (live_string env st)(k := None)" if "e \<noteq> 0" "e < now_u64 env"
    unfolding live_string_expiry using that by (auto simp: word_gt_0 intro!: ext split: option.splits)
  show "live_string env (set_expiry st k e) = live_string env st"
    if "e = 0 \<or> now_u64 env \<le> e" "live_string env st k = Some b"
    unfolding live_string_expiry using that
    by (auto simp: live_string_def intro!: ext split: option.splits value_data.splits if_splits)
next
  show "live_string env (kv_Set st k b) = (live_string env st)(k \<mapsto> b)" for env st k b
    by (rule ext) (simp add: live_string_put)
qed

end
