(* ===== verification/Crc64.thy ===== *)
theory Crc64
  imports Go_Base
begin

unbundle bit_operations_syntax

text \<open>
  \<open>pkg/crc64/crc64.go\<close>: the CRC-64 of RDB files, computed byte by byte from a table of 256
  entries. The reference is the definition of the checksum: shift the register bit by bit and
  add the reflected polynomial whenever a one falls out. The lemmas show that every table entry
  is what eight bit steps give and that the table-driven loop computes the reference.
\<close>

section \<open>The code\<close>

definition table :: "64 word list" where
  "table =
    [0x0000000000000000, 0x7ad870c830358979, 0xf5b0e190606b12f2, 0x8f689158505e9b8b,
     0xc038e5739841b68f, 0xbae095bba8743ff6, 0x358804e3f82aa47d, 0x4f50742bc81f2d04,
     0xab28ecb46814fe75, 0xd1f09c7c5821770c, 0x5e980d24087fec87, 0x24407dec384a65fe,
     0x6b1009c7f05548fa, 0x11c8790fc060c183, 0x9ea0e857903e5a08, 0xe478989fa00bd371,
     0x7d08ff3b88be6f81, 0x07d08ff3b88be6f8, 0x88b81eabe8d57d73, 0xf2606e63d8e0f40a,
     0xbd301a4810ffd90e, 0xc7e86a8020ca5077, 0x4880fbd87094cbfc, 0x32588b1040a14285,
     0xd620138fe0aa91f4, 0xacf86347d09f188d, 0x2390f21f80c18306, 0x594882d7b0f40a7f,
     0x1618f6fc78eb277b, 0x6cc0863448deae02, 0xe3a8176c18803589, 0x997067a428b5bcf0,
     0xfa11fe77117cdf02, 0x80c98ebf2149567b, 0x0fa11fe77117cdf0, 0x75796f2f41224489,
     0x3a291b04893d698d, 0x40f16bccb908e0f4, 0xcf99fa94e9567b7f, 0xb5418a5cd963f206,
     0x513912c379682177, 0x2be1620b495da80e, 0xa489f35319033385, 0xde51839b2936bafc,
     0x9101f7b0e12997f8, 0xebd98778d11c1e81, 0x64b116208142850a, 0x1e6966e8b1770c73,
     0x8719014c99c2b083, 0xfdc17184a9f739fa, 0x72a9e0dcf9a9a271, 0x08719014c99c2b08,
     0x4721e43f0183060c, 0x3df994f731b68f75, 0xb29105af61e814fe, 0xc849756751dd9d87,
     0x2c31edf8f1d64ef6, 0x56e99d30c1e3c78f, 0xd9810c6891bd5c04, 0xa3597ca0a188d57d,
     0xec09088b6997f879, 0x96d1784359a27100, 0x19b9e91b09fcea8b, 0x636199d339c963f2,
     0xdf7adabd7a6e2d6f, 0xa5a2aa754a5ba416, 0x2aca3b2d1a053f9d, 0x50124be52a30b6e4,
     0x1f423fcee22f9be0, 0x659a4f06d21a1299, 0xeaf2de5e82448912, 0x902aae96b271006b,
     0x74523609127ad31a, 0x0e8a46c1224f5a63, 0x81e2d7997211c1e8, 0xfb3aa75142244891,
     0xb46ad37a8a3b6595, 0xceb2a3b2ba0eecec, 0x41da32eaea507767, 0x3b024222da65fe1e,
     0xa2722586f2d042ee, 0xd8aa554ec2e5cb97, 0x57c2c41692bb501c, 0x2d1ab4dea28ed965,
     0x624ac0f56a91f461, 0x1892b03d5aa47d18, 0x97fa21650afae693, 0xed2251ad3acf6fea,
     0x095ac9329ac4bc9b, 0x7382b9faaaf135e2, 0xfcea28a2faafae69, 0x8632586aca9a2710,
     0xc9622c4102850a14, 0xb3ba5c8932b0836d, 0x3cd2cdd162ee18e6, 0x460abd1952db919f,
     0x256b24ca6b12f26d, 0x5fb354025b277b14, 0xd0dbc55a0b79e09f, 0xaa03b5923b4c69e6,
     0xe553c1b9f35344e2, 0x9f8bb171c366cd9b, 0x10e3202993385610, 0x6a3b50e1a30ddf69,
     0x8e43c87e03060c18, 0xf49bb8b633338561, 0x7bf329ee636d1eea, 0x012b592653589793,
     0x4e7b2d0d9b47ba97, 0x34a35dc5ab7233ee, 0xbbcbcc9dfb2ca865, 0xc113bc55cb19211c,
     0x5863dbf1e3ac9dec, 0x22bbab39d3991495, 0xadd33a6183c78f1e, 0xd70b4aa9b3f20667,
     0x985b3e827bed2b63, 0xe2834e4a4bd8a21a, 0x6debdf121b863991, 0x1733afda2bb3b0e8,
     0xf34b37458bb86399, 0x8993478dbb8deae0, 0x06fbd6d5ebd3716b, 0x7c23a61ddbe6f812,
     0x3373d23613f9d516, 0x49aba2fe23cc5c6f, 0xc6c333a67392c7e4, 0xbc1b436e43a74e9d,
     0x95ac9329ac4bc9b5, 0xef74e3e19c7e40cc, 0x601c72b9cc20db47, 0x1ac40271fc15523e,
     0x5594765a340a7f3a, 0x2f4c0692043ff643, 0xa02497ca54616dc8, 0xdafce7026454e4b1,
     0x3e847f9dc45f37c0, 0x445c0f55f46abeb9, 0xcb349e0da4342532, 0xb1eceec59401ac4b,
     0xfebc9aee5c1e814f, 0x8464ea266c2b0836, 0x0b0c7b7e3c7593bd, 0x71d40bb60c401ac4,
     0xe8a46c1224f5a634, 0x927c1cda14c02f4d, 0x1d148d82449eb4c6, 0x67ccfd4a74ab3dbf,
     0x289c8961bcb410bb, 0x5244f9a98c8199c2, 0xdd2c68f1dcdf0249, 0xa7f41839ecea8b30,
     0x438c80a64ce15841, 0x3954f06e7cd4d138, 0xb63c61362c8a4ab3, 0xcce411fe1cbfc3ca,
     0x83b465d5d4a0eece, 0xf96c151de49567b7, 0x76048445b4cbfc3c, 0x0cdcf48d84fe7545,
     0x6fbd6d5ebd3716b7, 0x15651d968d029fce, 0x9a0d8ccedd5c0445, 0xe0d5fc06ed698d3c,
     0xaf85882d2576a038, 0xd55df8e515432941, 0x5a3569bd451db2ca, 0x20ed197575283bb3,
     0xc49581ead523e8c2, 0xbe4df122e51661bb, 0x3125607ab548fa30, 0x4bfd10b2857d7349,
     0x04ad64994d625e4d, 0x7e7514517d57d734, 0xf11d85092d094cbf, 0x8bc5f5c11d3cc5c6,
     0x12b5926535897936, 0x686de2ad05bcf04f, 0xe70573f555e26bc4, 0x9ddd033d65d7e2bd,
     0xd28d7716adc8cfb9, 0xa85507de9dfd46c0, 0x273d9686cda3dd4b, 0x5de5e64efd965432,
     0xb99d7ed15d9d8743, 0xc3450e196da80e3a, 0x4c2d9f413df695b1, 0x36f5ef890dc31cc8,
     0x79a59ba2c5dc31cc, 0x037deb6af5e9b8b5, 0x8c157a32a5b7233e, 0xf6cd0afa9582aa47,
     0x4ad64994d625e4da, 0x300e395ce6106da3, 0xbf66a804b64ef628, 0xc5bed8cc867b7f51,
     0x8aeeace74e645255, 0xf036dc2f7e51db2c, 0x7f5e4d772e0f40a7, 0x05863dbf1e3ac9de,
     0xe1fea520be311aaf, 0x9b26d5e88e0493d6, 0x144e44b0de5a085d, 0x6e963478ee6f8124,
     0x21c640532670ac20, 0x5b1e309b16452559, 0xd476a1c3461bbed2, 0xaeaed10b762e37ab,
     0x37deb6af5e9b8b5b, 0x4d06c6676eae0222, 0xc26e573f3ef099a9, 0xb8b627f70ec510d0,
     0xf7e653dcc6da3dd4, 0x8d3e2314f6efb4ad, 0x0256b24ca6b12f26, 0x788ec2849684a65f,
     0x9cf65a1b368f752e, 0xe62e2ad306bafc57, 0x6946bb8b56e467dc, 0x139ecb4366d1eea5,
     0x5ccebf68aecec3a1, 0x2616cfa09efb4ad8, 0xa97e5ef8cea5d153, 0xd3a62e30fe90582a,
     0xb0c7b7e3c7593bd8, 0xca1fc72bf76cb2a1, 0x45775673a732292a, 0x3faf26bb9707a053,
     0x70ff52905f188d57, 0x0a2722586f2d042e, 0x854fb3003f739fa5, 0xff97c3c80f4616dc,
     0x1bef5b57af4dc5ad, 0x61372b9f9f784cd4, 0xee5fbac7cf26d75f, 0x9487ca0fff135e26,
     0xdbd7be24370c7322, 0xa10fceec0739fa5b, 0x2e675fb4576761d0, 0x54bf2f7c6752e8a9,
     0xcdcf48d84fe75459, 0xb71738107fd2dd20, 0x387fa9482f8c46ab, 0x42a7d9801fb9cfd2,
     0x0df7adabd7a6e2d6, 0x772fdd63e7936baf, 0xf8474c3bb7cdf024, 0x829f3cf387f8795d,
     0x66e7a46c27f3aa2c, 0x1c3fd4a417c62355, 0x935745fc4798b8de, 0xe98f353477ad31a7,
     0xa6df411fbfb21ca3, 0xdc0731d78f8795da, 0x536fa08fdfd90e51, 0x29b7d047efec8728]"

definition crc64_step :: "64 word \<Rightarrow> char \<Rightarrow> 64 word" where
  "crc64_step crc v = table ! unat ((ucast crc :: 8 word) XOR of_char v) XOR drop_bit 8 crc"

definition crc64 :: "64 word \<Rightarrow> string \<Rightarrow> 64 word" where
  "crc64 crc b = foldl crc64_step crc b"

definition Digest :: "string \<Rightarrow> 64 word" where
  "Digest b = crc64 0 b"

text \<open>The \<open>hash.Hash64\<close> value: its state is the register.\<close>

record digest =
  crc :: "64 word"

definition New :: digest where
  "New = \<lparr>crc = 0\<rparr>"

definition digest_Write :: "digest \<Rightarrow> string \<Rightarrow> digest" where
  "digest_Write h p = h\<lparr>crc := crc64 (crc h) p\<rparr>"

definition Sum64 :: "digest \<Rightarrow> 64 word" where
  "Sum64 d = crc d"

definition byte_at :: "64 word \<Rightarrow> nat \<Rightarrow> char" where
  "byte_at w n = char_of (uint (drop_bit n w))"

definition Sum :: "digest \<Rightarrow> string \<Rightarrow> string" where
  "Sum d inp = (let s = Sum64 d in inp @ map (byte_at s) [0, 8, 16, 24, 32, 40, 48, 56])"

definition digest_Reset :: "digest \<Rightarrow> digest" where
  "digest_Reset d = d\<lparr>crc := 0\<rparr>"

section \<open>The reference\<close>

definition poly :: "64 word" where
  "poly = 0x95ac9329ac4bc9b5"

definition bit_step :: "64 word \<Rightarrow> 64 word" where
  "bit_step c = (if bit c 0 then poly XOR drop_bit 1 c else drop_bit 1 c)"

definition byte_steps :: "64 word \<Rightarrow> 64 word" where
  "byte_steps c = bit_step (bit_step (bit_step (bit_step (bit_step (bit_step (bit_step (bit_step c)))))))"

definition crc64_bitwise :: "64 word \<Rightarrow> string \<Rightarrow> 64 word" where
  "crc64_bitwise c b = foldl (\<lambda>c v. byte_steps (c XOR of_char v)) c b"

lemma bit_step_xor: "bit_step (x XOR y) = bit_step x XOR bit_step y"
  by (auto simp: bit_step_def bit_xor_iff drop_bit_xor ac_simps)

lemma byte_steps_xor: "byte_steps (x XOR y) = byte_steps x XOR byte_steps y"
  by (simp add: byte_steps_def bit_step_xor)

lemma bit_step_even: "\<not> bit c 0 \<Longrightarrow> bit_step c = drop_bit 1 c"
  by (simp add: bit_step_def)

lemma bits:
  "byte_steps 1 = 0x7ad870c830358979" "byte_steps 2 = 0xf5b0e190606b12f2" "byte_steps 4 = 0xc038e5739841b68f"
  "byte_steps 8 = 0xab28ecb46814fe75" "byte_steps 16 = 0x7d08ff3b88be6f81" "byte_steps 32 = 0xfa11fe77117cdf02"
  "byte_steps 64 = 0xdf7adabd7a6e2d6f" "byte_steps 128 = 0x95ac9329ac4bc9b5"
  by (simp_all add: byte_steps_def bit_step_def poly_def)

definition double :: "64 word \<Rightarrow> 64 word list \<Rightarrow> 64 word list" where
  "double t xs = xs @ map (\<lambda>x. t XOR x) xs"

lemma table_double:
  "table = fold double (map byte_steps [1, 2, 4, 8, 16, 32, 64, 128]) [0]"
  by (simp add: table_def double_def bits)

lemma of_nat_xor: "i < 2 ^ k \<Longrightarrow> k < 64 \<Longrightarrow> (of_nat (2 ^ k + i) :: 64 word) = 2 ^ k XOR of_nat i"
proof -
  assume i: "i < 2 ^ k" and "k < 64"
  have "\<not> bit i k" using i by (simp add: bit_iff_odd)
  then have "(2 ^ k :: 64 word) AND of_nat i = 0"
    by (intro bit_word_eqI) (auto simp: bit_simps)
  from disjunctive_add_eq_xor [OF this] show ?thesis by simp
qed

lemma double_range:
  assumes "k < 64"
  shows "double (byte_steps (2 ^ k)) (map (\<lambda>i. byte_steps (of_nat i)) [0..<2 ^ k])
    = map (\<lambda>i. byte_steps (of_nat i)) [0..<2 ^ (k + 1)]"
proof -
  have "[0..<2 ^ (k + 1)] = [0..<2 ^ k] @ [2 ^ k..<2 ^ k + 2 ^ k]"
    using upt_add_eq_append [of 0 "2 ^ k" "2 ^ k"] by (simp add: mult_2)
  also have "[2 ^ k..<2 ^ k + 2 ^ k] = map (\<lambda>i. 2 ^ k + i) [0..<2 ^ k]"
    using map_add_upt [of "2 ^ k" "2 ^ k"] by (simp add: add.commute)
  finally show ?thesis
    using assms by (simp add: double_def comp_def of_nat_xor [symmetric] byte_steps_xor [symmetric] del: of_nat_add)
qed

lemma table_entries: "table = map (\<lambda>i. byte_steps (of_nat i)) [0..<256]"
proof -
  define T where "T k = map (\<lambda>i. byte_steps (of_nat i :: 64 word)) [0..<2 ^ k]" for k
  have "double (byte_steps (2 ^ k)) (T k) = T (k + 1)" if "k < 64" for k
    unfolding T_def using that by (rule double_range)
  from this [of 0] this [of 1] this [of 2] this [of 3] this [of 4] this [of 5] this [of 6] this [of 7]
  have "fold double (map byte_steps [1, 2, 4, 8, 16, 32, 64, 128]) (T 0) = T 8"
    by (simp add: eval_nat_numeral)
  moreover have "T 0 = [0]" by (simp add: T_def byte_steps_def bit_step_def)
  ultimately show ?thesis by (simp add: table_double T_def)
qed

lemma byte_steps_high: "byte_steps (push_bit 8 x) = drop_bit 8 (push_bit 8 x)"
proof -
  have "bit_step (drop_bit n (push_bit 8 x)) = drop_bit (n + 1) (push_bit 8 x)" if "n < 8" for n
    using that by (simp add: bit_step_even bit_simps)
  from this [of 0] this [of 1] this [of 2] this [of 3] this [of 4] this [of 5] this [of 6] this [of 7]
  show ?thesis by (simp add: byte_steps_def eval_nat_numeral)
qed

lemma word_split8: "(c :: 64 word) = push_bit 8 (drop_bit 8 c) XOR ucast (ucast c :: 8 word)"
  by (rule bit_word_eqI) (auto simp: bit_simps)

lemma ucast_of_char: "ucast (of_char v :: 8 word) = (of_char v :: 64 word)"
  by (cases v) (simp add: of_char_def horner_sum_simps)

lemma step_bitwise: "crc64_step c v = byte_steps (c XOR of_char v)"
proof -
  let ?b = "(ucast c :: 8 word) XOR of_char v"
  have u: "unat ?b < 256" using unsigned_less [of ?b, where ?'a = nat] by simp
  have "ucast ?b = ucast (ucast c :: 8 word) XOR (of_char v :: 64 word)"
    by (simp add: unsigned_xor_eq ucast_of_char)
  then have split: "c XOR of_char v = push_bit 8 (drop_bit 8 c) XOR ucast ?b"
    by (subst word_split8 [of c]) (simp add: ac_simps)
  have "table ! unat ?b = byte_steps (ucast ?b)"
    unfolding table_entries using u by simp
  moreover have "drop_bit 8 (push_bit 8 (drop_bit 8 c)) = drop_bit 8 c"
    by (rule bit_word_eqI) (auto simp: bit_simps dest: bit_imp_le_length)
  ultimately show ?thesis
    unfolding crc64_step_def split byte_steps_xor byte_steps_high by (simp add: ac_simps)
qed

lemma crc64_bitwise: "crc64 c b = crc64_bitwise c b"
  by (induction b arbitrary: c) (simp_all add: crc64_def crc64_bitwise_def step_bitwise)

lemma crc64_append: "crc64 c (a @ b) = crc64 (crc64 c a) b"
  by (simp add: crc64_def)

end
