(* ===== verification/Rdb.thy ===== *)
theory Rdb
  imports Keyval Crc64
begin

text \<open>
  \<open>pkg/rdb/rdb.go\<close> and \<open>pkg/rdb/saver.go\<close>: reading and writing RDB files.

  The reader is the list of bytes not read yet, beside the whole content, which the checksum is
  taken over. The LZF decompressor is the library \<open>golzf\<close> and a parameter \<open>lzf\<close>: given the
  compressed bytes and the length of the output buffer it returns an error or the buffer
  afterwards. What is only logged is left out.
\<close>

section \<open>Integers in bytes\<close>

fun le_bytes :: "nat \<Rightarrow> int \<Rightarrow> string" where
  "le_bytes 0 n = []"
| "le_bytes (Suc k) n = char_of n # le_bytes k (n div 256)"

definition le_val :: "string \<Rightarrow> int" where
  "le_val s = foldr (\<lambda>c acc. of_char c + 256 * acc) s 0"

definition be_bytes :: "nat \<Rightarrow> int \<Rightarrow> string" where
  "be_bytes k n = rev (le_bytes k n)"

definition be_val :: "string \<Rightarrow> int" where
  "be_val s = le_val (rev s)"

section \<open>The parser\<close>

datatype rdb_error =
    RdbEOF
  | RdbUnexpectedEOF
  | ErrInvalidRDBHeader
  | RdbUnsupportedObject string
  | RdbUnsupportedEncoding int
  | RdbBadAux num_error
  | RdbLzf string
  | RdbTooShort
  | RdbChecksumMismatch int int

datatype 'a rres = ROk 'a string | RErr rdb_error

fun rbind :: "'a rres \<Rightarrow> ('a \<Rightarrow> string \<Rightarrow> 'b rres) \<Rightarrow> 'b rres" where
  "rbind (ROk x s) f = f x s"
| "rbind (RErr e) f = RErr e"

record rdb_parser =
  rdb_length :: int
  rdb_db :: int
  rdb_data :: kvstore

definition NewRDBParser :: rdb_parser where
  "NewRDBParser = \<lparr>rdb_length = 0, rdb_db = 0, rdb_data = []\<rparr>"

fun readByte :: "string \<Rightarrow> char rres" where
  "readByte [] = RErr RdbEOF"
| "readByte (c # s) = ROk c s"

definition readBytes :: "int \<Rightarrow> string \<Rightarrow> string rres" where
  "readBytes n s =
     (if n \<le> int (length s) then ROk (take (nat n) s) (drop (nat n) s)
      else if s = [] then RErr RdbEOF else RErr RdbUnexpectedEOF)"

text \<open>The two high bits of the first byte select the form; the result is the length and whether
  it is the number of a special format.\<close>

definition readLength :: "string \<Rightarrow> (int \<times> bool) rres" where
  "readLength s =
     rbind (readByte s) (\<lambda>b s.
       (let encType = (of_char b :: int) div 64; low = (of_char b :: int) mod 64 in
        if encType = 0 then ROk (low, False) s
        else if encType = 1 then rbind (readByte s) (\<lambda>nextByte s. ROk (low * 256 + of_char nextByte, False) s)
        else if encType = 2 then rbind (readBytes 4 s) (\<lambda>bb s. ROk (be_val bb, False) s)
        else ROk (low, True) s))"

type_synonym lzf = "string \<Rightarrow> int \<Rightarrow> string + string"

definition readString :: "lzf \<Rightarrow> string \<Rightarrow> string rres" where
  "readString lzf s =
     rbind (readLength s) (\<lambda>(len, special) s.
       if special then
         (if len = 0 then rbind (readByte s) (\<lambda>b s. ROk (FormatInt (of_char b)) s)
          else if len = 1 then rbind (readBytes 2 s) (\<lambda>bb s. ROk (FormatInt (le_val bb)) s)
          else if len = 2 then rbind (readBytes 4 s) (\<lambda>bb s. ROk (FormatInt (le_val bb)) s)
          else if len = 3 then
            rbind (readLength s) (\<lambda>(compressedLength, _) s.
            rbind (readLength s) (\<lambda>_ s.
            rbind (readBytes compressedLength s) (\<lambda>compressed s.
              (case lzf compressed compressedLength of
                 Inl e \<Rightarrow> RErr (RdbLzf e)
               | Inr decompressed \<Rightarrow> ROk decompressed s))))
          else RErr (RdbUnsupportedEncoding len))
       else readBytes len s)"

definition readHeader :: "string \<Rightarrow> unit rres" where
  "readHeader s =
     rbind (readBytes 9 s) (\<lambda>header s. if take 5 header \<noteq> ''REDIS'' then RErr ErrInvalidRDBHeader else ROk () s)"

text \<open>The numeric fields are parsed only to be logged, but a field that does not parse is an
  error.\<close>

definition handlerAuxiliaryField :: "lzf \<Rightarrow> string \<Rightarrow> unit rres" where
  "handlerAuxiliaryField lzf s =
     rbind (readString lzf s) (\<lambda>key s.
     rbind (readString lzf s) (\<lambda>val s.
       if key = ''ctime'' \<or> key = ''used-mem'' \<or> key = ''redis-bits'' then
         (case ParseInt val of Inl e \<Rightarrow> RErr (RdbBadAux e) | Inr _ \<Rightarrow> ROk () s)
       else ROk () s))"

definition handleSelectDB :: "rdb_parser \<Rightarrow> string \<Rightarrow> rdb_parser rres" where
  "handleSelectDB p s = rbind (readLength s) (\<lambda>(db, _) s. ROk (p\<lparr>rdb_db := db\<rparr>) s)"

definition handleResizeDB :: "rdb_parser \<Rightarrow> string \<Rightarrow> rdb_parser rres" where
  "handleResizeDB p s =
     rbind (readLength s) (\<lambda>(len, _) s.
     rbind (readLength s) (\<lambda>_ s. ROk (p\<lparr>rdb_length := len\<rparr>) s))"

definition objTypeName :: "char \<Rightarrow> string" where
  "objTypeName objType =
     (let n = (of_char objType :: nat) in
      if n = 0 then ''string'' else if n = 1 then ''list'' else if n = 2 then ''set''
      else if n = 3 then ''sorted set'' else if n = 4 then ''hash'' else if n = 9 then ''zip map''
      else if n = 10 then ''zip list'' else if n = 11 then ''int set'' else if n = 12 then ''sorted set in zip list''
      else if n = 13 then ''hash map in zip list'' else if n = 14 then ''list in quick list'' else ''unknown'')"

definition handleObject :: "go_env \<Rightarrow> lzf \<Rightarrow> char \<Rightarrow> 64 word \<Rightarrow> rdb_parser \<Rightarrow> string \<Rightarrow> rdb_parser rres" where
  "handleObject env lzf objType expiry p s =
     (if objType \<noteq> CHR 0x00 then RErr (RdbUnsupportedObject (objTypeName objType))
      else
        rbind (readString lzf s) (\<lambda>key s.
        rbind (readString lzf s) (\<lambda>bytes s.
          if 0 < expiry \<and> expiry < now_u64 env then ROk p s
          else ROk (p\<lparr>rdb_data := map_put (rdb_data p) key
                 \<lparr>VType = ValueTypeString, VData = VBytes bytes, Expiry = expiry\<rparr>\<rparr>) s)))"

text \<open>An expiry in seconds is taken as it is, like one in milliseconds.\<close>

definition handleExpiryTime :: "go_env \<Rightarrow> lzf \<Rightarrow> bool \<Rightarrow> rdb_parser \<Rightarrow> string \<Rightarrow> rdb_parser rres" where
  "handleExpiryTime env lzf ms p s =
     rbind (readBytes (if ms then 8 else 4) s) (\<lambda>expBytes s.
     rbind (readByte s) (\<lambda>objType s.
       handleObject env lzf objType (word_of_int (le_val expBytes)) p s))"

definition verifyChecksum :: "string \<Rightarrow> rdb_error option" where
  "verifyChecksum content =
     (if length content < 8 then Some RdbTooShort
      else
        (let data = take (length content - 8) content;
             expected = (word_of_int (le_val (drop (length content - 8) content)) :: 64 word);
             calculated = Sum64 (digest_Write New data)
         in if calculated \<noteq> expected then Some (RdbChecksumMismatch (uint expected) (uint calculated)) else None))"

subsection \<open>The parser consumes its input\<close>

definition shortens :: "string \<Rightarrow> 'a rres \<Rightarrow> bool" where
  "shortens s r \<longleftrightarrow> (\<forall>x rest. r = ROk x rest \<longrightarrow> length rest \<le> length s)"

lemma shortens_simps [simp]: "shortens s (RErr e)" "shortens s (ROk x s)"
  by (simp_all add: shortens_def)

lemma shortens_bind: "shortens s r \<Longrightarrow> (\<And>x rest. shortens rest (f x rest)) \<Longrightarrow> shortens s (rbind r f)"
  by (cases r) (simp_all add: shortens_def, meson le_trans)

lemma shortens_readByte: "shortens s (readByte s)"
  by (cases s) (simp_all add: shortens_def)

lemma shortens_readBytes: "shortens s (readBytes n s)"
  by (simp add: shortens_def readBytes_def)

lemma shortens_readLength: "shortens s (readLength s)"
  by (auto simp: readLength_def Let_def intro!: shortens_bind shortens_readByte shortens_readBytes)

lemma shortens_readString: "shortens s (readString lzf s)"
  by (auto simp: readString_def split: sum.splits
      intro!: shortens_bind shortens_readByte shortens_readBytes shortens_readLength)

lemma shortens_handlers:
  "shortens s (handlerAuxiliaryField lzf s)" "shortens s (handleSelectDB p s)" "shortens s (handleResizeDB p s)"
  "shortens s (handleObject env lzf t e p s)" "shortens s (handleExpiryTime env lzf ms p s)"
proof -
  show h: "shortens s (handleObject env lzf t e p s)" for t e s
    by (auto simp: handleObject_def intro!: shortens_bind shortens_readString)
  show "shortens s (handlerAuxiliaryField lzf s)"
    by (auto simp: handlerAuxiliaryField_def split: sum.splits intro!: shortens_bind shortens_readString)
  show "shortens s (handleSelectDB p s)" "shortens s (handleResizeDB p s)"
    by (auto simp: handleSelectDB_def handleResizeDB_def intro!: shortens_bind shortens_readLength)
  show "shortens s (handleExpiryTime env lzf ms p s)"
    by (auto simp: handleExpiryTime_def intro!: shortens_bind shortens_readBytes shortens_readByte h)
qed

text \<open>One round of the loop of \<open>ParseRDB\<close> after its marker byte: \<open>None\<close> when the file ends.\<close>

definition rdb_object :: "go_env \<Rightarrow> lzf \<Rightarrow> string \<Rightarrow> char \<Rightarrow> rdb_parser \<Rightarrow> string \<Rightarrow> rdb_parser option rres" where
  "rdb_object env lzf content objType p s =
     (if objType = CHR 0xFF then (case verifyChecksum content of Some e \<Rightarrow> RErr e | None \<Rightarrow> ROk None s)
      else if objType = CHR 0xFA then rbind (handlerAuxiliaryField lzf s) (\<lambda>_ s. ROk (Some p) s)
      else if objType = CHR 0xFE then rbind (handleSelectDB p s) (\<lambda>p s. ROk (Some p) s)
      else if objType = CHR 0xFB then rbind (handleResizeDB p s) (\<lambda>p s. ROk (Some p) s)
      else if objType = CHR 0xFD then rbind (handleExpiryTime env lzf False p s) (\<lambda>p s. ROk (Some p) s)
      else if objType = CHR 0xFC then rbind (handleExpiryTime env lzf True p s) (\<lambda>p s. ROk (Some p) s)
      else rbind (handleObject env lzf objType 0 p s) (\<lambda>p s. ROk (Some p) s))"

lemma shortens_rdb_object: "shortens s (rdb_object env lzf content objType p s)"
  by (auto simp: rdb_object_def split: option.splits intro!: shortens_bind shortens_handlers)

function rdb_loop :: "go_env \<Rightarrow> lzf \<Rightarrow> string \<Rightarrow> rdb_parser \<Rightarrow> string \<Rightarrow> rdb_error + rdb_parser" where
  "rdb_loop env lzf content p [] = Inr p"
| "rdb_loop env lzf content p (objType # s) =
     (case rdb_object env lzf content objType p s of
        RErr e \<Rightarrow> Inl e
      | ROk None _ \<Rightarrow> Inr p
      | ROk (Some p) s \<Rightarrow> rdb_loop env lzf content p s)"
  by pat_completeness auto
termination
  by (relation "measure (\<lambda>(env, lzf, content, p, s). length s)")
    (auto simp: less_Suc_eq_le dest: shortens_rdb_object [unfolded shortens_def, rule_format])

definition ParseRDB :: "go_env \<Rightarrow> lzf \<Rightarrow> string \<Rightarrow> rdb_error + rdb_parser" where
  "ParseRDB env lzf content =
     (case readHeader content of
        RErr e \<Rightarrow> Inl e
      | ROk _ s \<Rightarrow> rdb_loop env lzf content NewRDBParser s)"

definition GetData :: "rdb_parser \<Rightarrow> kvstore" where
  "GetData p = rdb_data p"

section \<open>The saver\<close>

text \<open>Every function returns the bytes it hands to the writer; \<open>io.MultiWriter\<close> feeds the same
  bytes to the checksum.\<close>

definition writeLength :: "int \<Rightarrow> string" where
  "writeLength len =
     (if len \<le> 63 then [char_of len]
      else if len \<le> 16383 then [char_of (len div 256 + 64), char_of (len mod 256)]
      else CHR 0x80 # be_bytes 4 (len mod 2 ^ 32))"

definition writeBytes :: "string \<Rightarrow> string" where
  "writeBytes b = writeLength (int (length b)) @ b"

definition rdb_writeString :: "string \<Rightarrow> string" where
  "rdb_writeString str = writeBytes str"

definition writeHeader :: string where
  "writeHeader = ''REDIS0012''"

datatype aux_value = AuxString string | AuxInt8 int | AuxInt32 int

fun writeWithSpecialFormat :: "aux_value \<Rightarrow> string" where
  "writeWithSpecialFormat (AuxInt8 v) = [CHR 0xC0, char_of (v mod 256)]"
| "writeWithSpecialFormat (AuxInt32 v) = CHR 0xC2 # le_bytes 4 (v mod 2 ^ 32)"
| "writeWithSpecialFormat (AuxString s) = []"

text \<open>For a string the key is written a second time where the value belongs.\<close>

definition writeAuxiliaryField :: "string \<Rightarrow> aux_value \<Rightarrow> string" where
  "writeAuxiliaryField key val =
     CHR 0xFA # rdb_writeString key @
     (case val of AuxString s \<Rightarrow> rdb_writeString key | _ \<Rightarrow> writeWithSpecialFormat val)"

definition writeExpire :: "64 word \<Rightarrow> string" where
  "writeExpire expiry = (if expiry = 0 then [] else CHR 0xFC # le_bytes 8 (uint expiry))"

definition writeObject :: "string \<Rightarrow> kvalue \<Rightarrow> string + string" where
  "writeObject key val =
     (if VType val \<noteq> ValueTypeString then Inl (''unsupported value type: '' @ value_type_String (VType val))
      else
        (let expire = (if 0 < Expiry val then writeExpire (Expiry val) else []) in
         case VData val of
           VBytes data \<Rightarrow> Inr (expire @ [CHR 0x00] @ rdb_writeString key @ writeBytes data)
         | _ \<Rightarrow> Inl (''invalid data type for key '' @ key)))"

fun writeObjects :: "kvstore \<Rightarrow> string + string" where
  "writeObjects [] = Inr []"
| "writeObjects ((key, val) # data) =
     (case writeObject key val of
        Inl e \<Rightarrow> Inl e
      | Inr b \<Rightarrow> (case writeObjects data of Inl e \<Rightarrow> Inl e | Inr bs \<Rightarrow> Inr (b @ bs)))"

text \<open>\<open>int32(time.Now().Unix())\<close>\<close>

definition ctime_i32 :: "go_env \<Rightarrow> int" where
  "ctime_i32 env = (now_ns env div 1000000000 + 2 ^ 31) mod 2 ^ 32 - 2 ^ 31"

definition rdb_preamble :: "go_env \<Rightarrow> kvstore \<Rightarrow> string" where
  "rdb_preamble env data =
     writeHeader @
     writeAuxiliaryField ''redis-ver'' (AuxString ''7.4.0'') @
     writeAuxiliaryField ''redis-bits'' (AuxInt8 64) @
     writeAuxiliaryField ''ctime'' (AuxInt32 (ctime_i32 env)) @
     writeAuxiliaryField ''used-mem'' (AuxInt32 0) @
     writeAuxiliaryField ''aof-base'' (AuxInt8 0) @
     [CHR 0xFE] @ writeLength 0 @
     [CHR 0xFB] @ writeLength (int (length data)) @
     writeLength (int (length (filter (\<lambda>kv. 0 < Expiry (snd kv)) data)))"

definition writeChecksum :: "string \<Rightarrow> string" where
  "writeChecksum written = le_bytes 8 (uint (Sum64 (digest_Write New written)))"

definition SaveRDB :: "go_env \<Rightarrow> kvstore \<Rightarrow> string + string" where
  "SaveRDB env data =
     (case writeObjects data of
        Inl e \<Rightarrow> Inl e
      | Inr objects \<Rightarrow>
          (let body = rdb_preamble env data @ objects @ [CHR 0xFF] in Inr (body @ writeChecksum body)))"

section \<open>Reading back\<close>

lemma length_le_bytes [simp]: "length (le_bytes k n) = k"
  by (induction k n rule: le_bytes.induct) simp_all

lemma le_val_bytes: "le_val (le_bytes k n) = n mod 256 ^ k"
proof (induction k n rule: le_bytes.induct)
  case (2 k n)
  have "le_val (le_bytes (Suc k) n) = n mod 256 + 256 * (n div 256 mod 256 ^ k)"
    using 2 by (simp add: le_val_def)
  also have "\<dots> = n mod (256 * 256 ^ k)" by (simp add: zmod_zmult2_eq)
  finally show ?case by simp
qed (simp add: le_val_def)

lemma be_val_bytes: "be_val (be_bytes k n) = n mod 256 ^ k"
  by (simp add: be_val_def be_bytes_def le_val_bytes)

lemma length_be_bytes [simp]: "length (be_bytes k n) = k"
  by (simp add: be_bytes_def)

lemma readBytes_append: "int (length b) = n \<Longrightarrow> readBytes n (b @ s) = ROk b s"
  by (auto simp: readBytes_def)

lemma of_char_of_int: "(of_char (char_of (n :: int)) :: int) = n mod 256"
  by simp

lemma readLength_write: "0 \<le> n \<Longrightarrow> n < 2 ^ 32 \<Longrightarrow> readLength (writeLength n @ s) = ROk (n, False) s"
proof -
  assume n: "0 \<le> n" "n < 2 ^ 32"
  consider "n \<le> 63" | "63 < n" "n \<le> 16383" | "16383 < n" by linarith
  then show ?thesis
  proof cases
    case 1
    then show ?thesis using n by (simp add: readLength_def writeLength_def)
  next
    case 2
    define q where "q = n div 256"
    have q: "0 \<le> q" "q < 64" using 2 by (simp_all add: q_def)
    have "(q + 64) mod 256 = q + 64" "(q + 64) div 64 = 1" "(q + 64) mod 64 = q"
      using q by (simp_all add: mod_pos_pos_trivial)
    moreover have "q * 256 + n mod 256 = n" by (simp add: q_def)
    ultimately show ?thesis using 2 by (simp add: readLength_def writeLength_def Let_def q_def)
  next
    case 3
    have "readBytes 4 (be_bytes 4 n @ s) = ROk (be_bytes 4 n) s" by (rule readBytes_append) simp
    then show ?thesis using 3 n by (simp add: readLength_def writeLength_def be_val_bytes Let_def)
  qed
qed

lemma readString_write: "int (length b) < 2 ^ 32 \<Longrightarrow> readString lzf (writeBytes b @ s) = ROk b s"
  by (simp add: readString_def writeBytes_def readLength_write readBytes_append)

lemma readString_int8: "readString lzf (writeWithSpecialFormat (AuxInt8 v) @ s) = ROk (FormatInt (v mod 256)) s"
  by (simp add: readString_def readLength_def Let_def)

lemma readString_int32: "readString lzf (writeWithSpecialFormat (AuxInt32 v) @ s) = ROk (FormatInt (v mod 2 ^ 32)) s"
proof -
  have "readBytes 4 (le_bytes 4 (v mod 2 ^ 32) @ s) = ROk (le_bytes 4 (v mod 2 ^ 32)) s"
    by (rule readBytes_append) simp
  then show ?thesis by (simp add: readString_def readLength_def Let_def le_val_bytes)
qed

lemma aux_string: "int (length key) < 2 ^ 32 \<Longrightarrow> key \<notin> {''ctime'', ''used-mem'', ''redis-bits''} \<Longrightarrow>
  handlerAuxiliaryField lzf (rdb_writeString key @ rdb_writeString key @ s) = ROk () s"
  by (simp add: handlerAuxiliaryField_def rdb_writeString_def readString_write)

lemma aux_number:
  assumes "int (length key) < 2 ^ 32" and "readString lzf (b @ s) = ROk (FormatInt i) s" and "in_i64 i"
  shows "handlerAuxiliaryField lzf (rdb_writeString key @ b @ s) = ROk () s"
  using assms by (simp add: handlerAuxiliaryField_def rdb_writeString_def readString_write ParseInt_FormatInt)

text \<open>The loop over what the saver writes, part by part.\<close>

declare rdb_loop.simps(2) [simp del]

lemma loop_step:
  "rdb_object env lzf content c p s = ROk (Some q) rest \<Longrightarrow> rdb_loop env lzf content p (c # s) = rdb_loop env lzf content q rest"
  by (simp add: rdb_loop.simps(2))

lemma loop_aux:
  "handlerAuxiliaryField lzf s = ROk () rest \<Longrightarrow> rdb_loop env lzf content p (CHR 0xFA # s) = rdb_loop env lzf content p rest"
  by (rule loop_step) (simp add: rdb_object_def)

lemma i32_in: "in_i64 (i mod 256)" "in_i64 (i mod 2 ^ 32)"
proof -
  have small: "in_i64 x" if "0 \<le> x" "x < 2 ^ 32" for x using that by (simp add: in_i64_def)
  have "i mod 256 < 256" "i mod 2 ^ 32 < 2 ^ 32" by simp_all
  then show "in_i64 (i mod 256)" "in_i64 (i mod 2 ^ 32)" by (intro small; simp)+
qed

lemma loop_preamble:
  assumes "int (length data) < 2 ^ 32"
  shows "\<exists>p. rdb_data p = [] \<and> readHeader (rdb_preamble env data @ s) = ROk () (drop 9 (rdb_preamble env data) @ s) \<and>
    rdb_loop env' lzf content NewRDBParser (drop 9 (rdb_preamble env data) @ s) = rdb_loop env' lzf content p s"
proof -
  let ?e = "int (length (filter (\<lambda>kv. 0 < Expiry (snd kv)) data))"
  let ?p = "NewRDBParser\<lparr>rdb_db := 0, rdb_length := int (length data)\<rparr>"
  define sizes where "sizes = writeLength (int (length data)) @ writeLength ?e @ s"
  have "?e < 2 ^ 32" using assms length_filter_le [of "\<lambda>kv. 0 < Expiry (snd kv)" data] by linarith
  then have resize: "handleResizeDB (NewRDBParser\<lparr>rdb_db := 0\<rparr>) sizes = ROk ?p s"
    using assms by (simp add: handleResizeDB_def sizes_def readLength_write)
  have select: "handleSelectDB NewRDBParser (writeLength 0 @ r) = ROk (NewRDBParser\<lparr>rdb_db := 0\<rparr>) r" for r
    by (simp add: handleSelectDB_def readLength_write)
  define aux where "aux key val = rdb_writeString key @ writeWithSpecialFormat val" for key val
  have i8: "rdb_loop env' lzf content p (CHR 0xFA # aux key (AuxInt8 v) @ r) = rdb_loop env' lzf content p r"
    if "int (length key) < 2 ^ 32" for p key v r
    using aux_number [OF that readString_int8 i32_in(1)] by (intro loop_aux) (simp add: aux_def)
  have i32: "rdb_loop env' lzf content p (CHR 0xFA # aux key (AuxInt32 v) @ r) = rdb_loop env' lzf content p r"
    if "int (length key) < 2 ^ 32" for p key v r
    using aux_number [OF that readString_int32 i32_in(2)] by (intro loop_aux) (simp add: aux_def)
  have ver: "rdb_loop env' lzf content p (CHR 0xFA # rdb_writeString ''redis-ver'' @ rdb_writeString ''redis-ver'' @ r)
      = rdb_loop env' lzf content p r" for p r
    by (intro loop_aux aux_string) simp_all
  have pre: "rdb_preamble env data @ s = ''REDIS0012'' @
      CHR 0xFA # rdb_writeString ''redis-ver'' @ rdb_writeString ''redis-ver'' @
      CHR 0xFA # aux ''redis-bits'' (AuxInt8 64) @ CHR 0xFA # aux ''ctime'' (AuxInt32 (ctime_i32 env)) @
      CHR 0xFA # aux ''used-mem'' (AuxInt32 0) @ CHR 0xFA # aux ''aof-base'' (AuxInt8 0) @
      CHR 0xFE # writeLength 0 @ CHR 0xFB # sizes"
    by (simp add: rdb_preamble_def writeHeader_def writeAuxiliaryField_def aux_def sizes_def)
  have len: "9 \<le> length (rdb_preamble env data)" by (simp add: rdb_preamble_def writeHeader_def)
  then have drop: "drop 9 (rdb_preamble env data) @ s = drop 9 (rdb_preamble env data @ s)" by simp
  have "rdb_loop env' lzf content NewRDBParser (drop 9 (rdb_preamble env data) @ s) = rdb_loop env' lzf content ?p s"
    unfolding drop pre
    using loop_step [of env' lzf content "CHR 0xFE" NewRDBParser "writeLength 0 @ CHR 0xFB # sizes"]
      loop_step [of env' lzf content "CHR 0xFB" "NewRDBParser\<lparr>rdb_db := 0\<rparr>" sizes]
    by (simp add: ver i8 i32 rdb_object_def select resize)
  moreover have "readHeader (rdb_preamble env data @ s) = ROk () (drop 9 (rdb_preamble env data) @ s)"
    unfolding drop unfolding pre by (simp add: readHeader_def readBytes_def)
  ultimately show ?thesis by (intro exI [of _ ?p]) (simp add: NewRDBParser_def)
qed

lemma le_val_word: "le_val (le_bytes 8 (uint (w :: 64 word))) = uint w"
  using unsigned_less [of w, where ?'a = int] by (simp add: le_val_bytes)

text \<open>A value that can be saved, and whether it is gone by the time it is read.\<close>

definition savable :: "string \<times> kvalue \<Rightarrow> bool" where
  "savable kv \<longleftrightarrow> VType (snd kv) = ValueTypeString \<and> int (length (fst kv)) < 2 ^ 32 \<and>
     (case VData (snd kv) of VBytes b \<Rightarrow> int (length b) < 2 ^ 32 | _ \<Rightarrow> False)"

definition gone :: "go_env \<Rightarrow> string \<times> kvalue \<Rightarrow> bool" where
  "gone env kv \<longleftrightarrow> 0 < Expiry (snd kv) \<and> Expiry (snd kv) < now_u64 env"

lemma loop_object:
  assumes "savable (k, v)" and "k \<notin> fst ` set (rdb_data p)"
  shows "\<exists>b. writeObject k v = Inr b \<and> (\<forall>s. rdb_loop env lzf content p (b @ s) =
      rdb_loop env lzf content (if gone env (k, v) then p else p\<lparr>rdb_data := rdb_data p @ [(k, v)]\<rparr>) s)"
proof -
  obtain d where d: "VData v = VBytes d" "VType v = ValueTypeString" "int (length d) < 2 ^ 32" "int (length k) < 2 ^ 32"
    using assms(1) by (auto simp: savable_def split: value_data.splits)
  then have v: "\<lparr>VType = ValueTypeString, VData = VBytes d, Expiry = Expiry v\<rparr> = v" by simp
  have obj: "handleObject env lzf (CHR 0x00) (Expiry v) p (rdb_writeString k @ writeBytes d @ s)
      = ROk (if gone env (k, v) then p else p\<lparr>rdb_data := rdb_data p @ [(k, v)]\<rparr>) s" for s
    using d assms(2) by (simp add: handleObject_def rdb_writeString_def readString_write gone_def map_put_new v)
  show ?thesis
  proof (cases "Expiry v = 0")
    case True
    with d obj show ?thesis
      by (auto simp: writeObject_def rdb_object_def intro!: loop_step)
  next
    case False
    have "readBytes 8 (le_bytes 8 (uint (Expiry v)) @ r) = ROk (le_bytes 8 (uint (Expiry v))) r" for r
      by (rule readBytes_append) simp
    moreover have "(word_of_int (le_val (le_bytes 8 (uint (Expiry v)))) :: 64 word) = Expiry v"
      by (simp add: le_val_word)
    ultimately have "handleExpiryTime env lzf True p (le_bytes 8 (uint (Expiry v)) @ CHR 0x00 # rdb_writeString k @ writeBytes d @ s)
        = ROk (if gone env (k, v) then p else p\<lparr>rdb_data := rdb_data p @ [(k, v)]\<rparr>) s" for s
      using obj by (simp add: handleExpiryTime_def)
    with d False show ?thesis
      by (auto simp: writeObject_def writeExpire_def word_gt_0 rdb_object_def intro!: loop_step)
  qed
qed

lemma loop_objects:
  assumes "\<forall>kv \<in> set data. savable kv" and "distinct (map fst (rdb_data p @ data))"
  shows "\<exists>b. writeObjects data = Inr b \<and>
    rdb_loop env lzf content p (b @ s) =
      rdb_loop env lzf content (p\<lparr>rdb_data := rdb_data p @ filter (\<lambda>kv. \<not> gone env kv) data\<rparr>) s"
  using assms
proof (induction data arbitrary: p)
  case (Cons kv data)
  obtain k v where kv: "kv = (k, v)" by (cases kv)
  let ?p = "if gone env (k, v) then p else p\<lparr>rdb_data := rdb_data p @ [(k, v)]\<rparr>"
  have "\<exists>b. writeObjects data = Inr b \<and> rdb_loop env lzf content ?p (b @ s) =
      rdb_loop env lzf content (?p\<lparr>rdb_data := rdb_data ?p @ filter (\<lambda>kv. \<not> gone env kv) data\<rparr>) s"
    using Cons.prems kv by (intro Cons.IH) auto
  then obtain bs where bs: "writeObjects data = Inr bs" "rdb_loop env lzf content ?p (bs @ s) =
      rdb_loop env lzf content (?p\<lparr>rdb_data := rdb_data ?p @ filter (\<lambda>kv. \<not> gone env kv) data\<rparr>) s" by blast
  obtain b where "writeObject k v = Inr b" "\<And>s. rdb_loop env lzf content p (b @ s) = rdb_loop env lzf content ?p s"
    using loop_object [of k v p env lzf content] Cons.prems kv by auto
  with bs kv show ?case by (auto simp: if_distrib)
qed simp

lemma checksum_ok: "verifyChecksum (body @ writeChecksum body) = None"
proof -
  have "le_val (writeChecksum body) = uint (Sum64 (digest_Write New body))"
    by (simp add: writeChecksum_def le_val_word)
  then show ?thesis by (simp add: verifyChecksum_def) (simp add: writeChecksum_def)
qed

lemma save_parse:
  assumes "\<forall>kv \<in> set data. savable kv" and "distinct (map fst data)" and "int (length data) < 2 ^ 32"
  shows "\<exists>bytes p. SaveRDB env data = Inr bytes \<and> ParseRDB env' lzf bytes = Inr p \<and>
    GetData p = filter (\<lambda>kv. \<not> gone env' kv) data"
proof -
  have "distinct (map fst (rdb_data NewRDBParser @ data))" using assms(2) by (simp add: NewRDBParser_def)
  from loop_objects [OF assms(1) this] obtain objs where objs: "writeObjects data = Inr objs" by blast
  define body where "body = rdb_preamble env data @ objs @ [CHR 0xFF]"
  define rfile where "rfile = body @ writeChecksum body"
  define tl where "tl = objs @ [CHR 0xFF] @ writeChecksum body"
  have rfile: "rfile = rdb_preamble env data @ tl" by (simp add: rfile_def body_def tl_def)
  obtain p where p: "rdb_data p = []"
    "readHeader (rdb_preamble env data @ tl) = ROk () (drop 9 (rdb_preamble env data) @ tl)"
    "rdb_loop env' lzf rfile NewRDBParser (drop 9 (rdb_preamble env data) @ tl) = rdb_loop env' lzf rfile p tl"
    using loop_preamble [OF assms(3)] by blast
  let ?q = "p\<lparr>rdb_data := rdb_data p @ filter (\<lambda>kv. \<not> gone env' kv) data\<rparr>"
  have "rdb_loop env' lzf rfile p tl = rdb_loop env' lzf rfile ?q (CHR 0xFF # writeChecksum body)"
    using loop_objects [OF assms(1), of p] assms(2) p(1) objs by (auto simp: tl_def)
  also have "\<dots> = Inr ?q"
    by (simp add: rdb_object_def rdb_loop.simps(2) rfile_def checksum_ok)
  finally have "ParseRDB env' lzf rfile = Inr ?q"
    using p by (simp add: ParseRDB_def rfile)
  moreover have "SaveRDB env data = Inr rfile" by (simp add: SaveRDB_def objs rfile_def body_def Let_def)
  ultimately show ?thesis using p(1) by (auto simp: GetData_def)
qed

end
