(* ===== verification/Server_State.thy ===== *)
theory Server_State
  imports Client Config Rdb
begin

text \<open>
  The state of \<open>internal/app/server/server.go\<close> that the commands reach through the interfaces
  \<open>keyval.KV\<close> and \<open>ServerInfoProvider\<close>, and the methods of \<open>Server\<close> behind the second one.

  A \<open>*client.Client\<close> is the number of an object in \<open>cl_heap\<close>; \<open>connected\<close>, \<open>replicas\<close> and
  \<open>masterClient\<close> hold such numbers, the first two in the order in which Go visits the maps. A
  write to a connection succeeds unless the program itself has closed it. The channels on which
  a replica waits for answers of its master are numbered in the order of the requests;
  \<open>requests\<close> counts them, and the last one is the one \<open>startReplication\<close> waits for.
\<close>

section \<open>State\<close>

text \<open>How far \<open>startReplication\<close> has come on a replica: the request whose answer it waits for, the
  end, or the error it returned.\<close>

datatype handshake_step =
    NotStarted | AwaitPing | AwaitPort | AwaitCapa | AwaitPsync | Synced | Failed string

record server =
  cfg :: config
  store :: kvstore
  chans :: hub
  srv_offset :: "64 word"
  isMaster :: bool
  masterAddr :: string
  replicationID :: string
  cl_heap :: "(nat \<times> client) list"
  connected :: "nat list"
  replicas :: "nat list"
  masterClient :: "nat option"
  dump_file :: "string option"
  streamOrder :: "string list"
  responseWaitQueue :: "nat list"
  requests :: nat
  sentRequest :: "nat option"
  handshake :: handshake_step

text \<open>What a command gets from outside: the clock and the Unicode tables; the regular expression
  engine (\<open>regexp.Compile\<close>: an error text or the matcher); the LZF decompressor; the error of
  \<open>os.Create\<close>, if it fails; and the text of the error of a closed connection.\<close>

record cmd_env =
  base :: go_env
  regexp_compile :: "string \<Rightarrow> string + (string \<Rightarrow> bool)"
  lzf_decompress :: lzf
  create_error :: "string option"
  closed_error :: string

definition client_of :: "server \<Rightarrow> nat \<Rightarrow> client" where
  "client_of s c = (case map_of (cl_heap s) c of Some x \<Rightarrow> x | None \<Rightarrow> NewClient (plain_env 0) [])"

definition set_client :: "nat \<Rightarrow> client \<Rightarrow> server \<Rightarrow> server" where
  "set_client c x s = s\<lparr>cl_heap := map_put (cl_heap s) c x\<rparr>"

definition update_client :: "nat \<Rightarrow> (client \<Rightarrow> client) \<Rightarrow> server \<Rightarrow> server" where
  "update_client c f s = set_client c (f (client_of s c)) s"

lemma client_of_set [simp]: "client_of (set_client c x s) c' = (if c' = c then x else client_of s c')"
  by (simp add: client_of_def set_client_def)

lemma client_of_update [simp]:
  "client_of (update_client c f s) c' = (if c' = c then f (client_of s c) else client_of s c')"
  by (simp add: update_client_def)

lemma set_client_frame [simp]:
  "cfg (set_client c x s) = cfg s" "store (set_client c x s) = store s" "chans (set_client c x s) = chans s"
  "srv_offset (set_client c x s) = srv_offset s" "connected (set_client c x s) = connected s"
  "replicas (set_client c x s) = replicas s" "replicationID (set_client c x s) = replicationID s"
  "isMaster (set_client c x s) = isMaster s" "masterClient (set_client c x s) = masterClient s"
  "masterAddr (set_client c x s) = masterAddr s" "streamOrder (set_client c x s) = streamOrder s"
  "dump_file (set_client c x s) = dump_file s" "responseWaitQueue (set_client c x s) = responseWaitQueue s"
  "requests (set_client c x s) = requests s" "sentRequest (set_client c x s) = sentRequest s" "handshake (set_client c x s) = handshake s"
  by (simp_all add: set_client_def)

lemma update_client_frame [simp]:
  "cfg (update_client c f s) = cfg s" "store (update_client c f s) = store s" "chans (update_client c f s) = chans s"
  "srv_offset (update_client c f s) = srv_offset s" "connected (update_client c f s) = connected s"
  "replicas (update_client c f s) = replicas s" "replicationID (update_client c f s) = replicationID s"
  "isMaster (update_client c f s) = isMaster s" "masterClient (update_client c f s) = masterClient s"
  "masterAddr (update_client c f s) = masterAddr s" "streamOrder (update_client c f s) = streamOrder s"
  "dump_file (update_client c f s) = dump_file s" "responseWaitQueue (update_client c f s) = responseWaitQueue s"
  "requests (update_client c f s) = requests s" "sentRequest (update_client c f s) = sentRequest s" "handshake (update_client c f s) = handshake s"
  by (simp_all add: update_client_def)

section \<open>ServerInfoProvider\<close>

record replica_info =
  ri_id :: string
  ri_addr :: string
  ri_port :: string

definition GetReplicaInfo :: "server \<Rightarrow> replica_info list" where
  "GetReplicaInfo s = map (\<lambda>r. let c = client_of s r in
     \<lparr>ri_id = client_ID c, ri_addr = remoteAddr c, ri_port = ListeningPort c\<rparr>) (replicas s)"

definition GetReplicationID :: "server \<Rightarrow> string" where
  "GetReplicationID s = replicationID s"

definition GetReplicaAcknowledgedCount :: "server \<Rightarrow> 64 word \<Rightarrow> nat" where
  "GetReplicaAcknowledgedCount s off = length (filter (\<lambda>r. off \<le> Offset (client_of s r)) (replicas s))"

text \<open>A write to the connection of a client: the error is that of a closed connection.\<close>

definition conn_write :: "nat \<Rightarrow> string \<Rightarrow> server \<Rightarrow> server \<times> bool" where
  "conn_write c b s =
     (if closed (client_of s c) then (s, False)
      else (update_client c (\<lambda>x. x\<lparr>conn_out := conn_out x @ b\<rparr>) s, True))"

definition removeReplica :: "nat \<Rightarrow> server \<Rightarrow> server" where
  "removeReplica r s = update_client r Close (s\<lparr>replicas := filter (\<lambda>x. x \<noteq> r) (replicas s)\<rparr>)"

definition addReplica :: "nat \<Rightarrow> server \<Rightarrow> server" where
  "addReplica c s = (if c \<in> set (replicas s) then s else s\<lparr>replicas := replicas s @ [c]\<rparr>)"

definition send_to_replica :: "string \<Rightarrow> nat \<Rightarrow> server \<Rightarrow> server" where
  "send_to_replica b r s = (let (s', ok) = conn_write r b s in if ok then s' else removeReplica r s')"

text \<open>The command goes to every replica as it is serialized again from its parsed form.\<close>

definition PropagateCommand :: "nat \<Rightarrow> resp \<Rightarrow> server \<Rightarrow> server go" where
  "PropagateCommand c r s = (case RAW r of
       Panic \<Rightarrow> Panic
     | Ret rawResp \<Rightarrow>
         (let s = s\<lparr>srv_offset := srv_offset s + of_nat (length rawResp)\<rparr>;
              s = update_client c (SetLastWriteOffset (srv_offset s)) s
          in Ret (fold (send_to_replica rawResp) (replicas s) s)))"

section \<open>Results of a command\<close>

record xread_opts =
  xr_Count :: "64 word"
  xr_Block :: "int option"
  xr_Streams :: "(string \<times> string) list"

text \<open>What a command that does not return at once waits for: to go on with subscribing to its streams
  (their names and the time it may block); entries on the channels of some streams (the subscriptions, the channels in the order of the select, and the time at which it
  gives up); acknowledgements (their number, the timeout in milliseconds, the time at which
  it started and the offset); or, for \<open>EXEC\<close>, one of its commands (what that waits for, the
  writer it was given, the command, the commands after it and the replies before it).\<close>

datatype blocked =
    BlockedSubscribe "string list" int
  | BlockedXRead "(string \<times> nat) list" "nat option list" "int option"
  | BlockedWait int int int "64 word"
  | BlockedExec blocked writer resp "resp list" "string list"

datatype cres = Done server writer "string option" | Blocks server writer blocked | Crash

definition done_w :: "server \<Rightarrow> wres \<Rightarrow> cres" where
  "done_w s r = Done s (fst r) (snd r)"

definition write_err :: "string \<Rightarrow> server \<Rightarrow> writer \<Rightarrow> cres" where
  "write_err msg s w = done_w s (WriteError msg w)"

definition write_ok :: "server \<Rightarrow> writer \<Rightarrow> cres" where
  "write_ok s w = Done s (WriteSimpleValue (CHR ''+'') ''OK'' w) None"

definition conv_error_msg :: "go_env \<Rightarrow> string \<Rightarrow> conv_error \<Rightarrow> string" where
  "conv_error_msg env what e = (case e of
       ErrInvalidType \<Rightarrow> ''invalid type''
     | ParseFailed ne \<Rightarrow> ''failed to parse '' @ what @ '': '' @ num_error_msg env ne)"

end
