(* ===== verification/Commands.thy ===== *)
theory Commands
  imports Server_State
begin

text \<open>
  The commands on strings and keys: \<open>pkg/command/command.go\<close> (\<open>ECHO\<close>, \<open>PING\<close>), \<open>get.go\<close>,
  \<open>set.go\<close>, \<open>incr.go\<close>, \<open>type.go\<close> and \<open>keys.go\<close>, with \<open>pkg/resp/pattern.go\<close>.

  A command takes the server and the writer of the reply and returns both with the error it
  returns to its caller. The clock does not advance within a command.
\<close>

section \<open>ECHO, PING\<close>

definition Echo_Execute :: "resp list \<Rightarrow> server \<Rightarrow> writer \<Rightarrow> cres" where
  "Echo_Execute args s w =
     (if length args \<noteq> 1 then write_err ''wrong number of arguments for 'echo' command'' s w
      else Done s (WriteBytes (Bytes (args ! 0)) w) None)"

definition Ping_Execute :: "resp list \<Rightarrow> server \<Rightarrow> writer \<Rightarrow> cres" where
  "Ping_Execute args s w =
     (if length args \<noteq> 0 then write_err ''wrong number of arguments for 'ping' command'' s w
      else Done s (WriteSimpleValue (CHR ''+'') ''PONG'' w) None)"

section \<open>GET\<close>

definition Get_Execute :: "go_env \<Rightarrow> resp list \<Rightarrow> server \<Rightarrow> writer \<Rightarrow> cres" where
  "Get_Execute env args s w =
     (if length args \<noteq> 1 then Done s w (Some ''wrong number of arguments for 'get' command'')
      else (case kv_Get env (store s) (String (args ! 0)) of
          (Panic, st) \<Rightarrow> Crash
        | (Ret None, st) \<Rightarrow> Done (s\<lparr>store := st\<rparr>) (WriteNull (CHR ''$'') w) None
        | (Ret (Some val), st) \<Rightarrow> Done (s\<lparr>store := st\<rparr>) (WriteBytes val w) None))"

section \<open>SET\<close>

record set_options =
  opt_XX :: bool
  opt_NX :: bool
  opt_GET :: bool
  opt_EX :: int
  opt_PX :: int
  opt_EXAT :: go_time
  opt_PXAT :: go_time
  opt_KEEPTTL :: bool

definition no_options :: set_options where
  "no_options = \<lparr>opt_XX = False, opt_NX = False, opt_GET = False, opt_EX = 0, opt_PX = 0, opt_EXAT = zero_time, opt_PXAT = zero_time, opt_KEEPTTL = False\<rparr>"

text \<open>An option with a value: the value is the next argument. A \<open>time.Duration\<close> is an \<open>int64\<close> of
  nanoseconds, and the products wrap.\<close>

definition option_value :: "go_env \<Rightarrow> string \<Rightarrow> resp list \<Rightarrow> (string + int)" where
  "option_value env opt rest = (case rest of
       [] \<Rightarrow> Inl (''missing value for '' @ opt @ '' option'')
     | v # _ \<Rightarrow> (case Int64 v of
         Inl e \<Rightarrow> Inl (''invalid value for '' @ opt @ '' option: '' @ conv_error_msg env ''int'' e)
       | Inr i \<Rightarrow> Inr i))"

function Set_parseOptions :: "go_env \<Rightarrow> resp list \<Rightarrow> set_options \<Rightarrow> string + set_options" where
  "Set_parseOptions env [] opts = Inr opts"
| "Set_parseOptions env (a # rest) opts =
     (let arg = String a; opt = ToUpper env arg in
      if opt = ''NX'' then Set_parseOptions env rest (opts\<lparr>opt_NX := True\<rparr>)
      else if opt = ''XX'' then Set_parseOptions env rest (opts\<lparr>opt_XX := True\<rparr>)
      else if opt = ''GET'' then Set_parseOptions env rest (opts\<lparr>opt_GET := True\<rparr>)
      else if opt = ''KEEPTTL'' then Set_parseOptions env rest (opts\<lparr>opt_KEEPTTL := True\<rparr>)
      else if opt = ''EX'' then
        (case option_value env opt rest of
           Inl e \<Rightarrow> Inl e
         | Inr seconds \<Rightarrow> Set_parseOptions env (drop 1 rest) (opts\<lparr>opt_EX := wrap_i64 (seconds * 1000000000)\<rparr>))
      else if opt = ''PX'' then
        (case option_value env opt rest of
           Inl e \<Rightarrow> Inl e
         | Inr milliseconds \<Rightarrow> Set_parseOptions env (drop 1 rest) (opts\<lparr>opt_PX := wrap_i64 (milliseconds * 1000000)\<rparr>))
      else if opt = ''EXAT'' then
        (case option_value env opt rest of
           Inl e \<Rightarrow> Inl e
         | Inr seconds \<Rightarrow> Set_parseOptions env (drop 1 rest) (opts\<lparr>opt_EXAT := time_Unix seconds\<rparr>))
      else if opt = ''PXAT'' then
        (case option_value env opt rest of
           Inl e \<Rightarrow> Inl e
         | Inr milliseconds \<Rightarrow> Set_parseOptions env (drop 1 rest) (opts\<lparr>opt_PXAT := time_UnixMilli milliseconds\<rparr>))
      else Inl (''unknown option: '' @ arg))"
  by pat_completeness auto
termination by (relation "measure (\<lambda>(env, args, opts). length args)") auto

text \<open>The expiry a successful \<open>SET\<close> gives the key.\<close>

definition set_ttl :: "go_env \<Rightarrow> set_options \<Rightarrow> string \<Rightarrow> kvstore \<Rightarrow> kvstore" where
  "set_ttl env opts key st =
     (let st = (if \<not> opt_KEEPTTL opts then kv_DeleteTTL st key else st) in
      if 0 < opt_EX opts then kv_Expire env st key (opt_EX opts)
      else if 0 < opt_PX opts then kv_PExpire env st key (opt_PX opts)
      else if \<not> IsZero (opt_EXAT opts) then kv_ExpireAt st key (opt_EXAT opts)
      else if \<not> IsZero (opt_PXAT opts) then kv_PExpireAt st key (opt_PXAT opts)
      else st)"

definition write_old :: "string option \<Rightarrow> writer \<Rightarrow> writer" where
  "write_old old w = (case old of Some v \<Rightarrow> WriteBytes v w | None \<Rightarrow> WriteNull (CHR ''$'') w)"

definition Set_run :: "go_env \<Rightarrow> set_options \<Rightarrow> string \<Rightarrow> string \<Rightarrow> server \<Rightarrow> writer \<Rightarrow> cres" where
  "Set_run env opts key val s w =
     (let (old, st) = (if opt_GET opts \<or> opt_NX opts \<or> opt_XX opts then kv_Get env (store s) key else (Ret None, store s)) in
      case old of
        Panic \<Rightarrow> Crash
      | Ret oldVal \<Rightarrow>
          (let s = s\<lparr>store := st\<rparr>; keyExists = (oldVal \<noteq> None) in
           if opt_NX opts \<and> opt_GET opts \<and> keyExists then Done s (write_old oldVal w) None
           else if opt_NX opts \<and> keyExists then Done s (WriteNull (CHR ''$'') w) None
           else if opt_XX opts \<and> \<not> keyExists then Done s (WriteNull (CHR ''$'') w) None
           else
             (let s = s\<lparr>store := set_ttl env opts key (kv_Set (store s) key val)\<rparr> in
              if opt_GET opts then Done s (write_old oldVal w) None
              else write_ok s w)))"

definition Set_Execute :: "go_env \<Rightarrow> resp list \<Rightarrow> server \<Rightarrow> writer \<Rightarrow> cres" where
  "Set_Execute env args s w =
     (if length args < 2 then write_err ''wrong number of arguments for 'set' command'' s w
      else
        (let key = String (args ! 0); val = Bytes (args ! 1) in
         case Set_parseOptions env (drop 2 args) no_options of
           Inl err \<Rightarrow> Done s w (Some err)
         | Inr opts \<Rightarrow>
             if opt_NX opts \<and> opt_XX opts then write_err ''both NX and XX options are not allowed'' s w
             else if opt_KEEPTTL opts \<and> (0 < opt_EX opts \<or> 0 < opt_PX opts \<or> \<not> IsZero (opt_EXAT opts) \<or> \<not> IsZero (opt_PXAT opts)) then
               write_err ''KEEPTTL option is not allowed with EX, PX, EXAT, or PXAT options'' s w
             else Set_run env opts key val s w))"

section \<open>INCR\<close>

definition ErrNotInteger :: string where
  "ErrNotInteger = ''ERR value is not an integer or out of range''"

definition Incr_Execute :: "go_env \<Rightarrow> resp list \<Rightarrow> server \<Rightarrow> writer \<Rightarrow> cres" where
  "Incr_Execute env args s w =
     (if length args \<noteq> 1 then write_err ''wrong number of arguments for 'incr' command'' s w
      else
        (let key = String (args ! 0) in
         case kv_Get env (store s) key of
           (Panic, st) \<Rightarrow> Crash
         | (Ret current, st) \<Rightarrow>
             (let s = s\<lparr>store := st\<rparr> in
              case (case current of None \<Rightarrow> Inr 0 | Some b \<Rightarrow> ParseInt b) of
                Inl _ \<Rightarrow> write_err ErrNotInteger s w
              | Inr currentValue \<Rightarrow>
                  if currentValue = 2 ^ 63 - 1 then write_err ErrNotInteger s w
                  else
                    (let newValue = wrap_i64 (currentValue + 1) in
                     Done (s\<lparr>store := kv_Set (store s) key (FormatInt newValue)\<rparr>) (WriteInteger newValue w) None))))"

section \<open>TYPE, KEYS\<close>

definition Type_Execute :: "resp list \<Rightarrow> server \<Rightarrow> writer \<Rightarrow> cres" where
  "Type_Execute args s w =
     (if length args \<noteq> 1 then write_err ''wrong number of arguments for 'type' command'' s w
      else Done s (WriteSimpleValue (CHR ''+'') (kv_Type (store s) (String (args ! 0))) w) None)"

text \<open>\<open>string(c)\<close> of a byte is the UTF-8 encoding of the rune with that number, and
  \<open>regexp.QuoteMeta\<close> puts a backslash before the characters special to regular expressions.\<close>

definition rune_string :: "char \<Rightarrow> string" where
  "rune_string c = (let n = (of_char c :: nat) in
     if n < 128 then [c] else [char_of (192 + n div 64), char_of (128 + n mod 64)])"

definition backslash :: char where "backslash = CHR 0x5C"

definition QuoteMeta :: "string \<Rightarrow> string" where
  "QuoteMeta s = concat (map (\<lambda>c. if c \<in> set (backslash # ''.+*?()|[]{}^$'') then [backslash, c] else [c]) s)"

fun translate :: "bool \<Rightarrow> string \<Rightarrow> string \<Rightarrow> string option" where
  "translate inEscape acc [] = (if inEscape then None else Some acc)"
| "translate inEscape acc (c # s) =
     (if inEscape then translate False (acc @ QuoteMeta (rune_string c)) s
      else if c = backslash then translate True acc s
      else if c = CHR ''*'' then translate False (acc @ ''.*'') s
      else if c = CHR ''?'' then translate False (acc @ ''.'') s
      else if c \<in> set ''[]^-'' then translate False (acc @ [c]) s
      else translate False (acc @ QuoteMeta (rune_string c)) s)"

text \<open>The regular expression for a pattern, before it is compiled.\<close>

definition TranslatePattern :: "string \<Rightarrow> string + string" where
  "TranslatePattern pattern = (case translate False ''^'' pattern of
       None \<Rightarrow> Inl ''invalid escape sequence at end of pattern''
     | Some re \<Rightarrow> Inr (re @ ''$''))"

definition Keys_Execute :: "cmd_env \<Rightarrow> resp list \<Rightarrow> server \<Rightarrow> writer \<Rightarrow> cres" where
  "Keys_Execute env args s w =
     (if length args \<noteq> 1 then write_err ''wrong number of arguments for 'keys' command'' s w
      else
        (let pattern = String (args ! 0); keys = kv_Keys (store s) in
         if pattern = ''*'' then Done s (WriteStringSlice keys w) None
         else (case TranslatePattern pattern of
             Inl err \<Rightarrow> write_err err s w
           | Inr re \<Rightarrow> (case regexp_compile env re of
               Inl err \<Rightarrow> write_err err s w
             | Inr match \<Rightarrow> Done s (WriteStringSlice (filter match keys) w) None))))"

end
