(* ===== verification/Stream_Commands.thy ===== *)
theory Stream_Commands
  imports Commands
begin

text \<open>
  The commands on streams: \<open>pkg/command/xadd.go\<close>, \<open>xrange.go\<close> and \<open>xread.go\<close>. A blocking
  \<open>XREAD\<close> that finds nothing becomes a \<open>blocked\<close> value: \<open>XRead_subscribe\<close> is its next step, which subscribes
  to its streams, and \<open>xread_wake\<close> the rest of the call, for the case \<open>reflect.Select\<close> has chosen.
\<close>

section \<open>XADD\<close>

record xadd_options =
  Nomkstream :: bool
  MaxLen :: int
  MinID :: string

definition ErrXAddArgs :: string where
  "ErrXAddArgs = ''ERR wrong number of arguments for 'xadd' command''"

text \<open>The loop over the arguments after the key. The threshold of \<open>MAXLEN\<close> or \<open>MINID\<close> is
  followed by a look at the next argument, which panics when there is none.\<close>

datatype xadd_parse = XAddArgs xadd_options string "string list list" | XAddErr string | XAddPanic

definition xadd_threshold :: "resp list \<Rightarrow> (string + resp list)" where
  "xadd_threshold rest = (case rest of
       [] \<Rightarrow> Inl ErrXAddArgs
     | a # rest' \<Rightarrow>
         if String a = ''='' then (if rest' = [] then Inl ErrXAddArgs else Inr rest')
         else if String a = ''~'' then Inl ''ERR syntax error, ~ is not yet supported''
         else Inr rest)"

lemma xadd_threshold_length: "xadd_threshold rest = Inr r \<Longrightarrow> r \<noteq> [] \<and> length r \<le> length rest"
  by (auto simp: xadd_threshold_def split: list.splits if_splits)

function xadd_args :: "go_env \<Rightarrow> resp list \<Rightarrow> xadd_options \<Rightarrow> string \<Rightarrow> string list list \<Rightarrow> xadd_parse" where
  "xadd_args env [] opts eid flds = XAddArgs opts eid flds"
| "xadd_args env (a # rest) opts eid flds =
     (let arg = String a; upArg = ToUpper env arg in
      if upArg = ''NOMKSTREAM'' then xadd_args env rest (opts\<lparr>Nomkstream := True\<rparr>) eid flds
      else if upArg = ''MAXLEN'' \<or> upArg = ''MINID'' then
        (case xadd_threshold rest of
           Inl err \<Rightarrow> XAddErr err
         | Inr r \<Rightarrow>
             (case (if upArg = ''MAXLEN'' then map_sum id (\<lambda>n. opts\<lparr>MaxLen := n\<rparr>) (Int64 (hd r))
                    else Inr (opts\<lparr>MinID := String (hd r)\<rparr>)) of
                Inl _ \<Rightarrow> XAddErr ErrXAddArgs
              | Inr opts \<Rightarrow>
                  if tl r = [] then XAddPanic
                  else if ToUpper env (String (hd (tl r))) = ''LIMIT'' then
                    XAddErr ''ERR syntax error, LIMIT is not yet supported''
                  else xadd_args env (tl r) opts eid flds))
      else if eid = [] then xadd_args env rest opts arg flds
      else (case rest of
          [] \<Rightarrow> XAddErr ErrXAddArgs
        | v # rest \<Rightarrow> xadd_args env rest opts eid (flds @ [[arg, String v]])))"
  by pat_completeness auto
termination
  by (relation "measure (\<lambda>(env, args, _). length args)")
    (auto dest!: xadd_threshold_length simp: less_Suc_eq_le)

text \<open>The trim after a successful add; the sign and the emptiness decide which one.\<close>

definition xadd_trim :: "xadd_options \<Rightarrow> stream \<Rightarrow> stream" where
  "xadd_trim opts x =
     (if 0 < MaxLen opts then snd (stream_TrimBySize x (MaxLen opts))
      else if MinID opts \<noteq> [] then snd (stream_TrimByMinID x (MinID opts))
      else x)"

definition XAdd_run :: "go_env \<Rightarrow> string \<Rightarrow> xadd_options \<Rightarrow> string \<Rightarrow> string list list \<Rightarrow> server \<Rightarrow> writer \<Rightarrow> cres" where
  "XAdd_run env streamID opts eid flds s w =
     (case kv_GetStream (store s) streamID (\<not> Nomkstream opts) of
        (Panic, st) \<Rightarrow> Crash
      | (Ret (Inl err), st) \<Rightarrow> write_err err (s\<lparr>store := st\<rparr>) w
      | (Ret (Inr None), st) \<Rightarrow> Done (s\<lparr>store := st\<rparr>) (WriteNull (CHR ''$'') w) None
      | (Ret (Inr (Some x)), st) \<Rightarrow>
          (case stream_AddEntry env x \<lparr>ID = eid, Fields = flds\<rparr> (chans s) of
             (Inl err, x, h) \<Rightarrow> write_err err (s\<lparr>store := put_stream st streamID x, chans := h\<rparr>) w
           | (Inr entryID, x, h) \<Rightarrow>
               Done (s\<lparr>store := put_stream st streamID (xadd_trim opts x), chans := h\<rparr>) (WriteString entryID w) None))"

definition XAdd_Execute :: "go_env \<Rightarrow> resp list \<Rightarrow> server \<Rightarrow> writer \<Rightarrow> cres" where
  "XAdd_Execute env args s w =
     (if length args \<le> 3 then write_err ErrXAddArgs s w
      else
        (let streamID = String (args ! 0) in
         case xadd_args env (drop 1 args) \<lparr>Nomkstream = False, MaxLen = 0, MinID = []\<rparr> [] [] of
           XAddPanic \<Rightarrow> Crash
         | XAddErr err \<Rightarrow> write_err err s w
         | XAddArgs opts eid flds \<Rightarrow>
             if eid = [] \<or> flds = [] then write_err ErrXAddArgs s w
             else XAdd_run env streamID opts eid flds s w))"

section \<open>XRANGE\<close>

definition ErrSyntaxError :: string where "ErrSyntaxError = ''ERR syntax error''"

definition ErrInvalidStreamID :: string where
  "ErrInvalidStreamID = ''ERR Invalid stream ID specified as stream command argument''"

definition ErrXRangeArgs :: string where
  "ErrXRangeArgs = ''wrong number of arguments for 'xrange' command''"

definition parseStreamID :: "string \<Rightarrow> bool \<Rightarrow> string + string" where
  "parseStreamID streamID start =
     (if streamID = ''-'' \<or> streamID = ''+'' then Inr streamID
      else
        (let parts = Split streamID (CHR ''-'') in
         if 2 < length parts then Inl ErrSyntaxError
         else if length parts = 2 then
           (case ParseUint (parts ! 1) of Inl _ \<Rightarrow> Inl ErrInvalidStreamID | Inr _ \<Rightarrow> Inr streamID)
         else if start then Inr (parts ! 0 @ ''-0'')
         else Inr (parts ! 0 @ ''-18446744073709551615'')))"

definition XRange_validateArgs :: "resp list \<Rightarrow> string option" where
  "XRange_validateArgs args =
     (if length args < 3 then Some ErrXRangeArgs
      else if 5 < length args \<or> length args = 4 then Some ErrSyntaxError
      else None)"

definition XRange_parseArgs :: "go_env \<Rightarrow> resp list \<Rightarrow> string + string \<times> string \<times> 64 word" where
  "XRange_parseArgs env args =
     (case parseStreamID (String (args ! 1)) True of
        Inl err \<Rightarrow> Inl err
      | Inr start \<Rightarrow>
          (case parseStreamID (String (args ! 2)) False of
             Inl err \<Rightarrow> Inl err
           | Inr stop \<Rightarrow>
               if length args = 5 then
                 (if ToUpper env (String (args ! 3)) \<noteq> ''COUNT'' then Inl ErrSyntaxError
                  else (case Uint64 (args ! 4) of
                      Inl e \<Rightarrow> Inl (conv_error_msg env ''uint'' e)
                    | Inr cnt \<Rightarrow> Inr (start, stop, cnt)))
               else Inr (start, stop, 0)))"

text \<open>\<open>formatEntries\<close>, the same in both files: a field without a name and a value would be an
  index out of range.\<close>

fun format_fields :: "string list list \<Rightarrow> goval list go" where
  "format_fields [] = Ret []"
| "format_fields (f # fs) = (case f of
       a # b # _ \<Rightarrow> (case format_fields fs of
           Panic \<Rightarrow> Panic | Ret r \<Rightarrow> Ret (GScalar (GString a) # GScalar (GString b) # r))
     | _ \<Rightarrow> Panic)"

fun formatEntries :: "stream_entry list \<Rightarrow> goval list go" where
  "formatEntries [] = Ret []"
| "formatEntries (e # es) =
     (case format_fields (Fields e) of
        Panic \<Rightarrow> Panic
      | Ret entryFields \<Rightarrow> (case formatEntries es of
          Panic \<Rightarrow> Panic
        | Ret result \<Rightarrow> Ret (GSlice [GScalar (GString (ID e)), GSlice entryFields] # result)))"

definition XRange_Execute :: "go_env \<Rightarrow> resp list \<Rightarrow> server \<Rightarrow> writer \<Rightarrow> cres" where
  "XRange_Execute env args s w =
     (case XRange_validateArgs args of
        Some err \<Rightarrow> write_err err s w
      | None \<Rightarrow>
          (case XRange_parseArgs env args of
             Inl err \<Rightarrow> write_err err s w
           | Inr (start, stop, cnt) \<Rightarrow>
               (case kv_GetStream (store s) (String (args ! 0)) False of
                  (Panic, st) \<Rightarrow> Crash
                | (Ret (Inl err), st) \<Rightarrow> write_err err (s\<lparr>store := st\<rparr>) w
                | (Ret (Inr None), st) \<Rightarrow> Done (s\<lparr>store := st\<rparr>) (WriteStringSlice [] w) None
                | (Ret (Inr (Some x)), st) \<Rightarrow>
                    (case formatEntries (stream_Range x start stop cnt) of
                       Panic \<Rightarrow> Crash
                     | Ret result \<Rightarrow> done_w (s\<lparr>store := st\<rparr>) (WriteSlice result w)))))"

section \<open>XREAD\<close>

definition ErrXReadInt :: string where
  "ErrXReadInt = ''ERR value is not an integer or out of range''"

definition ErrXReadUnbalanced :: string where
  "ErrXReadUnbalanced =
     ''ERR Unbalanced 'xread' list of streams: for each stream key an ID or '$' must be specified''"

text \<open>The options and \<open>x.streamOrder\<close>, which is a field of the one \<open>XRead\<close> all clients share.\<close>

fun XRead_parseArgs :: "go_env \<Rightarrow> resp list \<Rightarrow> xread_opts \<Rightarrow> string + xread_opts \<times> string list" where
  "XRead_parseArgs env [] opts = Inl ErrSyntaxError"
| "XRead_parseArgs env (a # rest) opts =
     (let arg = ToUpper env (String a) in
      if arg = ''COUNT'' then
        (case rest of
           [] \<Rightarrow> Inl ErrSyntaxError
         | v # rest \<Rightarrow> (case Uint64 v of
             Inl _ \<Rightarrow> Inl ErrXReadInt
           | Inr cnt \<Rightarrow> XRead_parseArgs env rest (opts\<lparr>xr_Count := cnt\<rparr>)))
      else if arg = ''BLOCK'' then
        (case rest of
           [] \<Rightarrow> Inl ErrSyntaxError
         | v # rest \<Rightarrow> (case Int64 v of
             Inl _ \<Rightarrow> Inl ErrXReadInt
           | Inr block \<Rightarrow> XRead_parseArgs env rest (opts\<lparr>xr_Block := Some (wrap_i64 (block * 1000000))\<rparr>)))
      else if arg = ''STREAMS'' then
        (let streamCount = length rest div 2 in
         if streamCount = 0 \<or> length rest mod 2 \<noteq> 0 then Inl ErrXReadUnbalanced
         else
           (let keys = map String (take streamCount rest); ids = map String (drop streamCount rest) in
            Inr (opts\<lparr>xr_Streams := fold (\<lambda>(k, i) m. map_put m k i) (zip keys ids) []\<rparr>, keys)))
      else Inl ErrSyntaxError)"

definition xread_entries :: "xread_opts \<Rightarrow> stream \<Rightarrow> string \<Rightarrow> stream_entry list" where
  "xread_entries opts x lastID =
     (if lastID = ''$'' then []
      else if lastID = ''+'' then stream_Range x (stream_LastID x) ''+'' 1
      else stream_Range x lastID ''+'' (xr_Count opts))"

text \<open>The first round over the streams: an error, a panic, or what was found.\<close>

fun readStreams :: "xread_opts \<Rightarrow> kvstore \<Rightarrow> (string \<times> string) list \<Rightarrow> (string \<times> stream_entry list) list \<Rightarrow>
    (string + (string \<times> stream_entry list) list) go" where
  "readStreams opts st [] result = Ret (Inr result)"
| "readStreams opts st ((streamName, lastID) # rest) result =
     (case fst (kv_GetStream st streamName False) of
        Panic \<Rightarrow> Panic
      | Ret (Inl err) \<Rightarrow> Ret (Inl err)
      | Ret (Inr None) \<Rightarrow> readStreams opts st rest result
      | Ret (Inr (Some x)) \<Rightarrow>
          (let es = xread_entries opts x lastID in
           readStreams opts st rest (if es = [] then result else map_put result streamName es)))"

text \<open>\<open>blockingRead\<close> up to the select: a channel for every stream, creating missing streams. An
  error leaves the channels subscribed so far to the deferred function, which removes them.\<close>

fun subscribe_all :: "string list \<Rightarrow> kvstore \<Rightarrow> hub \<Rightarrow> (string \<times> nat) list \<Rightarrow> (string + (string \<times> nat) list) go \<times> (string \<times> nat) list \<times> kvstore \<times> hub" where
  "subscribe_all [] st h subs = (Ret (Inr subs), subs, st, h)"
| "subscribe_all (streamName # rest) st h subs =
     (case kv_GetStream st streamName True of
        (Panic, st) \<Rightarrow> (Panic, subs, st, h)
      | (Ret (Inl err), st) \<Rightarrow> (Ret (Inl err), subs, st, h)
      | (Ret (Inr None), st) \<Rightarrow> (Panic, subs, st, h)
      | (Ret (Inr (Some x)), st) \<Rightarrow>
          (case Subscribe x h of (ch, x, h) \<Rightarrow>
             subscribe_all rest (put_stream st streamName x) h (map_put subs streamName ch)))"

fun unsubscribe_all :: "(string \<times> nat) list \<Rightarrow> kvstore \<Rightarrow> hub \<Rightarrow> kvstore \<times> hub" where
  "unsubscribe_all [] st h = (st, h)"
| "unsubscribe_all ((streamName, ch) # rest) st h =
     (case fst (kv_GetStream st streamName False) of
        Ret (Inr (Some x)) \<Rightarrow>
          (case Unsubscribe x ch h of (x, h) \<Rightarrow> unsubscribe_all rest (put_stream st streamName x) h)
      | _ \<Rightarrow> unsubscribe_all rest st h)"

definition stream_response :: "string list \<Rightarrow> (string \<times> stream_entry list) list \<Rightarrow> (string \<times> goval) list go" where
  "stream_response order result =
     foldr (\<lambda>streamName acc. case map_of result streamName of
         None \<Rightarrow> acc
       | Some ents \<Rightarrow> (case formatEntries ents of
           Panic \<Rightarrow> Panic
         | Ret es \<Rightarrow> (case acc of Panic \<Rightarrow> Panic | Ret r \<Rightarrow> Ret ((streamName, GSlice es) # r)))) order (Ret [])"

definition XRead_writeResult :: "int \<Rightarrow> string list \<Rightarrow> (string \<times> stream_entry list) list \<Rightarrow> server \<Rightarrow> writer \<Rightarrow> cres" where
  "XRead_writeResult preferred order result s w =
     (case stream_response order result of
        Panic \<Rightarrow> Crash
      | Ret response \<Rightarrow>
          if preferred = RESP3 then
            done_w s (WriteMapOrdered (fold (\<lambda>(k, v) m. map_put m k v) response []) order w)
          else
            done_w s (WriteSlice (map (\<lambda>(k, v). GSlice [GScalar (GString k), v]) response) w))"

definition XRead_Execute :: "go_env \<Rightarrow> nat \<Rightarrow> resp list \<Rightarrow> server \<Rightarrow> writer \<Rightarrow> cres" where
  "XRead_Execute env c args s w =
     (case XRead_parseArgs env args \<lparr>xr_Count = 0, xr_Block = None, xr_Streams = []\<rparr> of
        Inl err \<Rightarrow> write_err err s w
      | Inr (opts, order) \<Rightarrow>
          (let s = s\<lparr>streamOrder := order\<rparr> in
           case readStreams opts (store s) (xr_Streams opts) [] of
             Panic \<Rightarrow> Crash
           | Ret (Inl err) \<Rightarrow> write_err err s w
           | Ret (Inr result) \<Rightarrow>
               if result \<noteq> [] then XRead_writeResult (preferredRespVersion (client_of s c)) order result s w
               else (case xr_Block opts of
                   None \<Rightarrow> Done s (WriteNull (CHR ''*'') w) None
                 | Some block \<Rightarrow> Blocks s w (BlockedSubscribe (map fst (xr_Streams opts)) block))))"

text \<open>\<open>blockingRead\<close> up to its select. Nothing is locked between the reading of the streams and this, so
  it is a step of its own: an entry added in between is in no channel. The cases of the select
  follow the shared field as it is by then; a name that is not subscribed gives a nil channel.\<close>

definition XRead_subscribe :: "go_env \<Rightarrow> string list \<Rightarrow> int \<Rightarrow> server \<Rightarrow> writer \<Rightarrow> cres" where
  "XRead_subscribe env keys block s w =
     (case subscribe_all keys (store s) (chans s) [] of
        (Panic, subs, st, h) \<Rightarrow> Crash
      | (Ret (Inl err), subs, st, h) \<Rightarrow>
          (case unsubscribe_all subs st h of (st, h) \<Rightarrow> write_err err (s\<lparr>store := st, chans := h\<rparr>) w)
      | (Ret (Inr subs), _, st, h) \<Rightarrow>
          Blocks (s\<lparr>store := st, chans := h\<rparr>) w
            (BlockedXRead subs (map (map_of subs) (streamOrder s)) (if 0 < block then Some (now_ns env + block) else None)))"

text \<open>The case the select has chosen: the channel at a position of \<open>x.streamOrder\<close>, or the
  timer.\<close>

datatype select_case = Channel nat | Timer

text \<open>The rest of \<open>blockingRead\<close> and of \<open>Execute\<close>. A case is chosen only when it is ready: a channel
  when it holds an entry, the timer when its time has come; otherwise the call goes on waiting.
  The name of the stream is looked up at the chosen position of the shared field, as it is by
  then.\<close>

definition xread_wake :: "go_env \<Rightarrow> nat \<Rightarrow> (string \<times> nat) list \<Rightarrow> nat option list \<Rightarrow> int option \<Rightarrow> select_case \<Rightarrow> server \<Rightarrow> writer \<Rightarrow> cres" where
  "xread_wake env c subs select deadline chosen s w =
     (case chosen of
        Timer \<Rightarrow>
          (case deadline of
             Some t \<Rightarrow>
               if t \<le> now_ns env then
                 (case unsubscribe_all subs (store s) (chans s) of (st, h) \<Rightarrow>
                    Done (s\<lparr>store := st, chans := h\<rparr>) (WriteNull (CHR ''*'') w) None)
               else Blocks s w (BlockedXRead subs select deadline)
           | None \<Rightarrow> Blocks s w (BlockedXRead subs select deadline))
      | Channel i \<Rightarrow>
          (case (if i < length select then select ! i else None) of
             None \<Rightarrow> Blocks s w (BlockedXRead subs select deadline)
           | Some ch \<Rightarrow>
               (case queue_of (chans s) ch of
                  Some (entry # q) \<Rightarrow>
                    (let h = (chans s)\<lparr>queue_of := (queue_of (chans s))(ch \<mapsto> q)\<rparr> in
                     case unsubscribe_all subs (store s) h of (st, h) \<Rightarrow>
                       (let s = s\<lparr>store := st, chans := h\<rparr>; order = streamOrder s in
                        if i < length subs then
                          (if length order \<le> i then Crash
                           else XRead_writeResult (preferredRespVersion (client_of s c)) order [(order ! i, [entry])] s w)
                        else Done s (WriteNull (CHR ''*'') w) None))
                | _ \<Rightarrow> Blocks s w (BlockedXRead subs select deadline))))"

fun XRead_IsBlocking :: "go_env \<Rightarrow> resp list \<Rightarrow> bool" where
  "XRead_IsBlocking env [] = False"
| "XRead_IsBlocking env (a # rest) =
     (if ToUpper env (String a) = ''BLOCK'' then
        (case rest of v # _ \<Rightarrow> (case ParseInt (String v) of Inr _ \<Rightarrow> True | Inl _ \<Rightarrow> False) | [] \<Rightarrow> False)
      else XRead_IsBlocking env rest)"

end
