(* ===== verification/Server_Commands.thy ===== *)
theory Server_Commands
  imports Stream_Commands
begin

text \<open>
  The commands on connections, replication and transactions: \<open>pkg/command/hello.go\<close>,
  \<open>client.go\<close>, \<open>config.go\<close>, \<open>info.go\<close>, \<open>replconf.go\<close>, \<open>psync.go\<close>, \<open>save.go\<close>, \<open>wait.go\<close> and
  \<open>transaction.go\<close>, with the table of commands of \<open>command.go\<close>.

  The writer of a reply is the client's own writer when the server loop runs a command, and a
  buffer of its own when \<open>EXEC\<close> or the master connection does. Only \<open>PSYNC\<close> sees the
  difference, because it flushes the client's writer: its argument \<open>own\<close> says which it is.
\<close>

section \<open>HELLO\<close>

text \<open>The options after the protocol version. The value of \<open>SETNAME\<close> is looked at again as the
  next option.\<close>

function hello_options :: "resp list \<Rightarrow> client \<Rightarrow> string option \<times> client" where
  "hello_options [] x = (None, x)"
| "hello_options (a # rest) x =
     (let optName = String a in
      if optName = ''AUTH'' then
        (if length rest < 2 then (Some ''AUTH requires 2 arguments'', x)
         else hello_options (drop 2 rest) (SetAuthenticated True x))
      else if optName = ''SETNAME'' then
        (if rest = [] then (Some ''SETNAME requires 1 argument'', x)
         else hello_options rest (SetName (String (hd rest)) x))
      else hello_options rest x)"
  by pat_completeness auto
termination by (relation "measure (\<lambda>(args, x). length args)") auto

definition hello_map :: "int \<Rightarrow> (string \<times> goval) list" where
  "hello_map protover =
     [(''server'', GScalar (GString ''redis'')), (''version'', GScalar (GString ''6.2.6'')),
      (''proto'', GScalar (GVersion protover)), (''id'', GScalar (GInt 1)),
      (''mode'', GScalar (GString ''standalone'')), (''role'', GScalar (GString ''master'')),
      (''modules'', GSlice [])]"

definition Hello_Execute :: "nat \<Rightarrow> resp list \<Rightarrow> server \<Rightarrow> writer \<Rightarrow> cres" where
  "Hello_Execute c args s w =
     (case (case args of [] \<Rightarrow> Inr RESP2
            | a # _ \<Rightarrow> (case Int64 a of
                Inl _ \<Rightarrow> Inl ''invalid protocol version''
              | Inr pv \<Rightarrow> if pv \<noteq> RESP2 \<and> pv \<noteq> RESP3 then Inl ''unsupported protocol version'' else Inr pv)) of
        Inl err \<Rightarrow> write_err err s w
      | Inr protover \<Rightarrow>
          (case hello_options (drop 1 args) (client_of s c) of
             (Some err, x) \<Rightarrow> write_err err (set_client c x s) w
           | (None, x) \<Rightarrow> done_w (set_client c x s) (WriteMap (hello_map protover) w)))"

section \<open>CLIENT\<close>

definition Client_Execute :: "go_env \<Rightarrow> nat \<Rightarrow> resp list \<Rightarrow> server \<Rightarrow> writer \<Rightarrow> cres" where
  "Client_Execute env c args s w =
     (if length args < 1 then write_err ''wrong number of arguments for 'client' command'' s w
      else
        (let subCmd = ToUpper env (String (args ! 0)) in
         if subCmd = ''SETNAME'' then
           (if length args \<noteq> 2 then write_err ''wrong number of arguments for 'CLIENT SETNAME' command'' s w
            else write_ok (update_client c (SetName (String (args ! 1))) s) w)
         else if subCmd = ''SETINFO'' then
           (if length args \<noteq> 3 then write_err ''wrong number of arguments for 'CLIENT SETINFO' command'' s w
            else
              (let infoName = ToUpper env (String (args ! 1)); infoValue = ToUpper env (String (args ! 2)) in
               if infoName = ''LIB-VER'' then write_ok (update_client c (SetLibVersion infoValue) s) w
               else if infoName = ''LIB-NAME'' then write_ok (update_client c (SetLibName infoValue) s) w
               else write_err ''wrong argument for 'CLIENT SETINFO' command'' s w))
         else write_ok s w))"

section \<open>CONFIG\<close>

fun config_set_pairs :: "go_env \<Rightarrow> config \<Rightarrow> resp list \<Rightarrow> string option \<times> config" where
  "config_set_pairs env cf (k # v # rest) =
     (case config_Set env cf (String k) (String v) of
        Inl err \<Rightarrow> (Some err, cf)
      | Inr cf \<Rightarrow> config_set_pairs env cf rest)"
| "config_set_pairs env cf _ = (None, cf)"

definition Config_handleSet :: "go_env \<Rightarrow> resp list \<Rightarrow> server \<Rightarrow> writer \<Rightarrow> cres" where
  "Config_handleSet env args s w =
     (if length args < 2 \<or> length args mod 2 \<noteq> 0 then
        write_err ''wrong number of arguments for config|set command'' s w
      else (case config_set_pairs env (cfg s) args of
          (Some err, cf) \<Rightarrow> write_err err (s\<lparr>cfg := cf\<rparr>) w
        | (None, cf) \<Rightarrow> write_ok (s\<lparr>cfg := cf\<rparr>) w))"

definition Config_handleGet :: "go_env \<Rightarrow> nat \<Rightarrow> resp list \<Rightarrow> server \<Rightarrow> writer \<Rightarrow> cres" where
  "Config_handleGet env c args s w =
     (if length args < 1 then write_err ''wrong number of arguments for config|get command'' s w
      else
        (let valueMap = config_GetBatch env (cfg s) (map String args) in
         if preferredRespVersion (client_of s c) = RESP3 then
           done_w s (WriteMap (map (\<lambda>(k, v). (k, GScalar (GString v))) valueMap) w)
         else Done s (WriteStringSlice (concat (map (\<lambda>(k, v). [k, v]) valueMap)) w) None))"

definition Config_Execute :: "go_env \<Rightarrow> nat \<Rightarrow> resp list \<Rightarrow> server \<Rightarrow> writer \<Rightarrow> cres" where
  "Config_Execute env c args s w =
     (if length args < 1 then write_err ''wrong number of arguments for 'config' command'' s w
      else
        (let subCmd = ToUpper env (String (args ! 0)); args = drop 1 args in
         if subCmd = ''GET'' then Config_handleGet env c args s w
         else if subCmd = ''SET'' then Config_handleSet env args s w
         else write_err (''unknown subcommand '' @ [CHR 0x27] @ subCmd @ [CHR 0x27] @ '' for 'config' command'') s w))"

section \<open>INFO\<close>

definition info_line :: "string \<Rightarrow> string \<Rightarrow> string" where
  "info_line key val = key @ '':'' @ val @ crlf"

definition determineRole :: "go_env \<Rightarrow> config \<Rightarrow> string" where
  "determineRole env cf = (case config_Get env cf ReplicaOfKey of Inr _ \<Rightarrow> ''slave'' | Inl _ \<Rightarrow> ''master'')"

definition getMasterReplOffset :: string where "getMasterReplOffset = ''0''"

definition getMasterReplID :: "server \<Rightarrow> string" where "getMasterReplID s = GetReplicationID s"

definition buildReplicaInfo :: "server \<Rightarrow> string" where
  "buildReplicaInfo s = concat (map (\<lambda>(i, r).
     ''slave'' @ Itoa (int i) @ '':id='' @ ri_id r @ '',ip='' @ ri_addr r @ '',port='' @ ri_port r @
     '',state=online,offset=0,lag=0'' @ crlf) (enumerate 0 (GetReplicaInfo s)))"

record section_info =
  StaticFields :: "(string \<times> string) list"
  DynamicFields :: "(string \<times> (go_env \<Rightarrow> server \<Rightarrow> string)) list"
  CustomBuilder :: "(server \<Rightarrow> string) option"

definition sections :: "(string \<times> section_info) list" where
  "sections =
     [(''server'', \<lparr>StaticFields = [(''src_version'', ''1.0.0''), (''redis_version'', ''7.4-rc1''),
          (''redis_git_sha1'', ''random-sha1''), (''redis_build_id'', ''20240616''), (''redis_mode'', ''standalone'')],
        DynamicFields = [], CustomBuilder = None\<rparr>),
      (''replication'', \<lparr>StaticFields = [],
        DynamicFields = [(''role'', \<lambda>env s. determineRole env (cfg s)), (''master_replid'', \<lambda>env s. getMasterReplID s),
          (''master_repl_offset'', \<lambda>env s. getMasterReplOffset),
          (''connected_slaves'', \<lambda>env s. Itoa (int (length (GetReplicaInfo s))))],
        CustomBuilder = Some buildReplicaInfo\<rparr>)]"

definition buildSectionString :: "go_env \<Rightarrow> server \<Rightarrow> string \<Rightarrow> section_info \<Rightarrow> string" where
  "buildSectionString env s sectionName sectionInfo =
     ''# '' @ sectionName @ crlf @
     concat (map (\<lambda>(k, v). info_line k v) (StaticFields sectionInfo)) @
     concat (map (\<lambda>(k, handler). info_line k (handler env s)) (DynamicFields sectionInfo)) @
     (case CustomBuilder sectionInfo of None \<Rightarrow> [] | Some build \<Rightarrow> build s)"

definition Info_Execute :: "go_env \<Rightarrow> resp list \<Rightarrow> server \<Rightarrow> writer \<Rightarrow> cres" where
  "Info_Execute env args s w =
     (if 1 < length args then write_err ''wrong number of arguments for 'info' command'' s w
      else done_w s (WriteValue (GScalar (GString
        (case args of
           [a] \<Rightarrow> (case map_of sections (String a) of
               None \<Rightarrow> [] | Some sectionInfo \<Rightarrow> buildSectionString env s (String a) sectionInfo)
         | _ \<Rightarrow> concat (map (\<lambda>(n, i). buildSectionString env s n i @ crlf) sections)))) w))"

section \<open>REPLCONF\<close>

definition ReplConf_Execute :: "go_env \<Rightarrow> nat \<Rightarrow> resp list \<Rightarrow> server \<Rightarrow> writer \<Rightarrow> cres" where
  "ReplConf_Execute env c args s w =
     (if length args < 1 then write_err ''wrong number of arguments for 'replconf' command'' s w
      else
        (let subCommand = ToLower env (String (args ! 0)) in
         if subCommand = ''listening-port'' then
           (if length args \<noteq> 2 then write_err ''wrong number of arguments for 'replconf listening-port' command'' s w
            else write_ok (update_client c (\<lambda>x. x\<lparr>ListeningPort := String (args ! 1)\<rparr>) s) w)
         else if subCommand = ''capa'' then write_ok s w
         else if subCommand = ''ack'' then
           (if length args \<noteq> 2 then write_err ''wrong number of arguments for 'replconf ack' command'' s w
            else (case ParseUint (String (args ! 1)) of
                Inl e \<Rightarrow> write_err (''invalid offset in REPLCONF ACK: '' @ num_error_msg env e) s w
              | Inr off \<Rightarrow> Done (update_client c (UpdateOffset off) s) w None))
         else write_err (''unknown replconf subcommand: '' @ subCommand) s w))"

section \<open>PSYNC\<close>

text \<open>\<open>c.Send()\<close>: what the client's writer has buffered goes to the connection. A failed flush
  keeps it.\<close>

definition flush_error :: "cmd_env \<Rightarrow> string" where
  "flush_error env = ''failed to flush writer: '' @ closed_error env"

definition send_writer :: "cmd_env \<Rightarrow> nat \<Rightarrow> server \<Rightarrow> writer \<Rightarrow> server \<times> writer \<times> string option" where
  "send_writer env c s w =
     (let (b, w') = Flush w in
      if b = [] then (s, w, None)
      else (let (s, ok) = conn_write c b s in if ok then (s, w', None) else (s, w, Some (flush_error env))))"

definition client_Send :: "cmd_env \<Rightarrow> nat \<Rightarrow> server \<Rightarrow> server \<times> string option" where
  "client_Send env c s =
     (case send_writer env c s (Writer (client_of s c)) of
        (s, w, err) \<Rightarrow> (update_client c (\<lambda>x. x\<lparr>Writer := w\<rparr>) s, err))"

definition psync_send :: "cmd_env \<Rightarrow> bool \<Rightarrow> nat \<Rightarrow> server \<Rightarrow> writer \<Rightarrow> server \<times> writer \<times> string option" where
  "psync_send env own c s w =
     (if own then send_writer env c s w else (case client_Send env c s of (s, err) \<Rightarrow> (s, w, err)))"

definition Psync_Execute :: "cmd_env \<Rightarrow> bool \<Rightarrow> nat \<Rightarrow> resp list \<Rightarrow> server \<Rightarrow> writer \<Rightarrow> cres" where
  "Psync_Execute env own c args s w =
     (if length args \<noteq> 2 then write_err ''wrong number of arguments for 'psync' command'' s w
      else if String (args ! 0) \<noteq> ''?'' \<or> String (args ! 1) \<noteq> ''-1'' then
        write_err ''invalid arguments for 'psync' command'' s w
      else
        (let response = ''FULLRESYNC '' @ GetReplicationID s @ '' 0'' in
         case psync_send env own c s (WriteSimpleValue (CHR ''+'') response w) of
           (s, w, Some err) \<Rightarrow> Done s w (Some err)
         | (s, w, None) \<Rightarrow>
             (case SaveRDB (base env) (kv_Export (store s)) of
                Inl err \<Rightarrow> Done s w (Some err)
              | Inr rdbData \<Rightarrow>
                  (case conn_write c (''$'' @ Itoa (int (length rdbData)) @ crlf @ rdbData) s of
                     (s, False) \<Rightarrow> Done s w (Some (closed_error env))
                   | (s, True) \<Rightarrow> (case psync_send env own c s w of (s, w, err) \<Rightarrow> Done s w err)))))"

section \<open>SAVE\<close>

text \<open>The bytes that reach the file, also when the save stops at a value it cannot write.\<close>

definition object_start :: "string \<Rightarrow> kvalue \<Rightarrow> string" where
  "object_start key val =
     (if VType val \<noteq> ValueTypeString then []
      else (if 0 < Expiry val then writeExpire (Expiry val) else []) @ [CHR 0x00] @ rdb_writeString key)"

fun objects_written :: "kvstore \<Rightarrow> string" where
  "objects_written [] = []"
| "objects_written ((key, val) # data) =
     (case writeObject key val of Inl _ \<Rightarrow> object_start key val | Inr b \<Rightarrow> b @ objects_written data)"

definition Save_Execute :: "cmd_env \<Rightarrow> server \<Rightarrow> writer \<Rightarrow> cres" where
  "Save_Execute env s w =
     (case create_error env of
        Some e \<Rightarrow> write_err (''failed to create dump.rdb: '' @ e) s w
      | None \<Rightarrow>
          (let data = kv_Export (store s) in
           case SaveRDB (base env) data of
             Inl err \<Rightarrow>
               write_err (''failed to save RDB: '' @ err)
                 (s\<lparr>dump_file := Some (rdb_preamble (base env) data @ objects_written data)\<rparr>) w
           | Inr bytes \<Rightarrow> write_ok (s\<lparr>dump_file := Some bytes\<rparr>) w))"

section \<open>WAIT\<close>

text \<open>One round of the loop, at the time and in the state it finds; between two rounds the call
  sleeps for ten milliseconds.\<close>

definition wait_round :: "go_env \<Rightarrow> int \<Rightarrow> int \<Rightarrow> int \<Rightarrow> 64 word \<Rightarrow> server \<Rightarrow> writer \<Rightarrow> cres" where
  "wait_round env numReplicas timeoutMillis startTime clientOffset s w =
     (let ackedReplicas = int (GetReplicaAcknowledgedCount s clientOffset);
          timeout = wrap_i64 (timeoutMillis * 1000000) in
      if numReplicas \<le> ackedReplicas then Done s (WriteSimpleValue (CHR '':'') (Itoa ackedReplicas) w) None
      else if timeoutMillis = 0 then Blocks s w (BlockedWait numReplicas timeoutMillis startTime clientOffset)
      else if timeout \<le> now_ns env - startTime then
        Done s (WriteSimpleValue (CHR '':'') (Itoa (int (length (GetReplicaInfo s)))) w) None
      else Blocks s w (BlockedWait numReplicas timeoutMillis startTime clientOffset))"

definition Wait_Execute :: "go_env \<Rightarrow> nat \<Rightarrow> resp list \<Rightarrow> server \<Rightarrow> writer \<Rightarrow> cres" where
  "Wait_Execute env c args s w =
     (if length args \<noteq> 2 then write_err ''ERR wrong number of arguments for 'wait' command'' s w
      else (case Atoi (String (args ! 0)) of
          Inl _ \<Rightarrow> write_err ''ERR invalid number of replicas'' s w
        | Inr numReplicas \<Rightarrow>
            if numReplicas < 0 then write_err ''ERR invalid number of replicas'' s w
            else (case Atoi (String (args ! 1)) of
                Inl _ \<Rightarrow> write_err ''ERR invalid timeout'' s w
              | Inr timeoutMillis \<Rightarrow>
                  if timeoutMillis < 0 then write_err ''ERR invalid timeout'' s w
                  else if GetLastWriteOffset (client_of s c) = 0 then
                    Done s (WriteSimpleValue (CHR '':'') ''0'' w) None
                  else wait_round env numReplicas timeoutMillis (now_ns env) (GetLastWriteOffset (client_of s c)) s w)))"

section \<open>The table of commands\<close>

datatype command =
    Echo | Ping | CSet | CGet | Hello | CInfo | ClientCmd | ConfigCmd | Keys | TypeCmd
  | XAdd | XRange | XRead | ReplConf | Psync | Save | Wait | Incr | Multi | Discard | Exec

definition commands :: "(string \<times> command) list" where
  "commands =
     [(''echo'', Echo), (''ping'', Ping), (''set'', CSet), (''get'', CGet), (''hello'', Hello),
      (''info'', CInfo), (''client'', ClientCmd), (''config'', ConfigCmd), (''keys'', Keys), (''type'', TypeCmd),
      (''xadd'', XAdd), (''xrange'', XRange), (''xread'', XRead), (''replconf'', ReplConf), (''psync'', Psync),
      (''save'', Save), (''wait'', Wait), (''incr'', Incr), (''multi'', Multi), (''discard'', Discard), (''exec'', Exec)]"

definition GetCommand :: "string \<Rightarrow> string + command" where
  "GetCommand cmd = (case map_of commands cmd of
       None \<Rightarrow> Inl (''unknown command: '' @ cmd)
     | Some x \<Rightarrow> Inr x)"

definition TransactionCommands :: "string list" where
  "TransactionCommands = [''multi'', ''exec'', ''discard'']"

definition IsBlocking :: "go_env \<Rightarrow> command \<Rightarrow> resp list \<Rightarrow> bool" where
  "IsBlocking env cmd args = (case cmd of
       Save \<Rightarrow> True | Wait \<Rightarrow> True | XRead \<Rightarrow> XRead_IsBlocking env args | _ \<Rightarrow> False)"

section \<open>MULTI, DISCARD\<close>

definition Multi_Execute :: "nat \<Rightarrow> resp list \<Rightarrow> server \<Rightarrow> writer \<Rightarrow> cres" where
  "Multi_Execute c args s w =
     (if length args \<noteq> 0 then write_err ''wrong number of arguments for 'multi' command'' s w
      else if IsInTransaction (client_of s c) then write_err ''ERR MULTI calls can not be nested'' s w
      else write_ok (update_client c StartTransaction s) w)"

definition Discard_Execute :: "nat \<Rightarrow> resp list \<Rightarrow> server \<Rightarrow> writer \<Rightarrow> cres" where
  "Discard_Execute c args s w =
     (if length args \<noteq> 0 then write_err ''wrong number of arguments for 'discard' command'' s w
      else if \<not> IsInTransaction (client_of s c) then write_err ''ERR DISCARD without MULTI'' s w
      else write_ok (update_client c ClearTransaction s) w)"

text \<open>Every command but \<open>EXEC\<close>. An \<open>EXEC\<close> inside an \<open>EXEC\<close> would call itself on the same queue until
  the stack is full; the queue never holds one (\<open>server_invariant\<close> of \<open>Transaction_Props\<close>).\<close>

definition execute_plain :: "cmd_env \<Rightarrow> bool \<Rightarrow> nat \<Rightarrow> command \<Rightarrow> resp list \<Rightarrow> server \<Rightarrow> writer \<Rightarrow> cres" where
  "execute_plain env own c cmd args s w = (case cmd of
       Echo \<Rightarrow> Echo_Execute args s w
     | Ping \<Rightarrow> Ping_Execute args s w
     | CSet \<Rightarrow> Set_Execute (base env) args s w
     | CGet \<Rightarrow> Get_Execute (base env) args s w
     | Hello \<Rightarrow> Hello_Execute c args s w
     | CInfo \<Rightarrow> Info_Execute (base env) args s w
     | ClientCmd \<Rightarrow> Client_Execute (base env) c args s w
     | ConfigCmd \<Rightarrow> Config_Execute (base env) c args s w
     | Keys \<Rightarrow> Keys_Execute env args s w
     | TypeCmd \<Rightarrow> Type_Execute args s w
     | XAdd \<Rightarrow> XAdd_Execute (base env) args s w
     | XRange \<Rightarrow> XRange_Execute (base env) args s w
     | XRead \<Rightarrow> XRead_Execute (base env) c args s w
     | ReplConf \<Rightarrow> ReplConf_Execute (base env) c args s w
     | Psync \<Rightarrow> Psync_Execute env own c args s w
     | Save \<Rightarrow> Save_Execute env s w
     | Wait \<Rightarrow> Wait_Execute (base env) c args s w
     | Incr \<Rightarrow> Incr_Execute (base env) args s w
     | Multi \<Rightarrow> Multi_Execute c args s w
     | Discard \<Rightarrow> Discard_Execute c args s w
     | Exec \<Rightarrow> Crash)"

section \<open>EXEC\<close>

definition exec_reply :: "string list \<Rightarrow> string" where
  "exec_reply responses = ''*'' @ Itoa (int (length responses)) @ crlf @ concat responses"

text \<open>The end of a round of the loop: the reply of the command, and its propagation.\<close>

definition exec_after :: "go_env \<Rightarrow> nat \<Rightarrow> resp \<Rightarrow> string list \<Rightarrow> server \<Rightarrow> writer \<Rightarrow> string option \<Rightarrow> (server \<times> string list) go" where
  "exec_after env c cmdResp responses s buf err =
     (let responses = responses @ [case err of Some e \<Rightarrow> ''-'' @ e | None \<Rightarrow> written buf] in
      case resp_array cmdResp of
        Ret (n # _) \<Rightarrow>
          if ToLower env (String n) \<in> set WriteableCommands then
            (case PropagateCommand c cmdResp s of Panic \<Rightarrow> Panic | Ret s \<Rightarrow> Ret (s, responses))
          else Ret (s, responses)
      | _ \<Rightarrow> Panic)"

fun exec_queue :: "cmd_env \<Rightarrow> nat \<Rightarrow> resp list \<Rightarrow> string list \<Rightarrow> server \<Rightarrow> writer \<Rightarrow> cres" where
  "exec_queue env c [] responses s w =
     Done (update_client c ClearTransaction s) (emit (exec_reply responses) w) None"
| "exec_queue env c (cmdResp # queue) responses s w =
     (case resp_array cmdResp of
        Ret (n # args) \<Rightarrow>
          (case GetCommand (ToLower (base env) (String n)) of
             Inl err \<Rightarrow> exec_queue env c queue (responses @ [''-'' @ err]) s w
           | Inr cmd \<Rightarrow>
               (case execute_plain env False c cmd args s (NewWriter (preferredRespVersion (client_of s c))) of
                  Crash \<Rightarrow> Crash
                | Blocks s buf b \<Rightarrow> Blocks s w (BlockedExec b buf cmdResp queue responses)
                | Done s buf err \<Rightarrow>
                    (case exec_after (base env) c cmdResp responses s buf err of
                       Panic \<Rightarrow> Crash
                     | Ret (s, responses) \<Rightarrow> exec_queue env c queue responses s w)))
      | _ \<Rightarrow> Crash)"

definition Exec_Execute :: "cmd_env \<Rightarrow> nat \<Rightarrow> resp list \<Rightarrow> server \<Rightarrow> writer \<Rightarrow> cres" where
  "Exec_Execute env c args s w =
     (if length args \<noteq> 0 then write_err ''wrong number of arguments for 'exec' command'' s w
      else if \<not> IsInTransaction (client_of s c) then write_err ''ERR EXEC without MULTI'' s w
      else exec_queue env c (GetTransactionQueue (client_of s c)) [] s w)"

text \<open>\<open>cmd.Execute\<close>\<close>

definition Execute :: "cmd_env \<Rightarrow> bool \<Rightarrow> nat \<Rightarrow> command \<Rightarrow> resp list \<Rightarrow> server \<Rightarrow> writer \<Rightarrow> cres" where
  "Execute env own c cmd args s w =
     (if cmd = Exec then Exec_Execute env c args s w else execute_plain env own c cmd args s w)"

section \<open>Going on after a wait\<close>

text \<open>The rest of a call that waits: the select of \<open>XREAD\<close> with the case it chose, the next round
  of \<open>WAIT\<close>, or the rest of an \<open>EXEC\<close> whose command waits.\<close>

fun resume :: "cmd_env \<Rightarrow> nat \<Rightarrow> select_case \<Rightarrow> blocked \<Rightarrow> server \<Rightarrow> writer \<Rightarrow> cres" where
  "resume env c chosen (BlockedSubscribe keys block) s w = XRead_subscribe (base env) keys block s w"
| "resume env c chosen (BlockedXRead subs select deadline) s w =
     xread_wake (base env) c subs select deadline chosen s w"
| "resume env c chosen (BlockedWait n timeoutMillis startTime off) s w =
     wait_round (base env) n timeoutMillis startTime off s w"
| "resume env c chosen (BlockedExec b buf cmdResp queue responses) s w =
     (case resume env c chosen b s buf of
        Crash \<Rightarrow> Crash
      | Blocks s buf b \<Rightarrow> Blocks s w (BlockedExec b buf cmdResp queue responses)
      | Done s buf err \<Rightarrow>
          (case exec_after (base env) c cmdResp responses s buf err of
             Panic \<Rightarrow> Crash
           | Ret (s, responses) \<Rightarrow> exec_queue env c queue responses s w))"

end
