(* ===== verification/Server.thy ===== *)
theory Server
  imports Server_Commands
begin

text \<open>
  \<open>internal/app/server/server.go\<close>: the server loop, the replicas it feeds, and its own
  connection to a master.

  Goroutines that write to one connection and end (\<open>GETACK\<close> and \<open>PING\<close> to a replica) run
  where they are started, one after the other. A command that \<open>IsBlocking\<close> runs in a goroutine
  of its own: it is recorded in \<open>spawned\<close> until it first runs and in \<open>waiting\<close> while it waits,
  and the events at the end of this theory interleave these with the messages. The server's own
  \<open>disconnectChan\<close> is never sent to (a client sends to its own), so its case of the loop is left
  out. Bytes reach a connection when the buffered writer is flushed.
\<close>

section \<open>NewServer, Start\<close>

text \<open>The random replication ID is an argument. A \<open>replicaof\<close> without a space is an index out of
  range.\<close>

definition NewServer :: "go_env \<Rightarrow> config \<Rightarrow> string \<Rightarrow> server go" where
  "NewServer env cf randomID =
     (let replicaOf = (case config_Get env cf ReplicaOfKey of Inl _ \<Rightarrow> [] | Inr v \<Rightarrow> v);
          isM = (replicaOf = []);
          parts = Split replicaOf (CHR '' '') in
      if \<not> isM \<and> length parts < 2 then Panic
      else Ret \<lparr>cfg = cf, store = NewStore, chans = empty_hub, srv_offset = 0, isMaster = isM,
        masterAddr = (if isM then [] else parts ! 0 @ '':'' @ parts ! 1),
        replicationID = (if isM then randomID else []), cl_heap = [], connected = [], replicas = [],
        masterClient = None, dump_file = None, streamOrder = [], responseWaitQueue = [], requests = 0, sentRequest = None,
        handshake = NotStarted\<rparr>)"

text \<open>The part of \<open>Start\<close> that loads the RDB file; the argument is the content of the file at the
  configured path, if it exists.\<close>

definition load_file :: "cmd_env \<Rightarrow> string option \<Rightarrow> server \<Rightarrow> rdb_error + server" where
  "load_file env content s = (case content of
       None \<Rightarrow> Inr s
     | Some bytes \<Rightarrow> (case ParseRDB (base env) (lzf_decompress env) bytes of
         Inl e \<Rightarrow> Inl e
       | Inr p \<Rightarrow> Inr (s\<lparr>store := RestoreRDB (store s) (GetData p)\<rparr>)))"

section \<open>Connections\<close>

definition put_writer :: "nat \<Rightarrow> writer \<Rightarrow> server \<Rightarrow> server" where
  "put_writer c w s = update_client c (\<lambda>x. x\<lparr>Writer := w\<rparr>) s"

definition acceptConnection :: "go_env \<Rightarrow> nat \<Rightarrow> string \<Rightarrow> string \<Rightarrow> server \<Rightarrow> server" where
  "acceptConnection env c randomID addr s =
     (let s = set_client c ((NewClient env addr)\<lparr>client_ID := randomID\<rparr>) s in s\<lparr>connected := connected s @ [c]\<rparr>)"

definition closeClient :: "nat \<Rightarrow> server \<Rightarrow> server" where
  "closeClient c s = update_client c Close (s\<lparr>connected := filter (\<lambda>x. x \<noteq> c) (connected s)\<rparr>)"

text \<open>\<open>writeError\<close> returns the error it was given; the write to the buffer succeeds.\<close>

definition writeError :: "nat \<Rightarrow> string \<Rightarrow> server \<Rightarrow> server \<times> string option" where
  "writeError c err s = (put_writer c (fst (WriteError err (Writer (client_of s c)))) s, Some err)"

section \<open>Replicas\<close>

definition getack_cmd :: string where
  "getack_cmd = CreateCommand [''REPLCONF'', ''GETACK'', ''*'']"

definition getack_replica :: "cmd_env \<Rightarrow> nat \<Rightarrow> server \<Rightarrow> server" where
  "getack_replica env r s =
     (case client_Send env r (put_writer r (emit getack_cmd (Writer (client_of s r))) s) of
        (s, None) \<Rightarrow> s
      | (s, Some _) \<Rightarrow> removeReplica r s)"

definition sendReplConfGetAckToAllReplicas :: "cmd_env \<Rightarrow> server \<Rightarrow> server" where
  "sendReplConfGetAckToAllReplicas env s =
     (let s = s\<lparr>srv_offset := srv_offset s + of_nat (length getack_cmd)\<rparr> in
      fold (getack_replica env) (replicas s) s)"

definition sendPing :: "cmd_env \<Rightarrow> nat \<Rightarrow> server \<Rightarrow> server \<times> bool" where
  "sendPing env r s =
     (let s = s\<lparr>srv_offset := srv_offset s + of_nat (length CreatePingCommand)\<rparr> in
      case conn_write r CreatePingCommand s of
        (s, False) \<Rightarrow> (s, False)
      | (s, True) \<Rightarrow> (case client_Send env r s of (s, err) \<Rightarrow> (s, err = None)))"

text \<open>A tick of \<open>pingReplicas\<close>.\<close>

definition ping_replica :: "cmd_env \<Rightarrow> nat \<Rightarrow> server \<Rightarrow> server" where
  "ping_replica env r s = (case sendPing env r s of (s, ok) \<Rightarrow> if ok then s else removeReplica r s)"

definition pingReplicas :: "cmd_env \<Rightarrow> server \<Rightarrow> server" where
  "pingReplicas env s = fold (ping_replica env) (replicas s) s"

section \<open>A message\<close>

text \<open>What \<open>handleMessage\<close> leaves to its caller: it has returned an error or nil; it has started
  a goroutine for a blocking command; or its command waits in the loop itself.\<close>

datatype hres = Handled server "string option" | Spawned server command "resp list" | Waits server blocked | Died

text \<open>After \<open>Execute\<close>: the error reply, or propagation and the registration of a replica.
  \<open>Reset\<close> does nothing to a buffered writer.\<close>

definition after_execute :: "go_env \<Rightarrow> nat \<Rightarrow> resp \<Rightarrow> string \<Rightarrow> resp list \<Rightarrow> server \<Rightarrow> writer \<Rightarrow> string option \<Rightarrow> (server \<times> string option) go" where
  "after_execute env c r cmdName args s w err =
     (let s = put_writer c w s in
      case err of
        Some e \<Rightarrow> Ret (writeError c e (put_writer c (Reset (Writer (client_of s c))) s))
      | None \<Rightarrow>
          (case (if cmdName \<in> set WriteableCommands then PropagateCommand c r s else Ret s) of
             Panic \<Rightarrow> Panic
           | Ret s \<Rightarrow>
               Ret (if cmdName = ''replconf'' \<and> args \<noteq> [] \<and> String (hd args) = ''listening-port''
                    then addReplica c s else s, None)))"

definition run_message :: "cmd_env \<Rightarrow> nat \<Rightarrow> resp \<Rightarrow> string \<Rightarrow> command \<Rightarrow> resp list \<Rightarrow> server \<Rightarrow> hres" where
  "run_message env c r cmdName cmd args s =
     (case Execute env True c cmd args s (Writer (client_of s c)) of
        Crash \<Rightarrow> Died
      | Blocks s w b \<Rightarrow> Waits (put_writer c w s) b
      | Done s w err \<Rightarrow> (case after_execute (base env) c r cmdName args s w err of
          Panic \<Rightarrow> Died
        | Ret (s, err) \<Rightarrow> Handled s err))"

definition handleMessage :: "cmd_env \<Rightarrow> nat \<Rightarrow> resp \<Rightarrow> server \<Rightarrow> hres" where
  "handleMessage env c r s = (case resp_array r of
       Ret (n # args) \<Rightarrow>
         (let cmdName = ToLower (base env) (String n) in
          case GetCommand cmdName of
            Inl err \<Rightarrow> (case writeError c err s of (s, err) \<Rightarrow> Handled s err)
          | Inr cmd \<Rightarrow>
              if IsInTransaction (client_of s c) \<and> cmdName \<notin> set TransactionCommands then
                (let s = update_client c (EnqueueCommand r) s in
                 Handled (put_writer c (WriteSimpleValue (CHR ''+'') ''QUEUED'' (Writer (client_of s c))) s) None)
              else
                (let s = (if cmd = Wait then sendReplConfGetAckToAllReplicas env s else s) in
                 if IsBlocking (base env) cmd args then Spawned s cmd args
                 else run_message env c r cmdName cmd args s))
     | _ \<Rightarrow> Died)"

text \<open>The end of a round of \<open>loop\<close>, and of \<open>handleBlockingCommand\<close>.\<close>

definition finish_message :: "cmd_env \<Rightarrow> nat \<Rightarrow> string option \<Rightarrow> server \<Rightarrow> server" where
  "finish_message env c err s =
     (if (case err of Some e \<Rightarrow> Contains e ''failed to write error:'' | None \<Rightarrow> False) then closeClient c s
      else (case client_Send env c s of (s, None) \<Rightarrow> s | (s, Some _) \<Rightarrow> closeClient c s))"

definition finish_blocking :: "cmd_env \<Rightarrow> nat \<Rightarrow> server \<Rightarrow> writer \<Rightarrow> string option \<Rightarrow> server" where
  "finish_blocking env c s w err =
     (let s = put_writer c w s in
      case err of
        None \<Rightarrow> finish_message env c None s
      | Some e \<Rightarrow> (case writeError c e (put_writer c (Reset (Writer (client_of s c))) s) of
          (s, err) \<Rightarrow> finish_message env c err s))"

section \<open>The process\<close>

text \<open>The server with its goroutines: blocking commands started and waiting, and the command the
  loop itself waits in. \<open>down\<close> is a process that has panicked.\<close>

record node =
  srv :: server
  spawned :: "(nat \<times> command \<times> resp list) list"
  waiting :: "(nat \<times> blocked) list"
  loop_wait :: "(nat \<times> resp \<times> blocked) option"
  down :: bool

definition new_node :: "server \<Rightarrow> node" where
  "new_node s = \<lparr>srv = s, spawned = [], waiting = [], loop_wait = None, down = False\<rparr>"

definition remove_nth :: "nat \<Rightarrow> 'a list \<Rightarrow> 'a list" where
  "remove_nth i xs = take i xs @ drop (Suc i) xs"

text \<open>The end of a call in a goroutine of a blocking command.\<close>

definition blocking_result :: "cmd_env \<Rightarrow> nat \<Rightarrow> cres \<Rightarrow> node \<Rightarrow> node" where
  "blocking_result env c res n = (case res of
       Crash \<Rightarrow> n\<lparr>down := True\<rparr>
     | Blocks s w b \<Rightarrow> n\<lparr>srv := put_writer c w s, waiting := waiting n @ [(c, b)]\<rparr>
     | Done s w err \<Rightarrow> n\<lparr>srv := finish_blocking env c s w err\<rparr>)"

text \<open>A round of \<open>loop\<close> for a message, with \<open>msg.Client.Send()\<close> at its end.\<close>

definition loop_message :: "cmd_env \<Rightarrow> nat \<Rightarrow> resp \<Rightarrow> node \<Rightarrow> node" where
  "loop_message env c r n = (case handleMessage env c r (srv n) of
       Died \<Rightarrow> n\<lparr>down := True\<rparr>
     | Waits s b \<Rightarrow> n\<lparr>srv := s, loop_wait := Some (c, r, b)\<rparr>
     | Spawned s cmd args \<Rightarrow> n\<lparr>srv := finish_message env c None s, spawned := spawned n @ [(c, cmd, args)]\<rparr>
     | Handled s err \<Rightarrow> n\<lparr>srv := finish_message env c err s\<rparr>)"

text \<open>The round of \<open>loop\<close> whose command waits, going on.\<close>

definition loop_resume :: "cmd_env \<Rightarrow> select_case \<Rightarrow> nat \<Rightarrow> resp \<Rightarrow> blocked \<Rightarrow> node \<Rightarrow> node" where
  "loop_resume env chosen c r b n =
     (case resume env c chosen b (srv n) (Writer (client_of (srv n) c)) of
        Crash \<Rightarrow> n\<lparr>down := True\<rparr>
      | Blocks s w b \<Rightarrow> n\<lparr>srv := put_writer c w s, loop_wait := Some (c, r, b)\<rparr>
      | Done s w err \<Rightarrow>
          (case resp_array r of
             Ret (x # args) \<Rightarrow>
               (case after_execute (base env) c r (ToLower (base env) (String x)) args s w err of
                  Panic \<Rightarrow> n\<lparr>down := True\<rparr>
                | Ret (s, err) \<Rightarrow> n\<lparr>srv := finish_message env c err s, loop_wait := None\<rparr>)
           | _ \<Rightarrow> n\<lparr>down := True\<rparr>))"

datatype event =
    Accept nat string string
  | Message nat resp
  | Run nat
  | Wake nat select_case
  | WakeLoop select_case
  | PingTick
  | GetAckTick

text \<open>An event that is not possible leaves the process as it is. The loop takes no message while
  it waits; the other goroutines go on.\<close>

definition step :: "cmd_env \<Rightarrow> event \<Rightarrow> node \<Rightarrow> node" where
  "step env e n = (if down n then n else (case e of
       Accept c rid addr \<Rightarrow>
         if c \<in> fst ` set (cl_heap (srv n)) then n
         else n\<lparr>srv := acceptConnection (base env) c rid addr (srv n)\<rparr>
     | Message c r \<Rightarrow>
         if loop_wait n = None \<and> c \<in> fst ` set (cl_heap (srv n)) then loop_message env c r n else n
     | Run i \<Rightarrow>
         if i < length (spawned n) then
           (case spawned n ! i of (c, cmd, args) \<Rightarrow>
              blocking_result env c (Execute env True c cmd args (srv n) (Writer (client_of (srv n) c)))
                (n\<lparr>spawned := remove_nth i (spawned n)\<rparr>))
         else n
     | Wake i chosen \<Rightarrow>
         if i < length (waiting n) then
           (case waiting n ! i of (c, b) \<Rightarrow>
              blocking_result env c (resume env c chosen b (srv n) (Writer (client_of (srv n) c)))
                (n\<lparr>waiting := remove_nth i (waiting n)\<rparr>))
         else n
     | WakeLoop chosen \<Rightarrow> (case loop_wait n of None \<Rightarrow> n | Some (c, r, b) \<Rightarrow> loop_resume env chosen c r b n)
     | PingTick \<Rightarrow> n\<lparr>srv := pingReplicas env (srv n)\<rparr>
     | GetAckTick \<Rightarrow> n\<lparr>srv := sendReplConfGetAckToAllReplicas env (srv n)\<rparr>))"

text \<open>A run: every event comes with the clock at its time.\<close>

definition run :: "(cmd_env \<times> event) list \<Rightarrow> node \<Rightarrow> node" where
  "run es n = fold (\<lambda>(env, e) n. step env e n) es n"

end
