(* ===== verification/Replica.thy ===== *)
theory Replica
  imports Server
begin

text \<open>
  The side of \<open>internal/app/server/server.go\<close> that runs on a replica: the handshake of
  \<open>startReplication\<close> with \<open>commandSender\<close> and \<open>dispatchResponse\<close>, and \<open>handleMasterConnection\<close>,
  which applies what the master sends.

  The goroutine of the handshake hands a request to \<open>commandSender\<close> without other work in between,
  so sending it is one step; \<open>commandSender\<close> puts its channel into the queue in a later step
  (\<open>queue_request\<close>), and an answer is handed over and checked in one step. When the handshake
  fails, \<open>Start\<close> returns the error and the process ends.
\<close>

section \<open>The handshake\<close>

text \<open>\<open>commandSender\<close>: the command goes out; when the write fails the channel is closed, which the caller
  reads as nil. Only then, and without a lock that \<open>handleMasterConnection\<close> would hold, its channel goes
  to the end of the queue: that is a step of its own, and the answer may be read before it.\<close>

definition commandSender :: "cmd_env \<Rightarrow> nat \<Rightarrow> string \<Rightarrow> server \<Rightarrow> server \<times> bool" where
  "commandSender env m cmd s =
     (let s = s\<lparr>requests := requests s + 1\<rparr> in
      case client_Send env m (put_writer m (emit cmd (Writer (client_of s m))) s) of
        (s, Some _) \<Rightarrow> (s, False)
      | (s, None) \<Rightarrow> (s\<lparr>sentRequest := Some (requests s)\<rparr>, True))"

definition queue_request :: "server \<Rightarrow> server" where
  "queue_request s = (case sentRequest s of
       None \<Rightarrow> s
     | Some req \<Rightarrow> s\<lparr>responseWaitQueue := responseWaitQueue s @ [req], sentRequest := None\<rparr>)"

definition step_name :: "handshake_step \<Rightarrow> string" where
  "step_name st = (case st of AwaitPing \<Rightarrow> ''PING'' | AwaitPort \<Rightarrow> ''REPLCONF listening-port''
     | AwaitCapa \<Rightarrow> ''REPLCONF capa psync2'' | AwaitPsync \<Rightarrow> ''PSYNC'' | _ \<Rightarrow> [])"

text \<open>What \<open>startReplication\<close> wraps around the error of a step.\<close>

definition step_error :: "handshake_step \<Rightarrow> string \<Rightarrow> string" where
  "step_error st err = (case st of AwaitPing \<Rightarrow> ''failed to send PING to master: ''
     | AwaitPsync \<Rightarrow> ''failed to send PSYNC to master: '' | _ \<Rightarrow> ''failed to send REPLCONF to master: '') @ err"

definition fail_handshake :: "handshake_step \<Rightarrow> string \<Rightarrow> server \<Rightarrow> server" where
  "fail_handshake st err s = s\<lparr>handshake := Failed (step_error st err), masterClient := None\<rparr>"

definition step_command :: "go_env \<Rightarrow> handshake_step \<Rightarrow> server \<Rightarrow> string" where
  "step_command env st s = (case st of
       AwaitPing \<Rightarrow> CreatePingCommand
     | AwaitPort \<Rightarrow>
         (let port = (case config_Get env (cfg s) ListenAddrKey of Inl _ \<Rightarrow> [] | Inr v \<Rightarrow> v) in
          CreateReplconfCommand [''listening-port'', TrimPrefix port '':''])
     | AwaitCapa \<Rightarrow> CreateReplconfCommand [''capa'', ''psync2'']
     | _ \<Rightarrow> CreatePsyncCommand ''?'' ''-1'')"

text \<open>The beginning of a step: its request is sent.\<close>

definition begin_step :: "cmd_env \<Rightarrow> nat \<Rightarrow> handshake_step \<Rightarrow> server \<Rightarrow> server" where
  "begin_step env m st s =
     (case commandSender env m (step_command (base env) st s) s of
        (s, True) \<Rightarrow> s\<lparr>handshake := st\<rparr>
      | (s, False) \<Rightarrow> fail_handshake st (''failed to send '' @ step_name st @ '' command'') s)"

definition startReplication :: "cmd_env \<Rightarrow> nat \<Rightarrow> server \<Rightarrow> server" where
  "startReplication env m s = begin_step env m AwaitPing s"

text \<open>\<open>net.Dial\<close> has connected: the client object of the master, and the handshake begins.\<close>

definition connect_master :: "cmd_env \<Rightarrow> nat \<Rightarrow> server \<Rightarrow> server" where
  "connect_master env m s =
     startReplication env m ((set_client m (NewClient (base env) (masterAddr s)) s)\<lparr>masterClient := Some m\<rparr>)"

definition next_step :: "handshake_step \<Rightarrow> handshake_step" where
  "next_step st = (case st of AwaitPing \<Rightarrow> AwaitPort | AwaitPort \<Rightarrow> AwaitCapa | AwaitCapa \<Rightarrow> AwaitPsync | _ \<Rightarrow> Synced)"

definition answer_ok :: "handshake_step \<Rightarrow> resp \<Rightarrow> bool" where
  "answer_ok st r \<longleftrightarrow> Type r = CHR ''+'' \<and>
     (if st = AwaitPsync then HasPrefix (String r) ''FULLRESYNC'' else String r = ''OK'' \<or> String r = ''PONG'')"

definition handshake_answer :: "cmd_env \<Rightarrow> nat \<Rightarrow> resp \<Rightarrow> server \<Rightarrow> server" where
  "handshake_answer env m r s =
     (let st = handshake s in
      if \<not> answer_ok st r then fail_handshake st (''unexpected response for '' @ step_name st @ '': '' @ String r) s
      else if st = AwaitPsync then s\<lparr>handshake := Synced\<rparr>
      else begin_step env m (next_step st) s)"

definition awaiting :: "server \<Rightarrow> bool" where
  "awaiting s \<longleftrightarrow> handshake s \<in> {AwaitPing, AwaitPort, AwaitCapa, AwaitPsync}"

text \<open>Five seconds without an answer.\<close>

definition handshake_timeout :: "server \<Rightarrow> server" where
  "handshake_timeout s =
     (if awaiting s then fail_handshake (handshake s) (''timeout waiting for '' @ step_name (handshake s) @ '' response'') s
      else s)"

definition dispatchResponse :: "cmd_env \<Rightarrow> nat \<Rightarrow> resp \<Rightarrow> server \<Rightarrow> server" where
  "dispatchResponse env m r s = (case responseWaitQueue s of
       [] \<Rightarrow> s
     | req # q \<Rightarrow>
         (let s = s\<lparr>responseWaitQueue := q\<rparr> in
          if awaiting s \<and> req = requests s then handshake_answer env m r s else s))"

section \<open>The snapshot\<close>

text \<open>Reading a line: the line with its line feed and the rest, if there is one.\<close>

fun ReadBytes :: "string \<Rightarrow> (string \<times> string) option" where
  "ReadBytes [] = None"
| "ReadBytes (c # s) = (if c = LF then Some ([c], s) else map_option (\<lambda>(l, r). (c # l, r)) (ReadBytes s))"

text \<open>\<open>receiveRDB\<close>: the store and the input after it. An error leaves the store and is only logged.
  A header of one byte and a negative or too large length panic.\<close>

definition receiveRDB :: "cmd_env \<Rightarrow> string \<Rightarrow> kvstore \<Rightarrow> (kvstore \<times> string) go" where
  "receiveRDB env input st = (case ReadBytes input of
       None \<Rightarrow> Ret (st, [])
     | Some (header, rest) \<Rightarrow>
         if \<not> HasPrefix header ''$'' then Ret (st, rest)
         else if length header < 3 then Panic
         else (case Atoi (take (length header - 3) (drop 1 header)) of
             Inl _ \<Rightarrow> Ret (st, rest)
           | Inr len \<Rightarrow>
               if len < 0 \<or> maxAlloc < len then Panic
               else if int (length rest) < len then Ret (st, [])
               else
                 (let rdbData = take (nat len) rest; rest = drop (nat len) rest in
                  case ParseRDB (base env) (lzf_decompress env) rdbData of
                    Inl _ \<Rightarrow> Ret (st, rest)
                  | Inr p \<Rightarrow> Ret (if GetData p = [] then st else RestoreRDB st (GetData p), rest))))"

lemma ReadBytes_length: "ReadBytes s = Some (l, r) \<Longrightarrow> length r < length s"
  by (induction s arbitrary: l) (fastforce split: if_splits)+

lemma receiveRDB_length: "receiveRDB env input st = Ret (st', rest) \<Longrightarrow> length rest \<le> length input"
  by (auto simp: receiveRDB_def Let_def split: option.splits if_splits sum.splits prod.splits dest!: ReadBytes_length)

section \<open>What the master sends\<close>

definition respondToGetAck :: "cmd_env \<Rightarrow> nat \<Rightarrow> server \<Rightarrow> server" where
  "respondToGetAck env m s =
     (let ackMessage = CreateCommand [''REPLCONF'', ''ACK'', FormatUint (srv_offset s)] in
      fst (client_Send env m (put_writer m (emit ackMessage (Writer (client_of s m))) s)))"

text \<open>The outcome of a message: the server and the input not read yet; a command that waits, in
  the goroutine that reads the connection; or a panic.\<close>

datatype mres = MDone server string | MWaits server blocked | MDied

definition is_getack :: "go_env \<Rightarrow> string \<Rightarrow> resp list \<Rightarrow> bool" where
  "is_getack env cmdName args \<longleftrightarrow> cmdName = ''replconf'' \<and> 2 \<le> length args \<and>
     ToLower env (String (args ! 0)) = ''getack'' \<and> String (args ! 1) = ''*''"

definition handleMasterResponse :: "cmd_env \<Rightarrow> nat \<Rightarrow> resp \<Rightarrow> string \<Rightarrow> server \<Rightarrow> mres" where
  "handleMasterResponse env m r input s =
     (if Type r = CHR ''+'' then
        (if Contains (String r) ''FULLRESYNC'' then
           (case receiveRDB env input (store s) of
              Panic \<Rightarrow> MDied
            | Ret (st, rest) \<Rightarrow> MDone (s\<lparr>store := st\<rparr>) rest)
         else MDone s input)
      else if Type r = CHR ''*'' then
        (case resp_array r of
           Ret (n # args) \<Rightarrow>
             (let cmdName = ToLower (base env) (String n) in
              if is_getack (base env) cmdName args then MDone (respondToGetAck env m s) input
              else (case GetCommand cmdName of
                  Inl _ \<Rightarrow> MDone s input
                | Inr cmd \<Rightarrow>
                    (case Execute env False m cmd args s (NewWriter RESP3) of
                       Crash \<Rightarrow> MDied
                     | Blocks s w b \<Rightarrow> MWaits s b
                     | Done s w err \<Rightarrow> MDone s input)))
         | _ \<Rightarrow> MDied)
      else MDone s input)"

lemma handleMasterResponse_length: "handleMasterResponse env m r input s = MDone s' rest \<Longrightarrow> length rest \<le> length input"
  by (auto simp: handleMasterResponse_def Let_def split: if_splits go.splits prod.splits list.splits sum.splits cres.splits
      dest!: receiveRDB_length)

text \<open>The errors after which the buffer is kept. The first test looks for a text in the message,
  which quotes the input of some errors.\<close>

definition master_keeps :: "go_env \<Rightarrow> resp_error \<Rightarrow> bool" where
  "master_keeps env e \<longleftrightarrow> keeps_buffer e \<or> (case e of
       UnexpectedEOF \<Rightarrow> True
     | InvalidInput b \<Rightarrow> Contains (Quote env b) ''unexpected EOF''
     | AtoiError ne \<Rightarrow> Contains (num_error_msg env ne) ''unexpected EOF''
     | _ \<Rightarrow> False)"

text \<open>A round of \<open>handleMasterConnection\<close> for the line that has been read: the buffer, the server
  and the input after it.\<close>

datatype mround = MRound string server string | MRoundWaits server blocked | MRoundDied

definition master_part :: "cmd_env \<Rightarrow> nat \<Rightarrow> string \<Rightarrow> string \<Rightarrow> string \<Rightarrow> server \<Rightarrow> mround" where
  "master_part env m buffer part input s =
     (let buffer = buffer @ part in
      case ParseResp buffer of
        PErr e \<Rightarrow> MRound (if master_keeps (base env) e then buffer else []) s input
      | POk r _ \<Rightarrow>
          (case handleMasterResponse env m r input (dispatchResponse env m r s) of
             MDied \<Rightarrow> MRoundDied
           | MWaits s b \<Rightarrow> MRoundWaits s b
           | MDone s rest \<Rightarrow>
               MRound []
                 (if Type r = CHR ''*'' then s\<lparr>srv_offset := srv_offset s + of_nat (length buffer)\<rparr> else s) rest)
      | _ \<Rightarrow> MRoundDied)"

lemma master_part_length: "master_part env m buffer part input s = MRound b s' rest \<Longrightarrow> length rest \<le> length input"
  by (auto simp: master_part_def Let_def split: pres.splits mres.splits dest!: handleMasterResponse_length)

text \<open>The loop over what the connection has brought so far: the server and the buffer, ready for
  more input; or the goroutine waits in a command, or has panicked.\<close>

datatype mstate = MReady string server | MStuck server blocked | MPanic

function handleMasterConnection :: "cmd_env \<Rightarrow> nat \<Rightarrow> string \<Rightarrow> string \<Rightarrow> server \<Rightarrow> mstate" where
  "handleMasterConnection env m buffer input s =
     (case ReadBytes input of
        None \<Rightarrow> MReady buffer s
      | Some (part, rest) \<Rightarrow>
          (case master_part env m buffer part rest s of
             MRoundDied \<Rightarrow> MPanic
           | MRoundWaits s b \<Rightarrow> MStuck s b
           | MRound buffer s rest \<Rightarrow> handleMasterConnection env m buffer rest s))"
  by pat_completeness auto
termination
proof (relation "measure (\<lambda>(env, m, buffer, input, s). length input)", goal_cases)
  case (2 env m buffer input s x part rest b s' rest')
  then show ?case using ReadBytes_length [of input part rest] master_part_length [of env m buffer part rest s b s' rest'] by simp
qed simp

declare handleMasterConnection.simps [simp del]

end
