(* ===== verification/Store_Props.thy ===== *)
theory Store_Props
  imports Rdb
begin

text \<open>
  The properties of streams, of the key space and of the RDB files, over every state their
  operations reach.
\<close>

section \<open>Streams\<close>

text \<open>The channels of a stream exist and are different.\<close>

definition chans_ok :: "stream \<Rightarrow> hub \<Rightarrow> bool" where
  "chans_ok s h \<longleftrightarrow> distinct (subscribers s) \<and> (\<forall>c \<in> set (subscribers s). c < next_chan h \<and> queue_of h c \<noteq> None)"

lemma notify_queue: "queue_of (notify entry ch h) c =
  (if c = ch then map_option (\<lambda>q. if length q < chan_capacity then q @ [entry] else q) (queue_of h c) else queue_of h c)"
  by (auto simp: notify_def split: option.splits)

lemma fold_notify_queue:
  "distinct cs \<Longrightarrow> queue_of (fold (notify entry) cs h) c =
    (if c \<in> set cs then map_option (\<lambda>q. if length q < chan_capacity then q @ [entry] else q) (queue_of h c) else queue_of h c)"
  by (induction cs arbitrary: h) (auto simp: notify_queue)

lemma notify_next [simp]: "next_chan (notify entry ch h) = next_chan h"
  by (simp add: notify_def split: option.splits)

lemma fold_notify_next [simp]: "next_chan (fold (notify entry) cs h) = next_chan h"
  by (induction cs arbitrary: h) simp_all

lemma entry_id_explicit:
  "eid \<noteq> ''*'' \<Longrightarrow> \<not> HasSuffix eid ''-*'' \<Longrightarrow> ValidateID eid = (True, sid) \<Longrightarrow> IsLargestID t sid \<Longrightarrow> entry_id env t eid = (Inr sid, t)"
  by (simp add: entry_id_def)

lemma entry_id_frame: "root (snd (entry_id env t eid)) = root t \<and> tree_size (snd (entry_id env t eid)) = tree_size t \<and>
  LastID (snd (entry_id env t eid)) = LastID t"
  by (simp add: entry_id_def Let_def split_beta)

lemma entry_id_wf: "wf_tree (snd (entry_id env t eid)) = wf_tree t"
  using entry_id_frame [of env t eid] by (intro wf_tree_cong) simp_all

text \<open>C32: \<open>XADD\<close> with an explicit ID. On a stream whose entries are in ID order, a valid ID above
  the last one is accepted: the entry is appended at the end, the order is kept, and every
  subscribed reader whose channel is not full gets exactly this entry at the end of its queue,
  while other channels do not change.\<close>

theorem stream_add_explicit:
  assumes "in_order (tree s)" and "chans_ok s h"
    and "eid \<noteq> ''*''" and "\<not> HasSuffix eid ''-*''" and "ValidateID eid = (True, sid)" and "IsLargestID (tree s) sid"
  shows "\<exists>s' h'. stream_AddEntry env s \<lparr>ID = eid, Fields = flds\<rparr> h = (Inr sid, s', h') \<and>
    tree_entries (tree s') = tree_entries (tree s) @ [\<lparr>ID = sid, Fields = flds\<rparr>] \<and>
    in_order (tree s') \<and> chans_ok s' h' \<and> LastID (tree s') = sid \<and>
    (\<forall>c. queue_of h' c = (if c \<in> set (subscribers s)
       then map_option (\<lambda>q. if length q < chan_capacity then q @ [\<lparr>ID = sid, Fields = flds\<rparr>] else q) (queue_of h c)
       else queue_of h c))"
proof -
  have le: "LastID (tree s) \<le> sid" using assms(6) by (auto simp: IsLargestID_def split: if_splits)
  have "chans_ok (s\<lparr>tree := AddEntry (tree s) sid flds\<rparr>) (fold (notify \<lparr>ID = sid, Fields = flds\<rparr>) (subscribers s) h)"
    using assms(2) by (auto simp: chans_ok_def fold_notify_queue)
  moreover have "distinct (subscribers s)" using assms(2) by (simp add: chans_ok_def)
  ultimately show ?thesis
    using rt.add_invar [OF assms(1) le] rt.add_log [OF assms(1) le] rt.add_last [OF le]
    by (simp add: stream_AddEntry_def entry_id_explicit [OF assms(3-6)] notifySubscribers_def fold_notify_queue)
qed

theorem stream_add_explicit_witness:
  "\<exists>s' h'. stream_AddEntry (plain_env 0) NewStream \<lparr>ID = ''5'', Fields = []\<rparr> empty_hub
      = (Inr ''5-0'', s', h') \<and>
    tree_entries (tree s') = tree_entries (tree NewStream) @ [\<lparr>ID = ''5-0'', Fields = []\<rparr>]"
proof -
  have "ValidateID ''5'' = (True, ''5-0'')" by code_simp
  moreover have "in_order (tree NewStream)" "chans_ok NewStream empty_hub"
    by (simp_all add: NewStream_def in_order_new chans_ok_def)
  moreover have "IsLargestID (tree NewStream) ''5-0''"
    by (simp add: NewStream_def IsLargestID_def NewRadixTree_def)
  ultimately show ?thesis
    using stream_add_explicit [of NewStream empty_hub "''5''" "''5-0''" "plain_env 0" "[]"]
    by (auto simp: HasSuffix_def)
qed

text \<open>An explicit ID that is malformed or not above the last one is refused and leaves the
  stream and all readers as they were.\<close>

lemma stream_add_refused:
  assumes "eid \<noteq> ''*''" and "\<not> HasSuffix eid ''-*''" and "ValidateID eid = (valid, sid)"
    and "\<not> valid \<or> \<not> IsLargestID (tree s) sid"
  shows "\<exists>err. stream_AddEntry env s \<lparr>ID = eid, Fields = flds\<rparr> h = (Inl err, s, h) \<and>
    err = (if sid = ''0-0'' then err_xadd_zero else err_xadd_smaller)"
  using assms by (auto simp: stream_AddEntry_def entry_id_def)

section \<open>The key space\<close>

text \<open>Every sequence of calls of the methods of the store, with the streams changed through the
  pointers it hands out; the fields of an entry are pairs.\<close>

inductive kv_reachable :: "kvstore \<Rightarrow> bool" where
  new: "kv_reachable NewStore"
| get: "kv_reachable st \<Longrightarrow> kv_reachable (snd (kv_Get env st k))"
| set: "kv_reachable st \<Longrightarrow> kv_reachable (kv_Set st k b)"
| expire: "kv_reachable st \<Longrightarrow> kv_reachable (kv_Expire env st k d)"
| expire_at: "kv_reachable st \<Longrightarrow> kv_reachable (kv_ExpireAt st k t)"
| delete_ttl: "kv_reachable st \<Longrightarrow> kv_reachable (kv_DeleteTTL st k)"
| get_stream: "kv_reachable st \<Longrightarrow> kv_reachable (snd (kv_GetStream st k create))"
| add_entry: "kv_reachable st \<Longrightarrow> kv_GetStream st k create = (Ret (Inr (Some s)), st') \<Longrightarrow>
    paired (Fields e) \<Longrightarrow> stream_AddEntry env s e h = (r, s', h') \<Longrightarrow> kv_reachable (put_stream st' k s')"
| trim_size: "kv_reachable st \<Longrightarrow> kv_GetStream st k create = (Ret (Inr (Some s)), st') \<Longrightarrow>
    kv_reachable (put_stream st' k (snd (stream_TrimBySize s maxSize)))"
| trim_min: "kv_reachable st \<Longrightarrow> kv_GetStream st k create = (Ret (Inr (Some s)), st') \<Longrightarrow>
    kv_reachable (put_stream st' k (snd (stream_TrimByMinID s minID)))"
| restore: "ParseRDB env lzf content = Inr p \<Longrightarrow> kv_reachable (RestoreRDB st (GetData p))"

lemma set_AddEntry: "wf_tree t \<Longrightarrow> set (tree_entries (AddEntry t sid flds)) = insert \<lparr>ID = sid, Fields = flds\<rparr> (set (tree_entries t))"
  using arg_cong [OF mset_AddEntry [of t sid flds], of set_mset] by (simp add: entry_of_def)

lemma stream_add_wf: "stream_ok s \<Longrightarrow> paired (Fields e) \<Longrightarrow> stream_AddEntry env s e h = (r, s', h') \<Longrightarrow> stream_ok s'"
proof -
  assume s: "stream_ok s" and e: "paired (Fields e)" and a: "stream_AddEntry env s e h = (r, s', h')"
  let ?t = "snd (entry_id env (tree s) (ID e))"
  have t: "wf_tree ?t" "tree_entries ?t = tree_entries (tree s)"
    using s entry_id_wf [of env "tree s" "ID e"] entry_id_frame [of env "tree s" "ID e"]
    by (simp_all add: stream_ok_def tree_entries_def tree_items_def)
  then show ?thesis using s e a
    by (auto simp: stream_AddEntry_def stream_ok_def Let_def wf_AddEntry set_AddEntry split: prod.splits sum.splits)
qed

lemma trimmed_ok: "tree_trimmed (tree s) removed t' \<Longrightarrow> stream_ok s \<Longrightarrow> stream_ok (s\<lparr>tree := t'\<rparr>)"
  using tree_trimmed_entries [of "tree s" removed t'] by (auto simp: stream_ok_def tree_trimmed_def)

lemma stream_trim_wf:
  "stream_ok s \<Longrightarrow> stream_ok (snd (stream_TrimBySize s maxSize))"
  "stream_ok s \<Longrightarrow> stream_ok (snd (stream_TrimByMinID s minID))"
  using TrimBySize_trimmed [of "tree s" maxSize] TrimByMinID_trimmed [of "tree s" minID] trimmed_ok [of s]
  by (auto simp: stream_TrimBySize_def stream_TrimByMinID_def stream_ok_def split: prod.splits)

lemma GetStream_wf:
  "wf_store st \<Longrightarrow> kv_GetStream st k create = (Ret (Inr (Some s)), st') \<Longrightarrow> stream_ok s \<and> wf_store st'"
  using wf_kv_GetStream [of st k create]
  by (auto simp: kv_GetStream_def NewStream_def stream_ok_def wf_tree_new rt.new_log wf_value_def
      split: option.splits if_splits value_data.splits dest!: wf_store_lookup)

lemma rbind_ROk: "rbind r f = ROk x s \<longleftrightarrow> (\<exists>y t. r = ROk y t \<and> f y t = ROk x s)"
  by (cases r) auto

lemma rdb_store_ok: "wf_store (rdb_data p) \<Longrightarrow> rdb_object env lzf content c p s = ROk (Some q) rest \<Longrightarrow> wf_store (rdb_data q)"
proof -
  have obj: "wf_store (rdb_data q)" if "wf_store (rdb_data p)" "handleObject env lzf t e p s = ROk q rest" for t e p q s rest
    using that by (auto simp: handleObject_def wf_value_def rbind_ROk split: if_splits intro!: wf_store_put)
  show "wf_store (rdb_data p) \<Longrightarrow> rdb_object env lzf content c p s = ROk (Some q) rest \<Longrightarrow> ?thesis"
    by (auto simp: rdb_object_def handleSelectDB_def handleResizeDB_def handleExpiryTime_def rbind_ROk
        split: if_splits option.splits intro: obj)
qed

lemma rdb_loop_store: "wf_store (rdb_data p) \<Longrightarrow> rdb_loop env lzf content p s = Inr q \<Longrightarrow> wf_store (rdb_data q)"
proof (induction env lzf content p s rule: rdb_loop.induct)
  case (2 env lzf content p c s)
  then show ?case
    by (auto simp: rdb_loop.simps(2) split: rres.splits option.splits dest: rdb_store_ok)
qed simp

lemma ParseRDB_store: "ParseRDB env lzf content = Inr p \<Longrightarrow> wf_store (GetData p)"
  by (auto simp: ParseRDB_def GetData_def NewRDBParser_def wf_store_def [of "[]"] split: rres.splits
      dest!: rdb_loop_store [rotated])

lemma kv_reachable_wf: "kv_reachable st \<Longrightarrow> wf_store st"
proof (induction rule: kv_reachable.induct)
  case (add_entry st k create s st' env e h r s' h')
  then show ?case using GetStream_wf wf_put_stream stream_add_wf by meson
next
  case (trim_size st k create s st' maxSize)
  then show ?case using GetStream_wf wf_put_stream stream_trim_wf by meson
next
  case (trim_min st k create s st' minID)
  then show ?case using GetStream_wf wf_put_stream stream_trim_wf by meson
next
  case (restore env lzf content p st)
  then show ?case by (simp add: RestoreRDB_def ParseRDB_store)
qed (simp_all add: wf_intros kv_Expire_def kv_ExpireAt_def kv_DeleteTTL_def)

text \<open>C33: in every state the store reaches, keys are distinct, the dynamic type of each value is
  that of its tag (so the type assertions of \<open>Get\<close> and \<open>GetStream\<close> never panic), and every
  stream satisfies its invariant: a well formed index, and fields that are pairs.\<close>

theorem kv_invariant:
  assumes "kv_reachable st"
  shows "distinct (kv_Keys st) \<and> (\<forall>kv \<in> set st. wf_value (snd kv)) \<and>
    fst (kv_Get env st k) \<noteq> Panic \<and> fst (kv_GetStream st k create) \<noteq> Panic"
  using kv_reachable_wf [OF assms] kv_Get_no_panic kv_GetStream_no_panic
  by (auto simp: wf_store_def kv_Keys_def)

theorem kv_invariant_witness:
  "distinct (kv_Keys (kv_Set (kv_Set NewStore ''a'' ''1'') ''a'' ''2''))"
  using kv_invariant [OF kv_reachable.set [OF kv_reachable.set [OF kv_reachable.new, of "''a''" "''1''"], of "''a''" "''2''"]]
  by blast

text \<open>Reading after writing. In every reachable store \<open>Get\<close> after \<open>Set\<close> returns the value just
  set for that key and leaves every other key at the value it had.\<close>

lemma kv_get_after_set:
  assumes "kv_reachable st"
  shows "fst (kv_Get env (kv_Set st k b) k) = Ret (Some b) \<and>
    (k' \<noteq> k \<longrightarrow> fst (kv_Get env (kv_Set st k b) k') = fst (kv_Get env st k'))"
  using ks.get_after_put [OF kv_reachable_wf [OF assms], of env k b] kv_Get_live [OF kv_reachable_wf [OF assms]] by simp

text \<open>C13: a time to live. After \<open>Set\<close> and \<open>Expire\<close> (or \<open>PExpire\<close>) with a positive duration, \<open>Get\<close> returns
  the value as long as the clock has not passed the millisecond of the expiry, and nothing
  afterwards.\<close>

theorem kv_expiry:
  assumes "kv_reachable st" and "0 < (now_ns env + d) div 1000000" and "(now_ns env + d) div 1000000 < 2 ^ 63"
    and "0 \<le> now_ms env'" and "now_ms env' < 2 ^ 63"
  shows "fst (kv_Get env' (kv_Expire env (kv_Set st k b) k d) k)
    = Ret (if now_ms env' \<le> (now_ns env + d) div 1000000 then Some b else None)"
proof -
  define e where "e = (now_ns env + d) div 1000000"
  have u: "uint (word_of_int e :: 64 word) = e" "uint (now_u64 env') = now_ms env'"
    using assms(2-5) by (simp_all add: e_def now_u64_def unsigned_of_int take_bit_int_eq_self)
  then have ne: "(word_of_int e :: 64 word) \<noteq> 0" using assms(2) by (auto simp: e_def)
  have less: "(word_of_int e < now_u64 env') = (e < now_ms env')" by (simp add: word_less_def u)
  note wf = kv_reachable_wf [OF assms(1)]
  show ?thesis
  proof (cases "e < now_ms env'")
    case True
    with ks.put_then_expired [OF wf ne, of env' k b] less show ?thesis by (simp add: kv_Expire_def e_def)
  next
    case False
    with ks.put_not_expired [OF wf, of "word_of_int e" env' k b] less show ?thesis
      by (simp add: kv_Expire_def e_def not_less)
  qed
qed

theorem kv_expiry_witness:
  "fst (kv_Get (plain_env 5000000000) (kv_Expire (plain_env 1000000000) (kv_Set NewStore ''a'' ''1'') ''a'' 3000000000) ''a'') = Ret None"
  using kv_expiry [OF kv_reachable.new, of "plain_env 1000000000" 3000000000 "plain_env 5000000000" "''a''" "''1''"]
  by (simp add: now_ms_def)

section \<open>RDB files\<close>

text \<open>C12: a store of strings survives saving and loading. The file written for any reachable
  store passes its own checksum and is read back, at any later time, to exactly the pairs of
  the store that have not expired by then, with their expiry times.\<close>

theorem rdb_round_trip:
  assumes "kv_reachable st" and "\<forall>kv \<in> set st. savable kv" and "int (length st) < 2 ^ 32"
  shows "\<exists>bytes p. SaveRDB env (kv_Export st) = Inr bytes \<and> ParseRDB env' lzf bytes = Inr p \<and>
    GetData p = filter (\<lambda>kv. \<not> gone env' kv) st"
proof -
  have wf: "wf_store st" using assms(1) by (rule kv_reachable_wf)
  then show ?thesis
    using save_parse [OF assms(2) _ assms(3)] by (simp add: kv_Export_id wf_store_def)
qed

theorem rdb_round_trip_witness:
  "\<exists>bytes p. SaveRDB (plain_env 0) (kv_Export (kv_Set NewStore ''a'' ''1'')) = Inr bytes \<and>
    ParseRDB (plain_env 0) (\<lambda>c n. Inl ''no lzf'') bytes = Inr p \<and> GetData p = [(''a'', string_value ''1'')]"
  using rdb_round_trip [OF kv_reachable.set [OF kv_reachable.new], of "''a''" "''1''" "plain_env 0" "plain_env 0" "\<lambda>c n. Inl ''no lzf''"]
  by (simp add: kv_Set_def NewStore_def savable_def gone_def string_value_def)

lemma writeObjects_stream:
  "\<forall>kv \<in> set st. wf_value (snd kv) \<Longrightarrow> \<exists>kv \<in> set st. VType (snd kv) = ValueTypeStream \<Longrightarrow>
   writeObjects st = Inl ''unsupported value type: stream''"
proof (induction st)
  case (Cons kv st)
  obtain k v where kv: "kv = (k, v)" by (cases kv)
  have wf: "wf_value v" using Cons.prems(1) kv by simp
  show ?case
  proof (cases "VType v = ValueTypeStream")
    case True
    then show ?thesis by (simp add: kv writeObject_def)
  next
    case False
    with wf obtain b where "writeObject k v = Inr b"
      by (auto simp: wf_value_def writeObject_def Let_def split: value_data.splits)
    with False Cons kv show ?thesis by auto
  qed
qed simp

text \<open>One stream in the store is enough to make every save fail, the one of \<open>PSYNC\<close> included: no
  replica can be fed and nothing can be persisted from then on.\<close>

lemma rdb_save_rejects_streams:
  assumes "kv_reachable st" and "\<exists>kv \<in> set st. VType (snd kv) = ValueTypeStream"
  shows "SaveRDB env (kv_Export st) = Inl ''unsupported value type: stream''"
  using kv_reachable_wf [OF assms(1)] writeObjects_stream [OF _ assms(2)]
  by (simp add: SaveRDB_def kv_Export_id wf_store_def)

text \<open>C34: the table-driven checksum is the CRC-64 with the reflected polynomial
  0x95ac9329ac4bc9b5 computed bit by bit, may be fed in pieces, and has the published check
  value for the nine digits.\<close>

theorem crc64_is_jones:
  "crc64 c (a @ b) = crc64_bitwise (crc64_bitwise c a) b \<and> Digest ''123456789'' = 0xe9c6d914c4b8d9ca"
proof
  show "crc64 c (a @ b) = crc64_bitwise (crc64_bitwise c a) b"
    by (simp add: crc64_bitwise [symmetric] crc64_append)
  show "Digest ''123456789'' = 0xe9c6d914c4b8d9ca" by code_simp
qed

end
