(* ===== verification/Server_Inv.thy ===== *)
theory Server_Inv
  imports Replica Store_Props
begin

text \<open>
  The invariant of a server and its proof for every command: the store is well formed, clients
  are objects of the heap, and the queue of a transaction holds only commands that may be
  queued. \<open>Transaction_Props\<close> lifts it to whole runs.
\<close>

section \<open>The invariant\<close>

text \<open>A message that may be queued, for the tables of \<open>strings.ToLower\<close>.\<close>

definition plain_command :: "go_env \<Rightarrow> resp \<Rightarrow> bool" where
  "plain_command env r = (case resp_array r of
       Ret (n # args) \<Rightarrow>
         ToLower env (String n) \<in> fst ` set commands \<and> ToLower env (String n) \<notin> set TransactionCommands
     | _ \<Rightarrow> False)"

definition client_ok :: "go_env \<Rightarrow> client \<Rightarrow> bool" where
  "client_ok env x \<longleftrightarrow> (\<forall>r \<in> set (txQueue x). plain_command env r) \<and> (txQueue x \<noteq> [] \<longrightarrow> inTransaction x)"

definition known :: "server \<Rightarrow> nat set" where
  "known s = fst ` set (cl_heap s)"

definition server_ok :: "go_env \<Rightarrow> server \<Rightarrow> bool" where
  "server_ok env s \<longleftrightarrow> wf_store (store s) \<and> (\<forall>cx \<in> set (cl_heap s). client_ok env (snd cx)) \<and>
     distinct (replicas s) \<and> distinct (connected s) \<and> set (replicas s) \<subseteq> known s \<and> set (connected s) \<subseteq> known s"

lemma server_ok_store: "server_ok env s \<Longrightarrow> wf_store (store s)"
  by (simp add: server_ok_def)

lemma client_ok_new [simp]: "client_ok env (NewClient e a)"
  by (simp add: client_ok_def NewClient_def)

lemma client_ok_of: "server_ok env s \<Longrightarrow> client_ok env (client_of s c)"
  by (auto simp: server_ok_def client_of_def split: option.splits dest!: map_of_SomeD)

lemma known_set_client [simp]: "known (set_client c x s) = insert c (known s)"
proof -
  have "set (map fst (map_put (cl_heap s) c x)) = insert c (set (map fst (cl_heap s)))"
    by (auto simp: map_put_keys simp del: set_map)
  then show ?thesis by (simp add: known_def set_client_def)
qed

lemma known_update [simp]: "known (update_client c f s) = insert c (known s)"
  by (simp add: update_client_def)

lemma ok_set_client: "server_ok env s \<Longrightarrow> client_ok env x \<Longrightarrow> server_ok env (set_client c x s)"
proof -
  assume s: "server_ok env s" and x: "client_ok env x"
  have "\<forall>cx \<in> set (cl_heap (set_client c x s)). client_ok env (snd cx)"
    using s x map_put_set [of "cl_heap s" c x] by (auto simp: server_ok_def set_client_def)
  then show ?thesis using s by (auto simp: server_ok_def)
qed

lemma ok_update: "server_ok env s \<Longrightarrow> (\<And>x. client_ok env x \<Longrightarrow> client_ok env (f x)) \<Longrightarrow> server_ok env (update_client c f s)"
  by (simp add: update_client_def ok_set_client client_ok_of)

text \<open>Updates of a client that leave its transaction alone.\<close>

lemma client_ok_frame [simp]:
  "client_ok env (SetName v x) = client_ok env x" "client_ok env (SetLibName v x) = client_ok env x"
  "client_ok env (SetLibVersion v x) = client_ok env x" "client_ok env (SetAuthenticated b x) = client_ok env x"
  "client_ok env (UpdateOffset off x) = client_ok env x" "client_ok env (SetLastWriteOffset off x) = client_ok env x"
  "client_ok env (x\<lparr>Writer := w\<rparr>) = client_ok env x" "client_ok env (x\<lparr>ListeningPort := p\<rparr>) = client_ok env x"
  "client_ok env (x\<lparr>conn_out := out\<rparr>) = client_ok env x" "client_ok env (x\<lparr>client_ID := p\<rparr>) = client_ok env x"
  "client_ok env (Close x) = client_ok env x"
  by (simp_all add: client_ok_def SetName_def SetLibName_def SetLibVersion_def SetAuthenticated_def UpdateOffset_def
      SetLastWriteOffset_def Close_def)

lemma client_ok_transaction [simp]:
  "client_ok env (StartTransaction x)" "client_ok env (ClearTransaction x)"
  by (simp_all add: client_ok_def StartTransaction_def ClearTransaction_def)

text \<open>Updates of the fields the invariant does not speak of.\<close>

lemma server_ok_fields [simp]:
  "server_ok env (s\<lparr>cfg := a\<rparr>) = server_ok env s" "server_ok env (s\<lparr>chans := h\<rparr>) = server_ok env s"
  "server_ok env (s\<lparr>srv_offset := off\<rparr>) = server_ok env s" "server_ok env (s\<lparr>dump_file := d\<rparr>) = server_ok env s"
  "server_ok env (s\<lparr>streamOrder := so\<rparr>) = server_ok env s"
  by (simp_all add: server_ok_def known_def)

lemma server_ok_put [intro]: "server_ok env s \<Longrightarrow> wf_store st \<Longrightarrow> server_ok env (s\<lparr>store := st\<rparr>)"
  by (simp add: server_ok_def known_def)

section \<open>Commands keep it\<close>

text \<open>The server a command leaves, whether it returned or waits.\<close>

definition leaves :: "(server \<Rightarrow> bool) \<Rightarrow> cres \<Rightarrow> bool" where
  "leaves P res = (case res of Done s w e \<Rightarrow> P s | Blocks s w b \<Rightarrow> P s | Crash \<Rightarrow> True)"

lemma leaves_simps [simp]:
  "leaves P (Done s w e) = P s" "leaves P (Blocks s w b) = P s" "leaves P Crash"
  "leaves P (write_err m s w) = P s" "leaves P (write_ok s w) = P s" "leaves P (done_w s r) = P s"
  by (simp_all add: leaves_def write_err_def write_ok_def done_w_def)

lemma ok_ping_echo: "server_ok e s \<Longrightarrow> leaves (server_ok e) (Echo_Execute args s w)"
  "server_ok e s \<Longrightarrow> leaves (server_ok e) (Ping_Execute args s w)"
  by (simp_all add: Echo_Execute_def Ping_Execute_def)

lemma kv_Get_wf: "wf_store st \<Longrightarrow> kv_Get env st k = (r, st') \<Longrightarrow> wf_store st'"
  using wf_kv_Get [of st env k] by simp

lemma ok_get: "server_ok e s \<Longrightarrow> leaves (server_ok e) (Get_Execute env args s w)"
  by (auto simp: Get_Execute_def split: prod.splits go.splits option.splits intro: kv_Get_wf [OF server_ok_store])

lemma wf_set_ttl: "wf_store st \<Longrightarrow> wf_store (set_ttl env opts k st)"
  by (simp add: set_ttl_def Let_def kv_DeleteTTL_def kv_Expire_def kv_PExpire_def kv_ExpireAt_def kv_PExpireAt_def wf_set_expiry)

lemma ok_set_run: "server_ok e s \<Longrightarrow> leaves (server_ok e) (Set_run env opts k v s w)"
proof -
  assume ok: "server_ok e s"
  define p where "p = (if opt_GET opts \<or> opt_NX opts \<or> opt_XX opts then kv_Get env (store s) k else (Ret None, store s))"
  obtain old st where p': "p = (old, st)" by (cases p)
  have wf: "wf_store st"
    using p' ok wf_kv_Get [of "store s" env k] by (auto simp: p_def server_ok_store split: if_splits)
  show ?thesis
    using ok wf unfolding Set_run_def p_def [symmetric] p'
    by (auto simp: Let_def wf_set_ttl wf_kv_Set split: go.splits)
qed

lemma ok_set: "server_ok e s \<Longrightarrow> leaves (server_ok e) (Set_Execute env args s w)"
  by (simp add: Set_Execute_def Let_def ok_set_run split: sum.splits)

lemma ok_incr: "server_ok e s \<Longrightarrow> leaves (server_ok e) (Incr_Execute env args s w)"
  by (auto simp: Incr_Execute_def Let_def split: prod.splits go.splits sum.splits option.splits
      intro: wf_kv_Set kv_Get_wf [OF server_ok_store])

lemma ok_type_keys: "server_ok e s \<Longrightarrow> leaves (server_ok e) (Type_Execute args s w)"
  "server_ok e s \<Longrightarrow> leaves (server_ok e) (Keys_Execute cenv args s w)"
  by (auto simp: Type_Execute_def Keys_Execute_def Let_def split: sum.splits)

lemma GetStream_store: "wf_store st \<Longrightarrow> kv_GetStream st k create = (r, st') \<Longrightarrow> wf_store st'"
  using wf_kv_GetStream [of st k create] by simp

lemma xadd_trim_wf: "stream_ok x \<Longrightarrow> stream_ok (xadd_trim opts x)"
  by (simp add: xadd_trim_def stream_trim_wf)

lemma ok_xadd_run: "server_ok e s \<Longrightarrow> paired flds \<Longrightarrow> leaves (server_ok e) (XAdd_run env sid opts eid flds s w)"
proof -
  assume ok: "server_ok e s" and flds: "paired flds"
  note wf = server_ok_store [OF ok]
  obtain r st where g: "kv_GetStream (store s) sid (\<not> Nomkstream opts) = (r, st)" by fastforce
  have st: "wf_store st" using GetStream_store [OF wf g] .
  show ?thesis
  proof (cases "\<exists>x. r = Ret (Inr (Some x))")
    case True
    then obtain x where x: "r = Ret (Inr (Some x))" by blast
    obtain res y h where a: "stream_AddEntry env x \<lparr>ID = eid, Fields = flds\<rparr> (chans s) = (res, y, h)" by (metis prod_cases3)
    have "stream_ok y" using stream_add_wf [OF _ _ a] GetStream_wf [OF wf g [unfolded x]] flds by simp
    then have "wf_store (put_stream st sid y)" "wf_store (put_stream st sid (xadd_trim opts y))"
      using wf_put_stream [OF st g [unfolded x]] by (simp_all add: xadd_trim_wf)
    with ok show ?thesis by (auto simp: XAdd_run_def g x a split: sum.splits)
  next
    case False
    with ok st show ?thesis by (auto simp: XAdd_run_def g split: go.splits sum.splits option.splits)
  qed
qed

text \<open>The arguments of \<open>XADD\<close> are collected in pairs.\<close>

lemma xadd_args_paired: "paired flds \<Longrightarrow> xadd_args env args opts eid flds = XAddArgs opts' eid' flds' \<Longrightarrow> paired flds'"
proof (induction "length args" arbitrary: args opts eid flds rule: less_induct)
  case less
  show ?case
  proof (cases args)
    case Nil
    with less.prems show ?thesis by simp
  next
    case (Cons a rest)
    have "length (tl r) < length args" if "xadd_threshold rest = Inr r" for r
      using xadd_threshold_length [OF that] Cons by auto
    note after_threshold = less.hyps [OF this]
    have "length y < length args" if "rest = x # y" for x y using that Cons by simp
    note after_field = less.hyps [OF this]
    have "length rest < length args" using Cons by simp
    note after_one = less.hyps [OF this]
    have "paired (flds @ [[x, y]])" for x y using less.prems(1) by (simp add: paired_def)
    note pairs = this less.prems(1)
    let ?up = "ToUpper env (String a)"
    note run = less.prems(2) [unfolded Cons xadd_args.simps Let_def]
    consider (switch) "?up = ''NOMKSTREAM''" | (threshold) "?up \<noteq> ''NOMKSTREAM''" "?up = ''MAXLEN'' \<or> ?up = ''MINID''"
      | (plain) "?up \<noteq> ''NOMKSTREAM''" "\<not> (?up = ''MAXLEN'' \<or> ?up = ''MINID'')" by blast
    then show ?thesis
    proof cases
      case switch
      with run show ?thesis by (simp add: after_one [OF pairs(2)])
    next
      case threshold
      with run obtain r opts2 where "xadd_threshold rest = Inr r" "xadd_args env (tl r) opts2 eid flds = XAddArgs opts' eid' flds'"
        by (cases "xadd_threshold rest") (auto split: sum.splits if_splits)
      then show ?thesis by (rule after_threshold [OF _ pairs(2)])
    next
      case plain
      show ?thesis
      proof (cases "eid = []")
        case True
        with plain run show ?thesis by (simp add: after_one [OF pairs(2)])
      next
        case False
        with plain run obtain v rest' where "rest = v # rest'" "xadd_args env rest' opts eid (flds @ [[String a, String v]]) = XAddArgs opts' eid' flds'"
          by (cases rest) auto
        then show ?thesis by (rule after_field [OF _ pairs(1)])
      qed
    qed
  qed
qed

lemma ok_xadd: "server_ok e s \<Longrightarrow> leaves (server_ok e) (XAdd_Execute env args s w)"
proof (cases "xadd_args env (drop 1 args) \<lparr>Nomkstream = False, MaxLen = 0, MinID = []\<rparr> [] []")
  case (XAddArgs opts eid flds)
  assume ok: "server_ok e s"
  have "paired flds" by (rule xadd_args_paired [OF _ XAddArgs]) (simp add: paired_def)
  with ok XAddArgs show ?thesis by (simp add: XAdd_Execute_def Let_def ok_xadd_run)
qed (simp_all add: XAdd_Execute_def Let_def)

lemma ok_xrange: "server_ok e s \<Longrightarrow> leaves (server_ok e) (XRange_Execute env args s w)"
  by (auto simp: XRange_Execute_def split: option.splits sum.splits prod.splits go.splits
      intro: GetStream_store [OF server_ok_store])

lemma subscribe_all_wf: "wf_store st \<Longrightarrow> subscribe_all ks st h subs = (r, subs', st', h') \<Longrightarrow> wf_store st'"
proof (induction ks st h subs rule: subscribe_all.induct)
  case (2 k rest st h subs)
  obtain g st1 where g: "kv_GetStream st k True = (g, st1)" by fastforce
  have st1: "wf_store st1" using GetStream_store [OF 2(2) g] .
  show ?case
  proof (cases "\<exists>x. g = Ret (Inr (Some x))")
    case True
    then obtain x where x: "g = Ret (Inr (Some x))" by blast
    obtain ch y h1 where a: "Subscribe x h = (ch, y, h1)" by (metis prod_cases3)
    have "stream_ok y" using GetStream_wf [OF 2(2) g [unfolded x]] a by (auto simp: Subscribe_def stream_ok_def Let_def)
    then have "wf_store (put_stream st1 k y)" using wf_put_stream [OF st1 g [unfolded x]] by simp
    with 2(1) [OF g [symmetric] x refl refl a [symmetric]] 2(3) show ?thesis by (simp add: g x a)
  next
    case False
    with 2(3) st1 show ?thesis by (auto simp: g split: go.splits sum.splits option.splits)
  qed
qed simp

lemma unsubscribe_all_wf: "wf_store st \<Longrightarrow> unsubscribe_all subs st h = (st', h') \<Longrightarrow> wf_store st'"
proof (induction subs st h rule: unsubscribe_all.induct)
  case (2 k ch rest st h)
  obtain g st1 where g: "kv_GetStream st k False = (g, st1)" by fastforce
  have same: "st1 = st" using g by (auto simp: kv_GetStream_def split: option.splits if_splits value_data.splits)
  show ?case
  proof (cases "\<exists>x. g = Ret (Inr (Some x))")
    case True
    then obtain x where x: "g = Ret (Inr (Some x))" by blast
    obtain y h1 where a: "Unsubscribe x ch h = (y, h1)" by fastforce
    have "stream_ok y" using GetStream_wf [OF "2.prems"(1) g [unfolded x]] a by (auto simp: Unsubscribe_def stream_ok_def)
    then have "wf_store (put_stream st k y)" using wf_put_stream [OF "2.prems"(1) g [unfolded x same]] by simp
    with "2.IH" "2.prems"(2) show ?thesis by (simp add: g x a)
  next
    case False
    with 2 show ?thesis by (cases g) (auto simp: g split: sum.splits option.splits)
  qed
qed simp

lemma ok_xread_write: "server_ok e s \<Longrightarrow> leaves (server_ok e) (XRead_writeResult v order result s w)"
  by (simp add: XRead_writeResult_def split: go.splits)

lemma ok_xread: "server_ok e s \<Longrightarrow> leaves (server_ok e) (XRead_Execute env c args s w)"
  by (simp add: XRead_Execute_def Let_def ok_xread_write split: sum.splits prod.splits go.splits option.splits)

lemma ok_xread_subscribe: "server_ok e s \<Longrightarrow> leaves (server_ok e) (XRead_subscribe env keys block s w)"
  by (auto simp: XRead_subscribe_def split: sum.splits prod.splits go.splits
      intro!: server_ok_put intro: subscribe_all_wf [OF server_ok_store] unsubscribe_all_wf [OF subscribe_all_wf [OF server_ok_store]])

lemma ok_xread_wake: "server_ok e s \<Longrightarrow> leaves (server_ok e) (xread_wake env c subs sel d chosen s w)"
  by (auto simp: xread_wake_def Let_def split: select_case.splits option.splits prod.splits list.splits
      intro!: ok_xread_write server_ok_put intro: unsubscribe_all_wf [OF server_ok_store])

lemma ok_hello_options: "client_ok e x \<Longrightarrow> client_ok e (snd (hello_options args x))"
  by (induction args x rule: hello_options.induct) (auto simp: Let_def)

lemma ok_hello: "server_ok e s \<Longrightarrow> leaves (server_ok e) (Hello_Execute c args s w)"
proof -
  assume ok: "server_ok e s"
  have "client_ok e x" if "hello_options as (client_of s c) = (r, x)" for as r x
    using ok_hello_options [OF client_ok_of [OF ok], of as c] that by simp
  with ok show ?thesis
    by (auto simp: client_ok_of Hello_Execute_def split: sum.splits list.splits prod.splits option.splits intro!: ok_set_client)
qed

lemma ok_client_config:
  assumes "server_ok e s"
  shows "leaves (server_ok e) (Client_Execute env c args s w)"
    and "leaves (server_ok e) (Config_Execute env c args s w)"
    and "leaves (server_ok e) (Info_Execute env args s w)"
    and "leaves (server_ok e) (ReplConf_Execute env c args s w)"
    and "leaves (server_ok e) (Save_Execute cenv s w)"
    and "leaves (server_ok e) (Wait_Execute env c args s w)"
    and "leaves (server_ok e) (wait_round env n t st off s w)"
    and "leaves (server_ok e) (Multi_Execute c args s w)"
    and "leaves (server_ok e) (Discard_Execute c args s w)"
  using assms
  by (auto simp: Client_Execute_def Config_Execute_def Config_handleGet_def Config_handleSet_def Info_Execute_def
      ReplConf_Execute_def Save_Execute_def Wait_Execute_def wait_round_def Multi_Execute_def Discard_Execute_def
      Let_def ok_update split: sum.splits prod.splits option.splits)

lemma ok_conn_write: "server_ok e s \<Longrightarrow> conn_write c b s = (s', r) \<Longrightarrow> server_ok e s'"
  by (auto simp: conn_write_def ok_update split: if_splits)

lemma ok_send_writer: "server_ok e s \<Longrightarrow> send_writer env c s w = (s', r) \<Longrightarrow> server_ok e s'"
  by (auto simp: send_writer_def Let_def split: if_splits prod.splits intro: ok_conn_write)

lemma ok_client_Send: "server_ok e s \<Longrightarrow> client_Send env c s = (s', r) \<Longrightarrow> server_ok e s'"
  by (auto simp: client_Send_def split: prod.splits intro!: ok_update intro: ok_send_writer)

lemma ok_psync: "server_ok e s \<Longrightarrow> leaves (server_ok e) (Psync_Execute env own c args s w)"
proof -
  assume ok: "server_ok e s"
  have send: "server_ok e s'" if "server_ok e s" "psync_send env own c s w = (s', r)" for s s' w r
    using that by (auto simp: psync_send_def split: if_splits prod.splits intro: ok_send_writer ok_client_Send)
  show ?thesis
    using ok by (auto simp: Psync_Execute_def Let_def split: prod.splits option.splits sum.splits bool.splits
        intro: send ok_conn_write dest: ok_conn_write [OF send])
qed

lemma ok_execute_plain: "server_ok e s \<Longrightarrow> leaves (server_ok e) (execute_plain env own c cmd args s w)"
  by (cases cmd) (simp_all add: execute_plain_def ok_ping_echo ok_get ok_set ok_incr ok_type_keys ok_xadd ok_xrange ok_xread
      ok_hello ok_client_config ok_psync)

section \<open>The server keeps it\<close>

lemma ok_put_writer: "server_ok e s \<Longrightarrow> server_ok e (put_writer c w s)"
  by (simp add: put_writer_def ok_update)

lemma ok_replicas: "server_ok e s \<Longrightarrow> distinct rs \<Longrightarrow> set rs \<subseteq> set (replicas s) \<Longrightarrow> server_ok e (s\<lparr>replicas := rs\<rparr>)"
  by (auto simp: server_ok_def known_def)

lemma ok_removeReplica: "server_ok e s \<Longrightarrow> server_ok e (removeReplica r s)"
  unfolding removeReplica_def by (intro ok_update ok_replicas) (auto simp: server_ok_def)

lemma ok_send_to_replica: "server_ok e s \<Longrightarrow> server_ok e (send_to_replica b r s)"
  by (auto simp: send_to_replica_def Let_def split: prod.splits intro: ok_conn_write ok_removeReplica)

lemma ok_fold: "server_ok e s \<Longrightarrow> (\<And>x s. server_ok e s \<Longrightarrow> server_ok e (f x s)) \<Longrightarrow> server_ok e (fold f xs s)"
  by (induction xs arbitrary: s) simp_all

lemma ok_propagate: "server_ok e s \<Longrightarrow> PropagateCommand c r s = Ret s' \<Longrightarrow> server_ok e s'"
  by (auto simp: PropagateCommand_def Let_def split: go.splits intro!: ok_fold ok_update ok_send_to_replica)

lemma ok_exec_after: "server_ok e s \<Longrightarrow> exec_after env c r rs s buf err = Ret (s', rs') \<Longrightarrow> server_ok e s'"
  by (auto simp: exec_after_def Let_def split: go.splits list.splits if_splits intro: ok_propagate)

lemma leaves_Done: "leaves P r \<Longrightarrow> r = Done s w err \<Longrightarrow> P s"
  and leaves_Blocks: "leaves P r \<Longrightarrow> r = Blocks s w b \<Longrightarrow> P s"
  by simp_all

lemma ok_exec_queue: "server_ok e s \<Longrightarrow> leaves (server_ok e) (exec_queue env c queue rs s w)"
proof (induction env c queue rs s w rule: exec_queue.induct)
  case (2 env c r queue rs s w)
  show ?case
  proof (cases "resp_array r")
    case (Ret l)
    show ?thesis
    proof (cases l)
      case (Cons n args)
      note l = Ret [unfolded Cons]
      show ?thesis
      proof (cases "GetCommand (ToLower (base env) (String n))")
        case (Inl err)
        with 2 l show ?thesis by simp
      next
        case (Inr cmd)
        define res where "res = execute_plain env False c cmd args s (NewWriter (preferredRespVersion (client_of s c)))"
        have lv: "leaves (server_ok e) res" using "2.prems" by (simp add: res_def ok_execute_plain)
        show ?thesis
        proof (cases res)
          case (Done s1 buf err)
          have s1: "server_ok e s1" using lv Done by simp
          show ?thesis
          proof (cases "exec_after (base env) c r rs s1 buf err")
            case (Ret p)
            obtain s2 rs2 where p: "p = (s2, rs2)" by (cases p)
            have "server_ok e s2" using ok_exec_after [OF s1 Ret [unfolded p]] .
            with "2.IH"(2) [OF l refl Inr Done [unfolded res_def] Ret p [symmetric]] show ?thesis
              using Done Ret by (simp add: l Inr p res_def [symmetric])
          qed (use Done in \<open>simp add: l Inr res_def [symmetric]\<close>)
        qed (use lv in \<open>simp_all add: l Inr res_def [symmetric]\<close>)
      qed
    qed (simp add: Ret)
  qed simp
qed (simp add: ok_update)

lemma ok_execute: "server_ok e s \<Longrightarrow> leaves (server_ok e) (Execute env own c cmd args s w)"
  by (simp add: Execute_def Exec_Execute_def ok_execute_plain ok_exec_queue)

lemma ok_resume: "server_ok e s \<Longrightarrow> leaves (server_ok e) (resume env c chosen b s w)"
proof (induction b arbitrary: s w)
  case (BlockedExec b buf r queue rs)
  have lv: "leaves (server_ok e) (resume env c chosen b s buf)" using BlockedExec by simp
  show ?case
  proof (cases "resume env c chosen b s buf")
    case (Done s1 buf1 err)
    then have "server_ok e s1" using lv by simp
    with Done show ?thesis by (auto split: go.splits intro: ok_exec_queue ok_exec_after)
  qed (use lv in simp_all)
qed (simp_all add: ok_xread_wake ok_xread_subscribe ok_client_config)

lemma ok_writeError: "server_ok e s \<Longrightarrow> writeError c err s = (s', r) \<Longrightarrow> server_ok e s'"
  by (auto simp: writeError_def ok_put_writer)

lemma ok_addReplica: "server_ok e s \<Longrightarrow> c \<in> known s \<Longrightarrow> server_ok e (addReplica c s)"
  by (auto simp: addReplica_def server_ok_def known_def)

lemma ok_closeClient: "server_ok e s \<Longrightarrow> server_ok e (closeClient c s)"
proof -
  assume "server_ok e s"
  then have "server_ok e (s\<lparr>connected := filter (\<lambda>x. x \<noteq> c) (connected s)\<rparr>)" by (auto simp: server_ok_def known_def)
  then show ?thesis unfolding closeClient_def by (rule ok_update) simp
qed

lemma ok_finish: "server_ok e s \<Longrightarrow> server_ok e (finish_message env c err s)"
  by (auto simp: finish_message_def split: prod.splits option.splits intro: ok_closeClient ok_client_Send)

lemma ok_finish_blocking: "server_ok e s \<Longrightarrow> server_ok e (finish_blocking env c s w err)"
  by (auto simp: finish_blocking_def Let_def ok_finish ok_put_writer ok_writeError split: option.splits prod.splits
      intro!: ok_finish ok_put_writer intro: ok_writeError [OF ok_put_writer [OF ok_put_writer]])

lemma ok_getack: "server_ok e s \<Longrightarrow> server_ok e (sendReplConfGetAckToAllReplicas env s)"
  by (auto simp: sendReplConfGetAckToAllReplicas_def Let_def getack_replica_def ok_removeReplica split: prod.splits option.splits
      intro!: ok_fold intro: ok_client_Send [OF ok_put_writer] ok_removeReplica [OF ok_client_Send [OF ok_put_writer]])

lemma known_fields [simp]: "known (s\<lparr>replicas := rs\<rparr>) = known s" "known (s\<lparr>srv_offset := off\<rparr>) = known s"
  by (simp_all add: known_def)

lemma known_send_to_replica: "known s \<subseteq> known (send_to_replica b r s)"
  by (auto simp: send_to_replica_def conn_write_def removeReplica_def)

lemma known_propagate: "PropagateCommand c r s = Ret s' \<Longrightarrow> known s \<subseteq> known s'"
proof -
  have "known s \<subseteq> known (fold (send_to_replica b) rs s)" for rs s b
    by (induction rs arbitrary: s) (auto dest: subsetD [OF known_send_to_replica])
  then show "PropagateCommand c r s = Ret s' \<Longrightarrow> ?thesis"
    by (fastforce simp: PropagateCommand_def Let_def split: go.splits)
qed

lemma ok_after_execute:
  assumes "server_ok e s" and "after_execute env c r cmdName args s w err = Ret (s', r')"
  shows "server_ok e s'"
proof (cases err)
  case None
  let ?s = "put_writer c w s"
  have s: "server_ok e ?s" "c \<in> known ?s" using ok_put_writer [OF assms(1)] by (simp_all add: put_writer_def)
  obtain s1 where s1: "(if cmdName \<in> set WriteableCommands then PropagateCommand c r ?s else Ret ?s) = Ret s1"
    using assms(2) None by (auto simp: after_execute_def Let_def split: go.splits)
  have "server_ok e s1" "c \<in> known s1"
    using s s1 known_propagate [of c r ?s s1] by (auto split: if_splits intro: ok_propagate)
  with assms(2) None s1 show ?thesis by (auto simp: after_execute_def Let_def ok_addReplica split: if_splits)
next
  case (Some msg)
  let ?s = "put_writer c w s"
  have "writeError c msg (put_writer c (Reset (Writer (client_of ?s c))) ?s) = (s', r')"
    using assms(2) Some by (simp add: after_execute_def Let_def)
  then show ?thesis by (rule ok_writeError [OF ok_put_writer [OF ok_put_writer [OF assms(1)]]])
qed

text \<open>What \<open>handleMessage\<close> leaves.\<close>

definition hleaves :: "(server \<Rightarrow> bool) \<Rightarrow> hres \<Rightarrow> bool" where
  "hleaves P res = (case res of Handled s e \<Rightarrow> P s | Spawned s cmd args \<Rightarrow> P s | Waits s b \<Rightarrow> P s | Died \<Rightarrow> True)"

lemma hleaves_simps [simp]:
  "hleaves P (Handled s e) = P s" "hleaves P (Spawned s cmd args) = P s" "hleaves P (Waits s b) = P s" "hleaves P Died"
  by (simp_all add: hleaves_def)

lemma ok_run_message: "server_ok e s \<Longrightarrow> hleaves (server_ok e) (run_message env c r cmdName cmd args s)"
proof -
  assume "server_ok e s"
  then have "leaves (server_ok e) (Execute env True c cmd args s (Writer (client_of s c)))" by (rule ok_execute)
  then show ?thesis
    by (auto simp: run_message_def ok_put_writer split: cres.splits go.splits intro: ok_after_execute)
qed

lemma GetCommand_known: "GetCommand nm = Inr cmd \<Longrightarrow> nm \<in> fst ` set commands"
  by (force simp: GetCommand_def split: option.splits dest: map_of_SomeD)

lemma ok_enqueue:
  "server_ok e s \<Longrightarrow> plain_command e r \<Longrightarrow> inTransaction (client_of s c) \<Longrightarrow> server_ok e (update_client c (EnqueueCommand r) s)"
  unfolding update_client_def
  by (rule ok_set_client) (auto simp: client_ok_def EnqueueCommand_def dest: client_ok_of [of e s c])

lemma ToLower_cong: "lower_u env = lower_u e \<Longrightarrow> ToLower env x = ToLower e x"
  by (simp add: ToLower_def)

lemma ok_handleMessage:
  assumes "server_ok e s" and "lower_u (base env) = lower_u e"
  shows "hleaves (server_ok e) (handleMessage env c r s)"
proof (cases "\<exists>n args cmd. resp_array r = Ret (n # args) \<and> GetCommand (ToLower (base env) (String n)) = Inr cmd")
  case True
  then obtain n args cmd where r: "resp_array r = Ret (n # args)"
    and cmd: "GetCommand (ToLower (base env) (String n)) = Inr cmd" by blast
  show ?thesis
  proof (cases "IsInTransaction (client_of s c) \<and> ToLower (base env) (String n) \<notin> set TransactionCommands")
    case True
    have "plain_command e r"
      using True GetCommand_known [OF cmd] by (simp add: plain_command_def r ToLower_cong [OF assms(2)])
    with True assms(1) have "server_ok e (update_client c (EnqueueCommand r) s)"
      by (intro ok_enqueue) (simp_all add: IsInTransaction_def)
    with True show ?thesis by (simp add: handleMessage_def r cmd Let_def ok_put_writer)
  next
    case False
    with assms(1) show ?thesis by (auto simp: handleMessage_def r cmd Let_def ok_run_message ok_getack)
  qed
next
  case False
  with assms(1) show ?thesis
    by (auto simp: handleMessage_def Let_def split: go.splits list.splits sum.splits prod.splits intro: ok_writeError)
qed

section \<open>Every event keeps it\<close>

definition node_ok :: "go_env \<Rightarrow> node \<Rightarrow> bool" where
  "node_ok e n \<longleftrightarrow> server_ok e (srv n)"

lemma ok_blocking_result: "node_ok e n \<Longrightarrow> leaves (server_ok e) res \<Longrightarrow> node_ok e (blocking_result env c res n)"
  by (auto simp: blocking_result_def node_ok_def ok_put_writer ok_finish_blocking split: cres.splits)

lemma ok_loop_message: "node_ok e n \<Longrightarrow> lower_u (base env) = lower_u e \<Longrightarrow> node_ok e (loop_message env c r n)"
proof -
  assume n: "node_ok e n" and l: "lower_u (base env) = lower_u e"
  have "hleaves (server_ok e) (handleMessage env c r (srv n))" using ok_handleMessage [OF _ l] n by (simp add: node_ok_def)
  with n show ?thesis by (auto simp: loop_message_def node_ok_def ok_finish split: hres.splits)
qed

lemma ok_loop_resume: "node_ok e n \<Longrightarrow> node_ok e (loop_resume env chosen c r b n)"
proof -
  assume n: "node_ok e n"
  have "leaves (server_ok e) (resume env c chosen b (srv n) (Writer (client_of (srv n) c)))"
    using n by (simp add: node_ok_def ok_resume)
  with n show ?thesis
    by (auto simp: loop_resume_def node_ok_def ok_put_writer split: cres.splits go.splits list.splits
        intro!: ok_finish intro: ok_after_execute)
qed

lemma ok_ping: "server_ok e s \<Longrightarrow> server_ok e (pingReplicas env s)"
  unfolding pingReplicas_def
proof (rule ok_fold)
  fix r s assume "server_ok e s"
  then have "server_ok e (s\<lparr>srv_offset := srv_offset s + of_nat (length CreatePingCommand)\<rparr>)" (is "server_ok e ?s") by simp
  then have w: "server_ok e s'" if "conn_write r CreatePingCommand ?s = (s', ok)" for s' ok
    using that by (rule ok_conn_write)
  have "server_ok e s'" if "sendPing env r s = (s', ok)" for s' ok
    using that by (auto simp: sendPing_def Let_def split: prod.splits bool.splits intro: w ok_client_Send [OF w])
  then show "server_ok e (ping_replica env r s)"
    by (auto simp: ping_replica_def ok_removeReplica split: prod.splits)
qed

lemma ok_accept: "server_ok e s \<Longrightarrow> c \<notin> known s \<Longrightarrow> server_ok e (acceptConnection env c rid addr s)"
proof -
  assume s: "server_ok e s" and c: "c \<notin> known s"
  then have "server_ok e (set_client c ((NewClient env addr)\<lparr>client_ID := rid\<rparr>) s)" by (simp add: ok_set_client)
  moreover have "known (s\<lparr>connected := cs\<rparr>) = known s" for s cs by (simp add: known_def)
  moreover have "c \<notin> set (connected s)" using s c by (auto simp: server_ok_def)
  ultimately show ?thesis by (auto simp: acceptConnection_def Let_def server_ok_def)
qed

lemma ok_step: "node_ok e n \<Longrightarrow> lower_u (base env) = lower_u e \<Longrightarrow> node_ok e (step env ev n)"
proof -
  assume n: "node_ok e n" and l: "lower_u (base env) = lower_u e"
  then have s: "server_ok e (srv n)" by (simp add: node_ok_def)
  show ?thesis
  proof (cases ev)
    case (Run i)
    with n s show ?thesis
      by (auto simp: step_def ok_execute intro!: ok_blocking_result split: prod.splits) (simp add: node_ok_def)
  next
    case (Wake i chosen)
    with n s show ?thesis
      by (auto simp: step_def ok_resume intro!: ok_blocking_result split: prod.splits) (simp add: node_ok_def)
  next
    case (Message c r)
    with n l show ?thesis by (simp add: step_def ok_loop_message)
  next
    case (WakeLoop chosen)
    with n show ?thesis by (auto simp: step_def ok_loop_resume split: option.splits)
  qed (use n s in \<open>simp_all add: step_def node_ok_def ok_accept known_def [symmetric] ok_ping ok_getack\<close>)
qed

end
