(* ===== verification/Command_Props.thy ===== *)
theory Command_Props
  imports Server_Inv
begin

text \<open>
  The properties of single commands: what \<open>SET\<close>, \<open>GET\<close> and \<open>INCR\<close> do to the key space seen as a
  map from keys to live strings, and where the argument parsing of \<open>XADD\<close> and \<open>XREAD\<close> goes
  wrong.
\<close>

section \<open>SET against a map\<close>

text \<open>The specification: whether the options let the write happen, the map after it, and the
  reply.\<close>

definition set_refused :: "set_options \<Rightarrow> string option \<Rightarrow> bool" where
  "set_refused opts old \<longleftrightarrow> opt_NX opts \<and> old \<noteq> None \<or> opt_XX opts \<and> old = None"

definition spec_view :: "set_options \<Rightarrow> string \<Rightarrow> string \<Rightarrow> (string \<Rightarrow> string option) \<Rightarrow> string \<Rightarrow> string option" where
  "spec_view opts k v m = (if set_refused opts (m k) then m else m(k \<mapsto> v))"

definition spec_written :: "set_options \<Rightarrow> string option \<Rightarrow> writer \<Rightarrow> writer" where
  "spec_written opts old w =
     (if opt_GET opts then write_old old w
      else if set_refused opts old then WriteNull (CHR ''$'') w
      else WriteSimpleValue (CHR ''+'') ''OK'' w)"

definition no_expiry :: "set_options \<Rightarrow> bool" where
  "no_expiry opts \<longleftrightarrow> opt_EX opts \<le> 0 \<and> opt_PX opts \<le> 0 \<and> IsZero (opt_EXAT opts) \<and> IsZero (opt_PXAT opts)"

lemma set_ttl_none: "no_expiry opts \<Longrightarrow> map_of st k = Some (string_value v) \<Longrightarrow> live_string env (set_ttl env opts k st) = live_string env st"
  by (auto simp: set_ttl_def no_expiry_def kv_DeleteTTL_def live_string_expiry live_string_def kv_isExpired_def string_value_def
      intro!: ext split: option.splits)

text \<open>The store after \<open>SET\<close>. Without \<open>NX\<close>, \<open>XX\<close> and \<open>GET\<close> the command does not read the key; reading
  it drops an expired value.\<close>

definition set_read :: "go_env \<Rightarrow> set_options \<Rightarrow> string \<Rightarrow> kvstore \<Rightarrow> kvstore" where
  "set_read env opts k st = (if opt_GET opts \<or> opt_NX opts \<or> opt_XX opts then snd (kv_Get env st k) else st)"

definition set_store :: "go_env \<Rightarrow> set_options \<Rightarrow> string \<Rightarrow> string \<Rightarrow> kvstore \<Rightarrow> kvstore" where
  "set_store env opts k v st =
     (if set_refused opts (live_string env st k) then set_read env opts k st
      else set_ttl env opts k (kv_Set (set_read env opts k st) k v))"

lemma set_read_facts:
  "wf_store st \<Longrightarrow> wf_store (set_read env opts k st)" "live_string env (set_read env opts k st) = live_string env st"
  by (simp_all add: set_read_def wf_kv_Get live_string_Get)

lemma wf_set_store: "wf_store st \<Longrightarrow> wf_store (set_store env opts k v st)"
  by (simp add: set_store_def set_read_facts wf_set_ttl wf_kv_Set)

lemma set_run_eq:
  assumes "wf_store (store s)" and "\<not> (opt_NX opts \<and> opt_XX opts)"
  shows "Set_run env opts k v s w =
    Done (s\<lparr>store := set_store env opts k v (store s)\<rparr>) (spec_written opts (live_string env (store s) k) w) None"
proof -
  let ?old = "live_string env (store s) k"
  obtain st where get: "kv_Get env (store s) k = (Ret ?old, st)"
    using kv_Get_live [OF assms(1), of env k] by (metis prod.collapse)
  show ?thesis
  proof (cases "opt_GET opts \<or> opt_NX opts \<or> opt_XX opts")
    case True
    then have "set_read env opts k (store s) = st" by (simp add: set_read_def get)
    with True assms(2) show ?thesis unfolding Set_run_def get
      by (cases ?old) (auto simp: Let_def set_refused_def spec_written_def write_ok_def write_old_def set_store_def)
  next
    case False
    then show ?thesis
      by (simp add: Set_run_def Let_def set_refused_def spec_written_def write_ok_def set_store_def set_read_def)
  qed
qed

text \<open>C5: \<open>SET\<close> implements its specification on the map of live strings. In every well-formed store,
  for any combination of \<open>NX\<close>, \<open>XX\<close>, \<open>GET\<close> and \<open>KEEPTTL\<close> that the command accepts, the map after
  it is the specified one (a refused write changes nothing), no other key changes, the reply is
  the old value, null or \<open>OK\<close> as specified, and no error is returned. A key that holds a stream is
  not in this map: it counts as absent, so that \<open>NX\<close> overwrites the stream, \<open>XX\<close> refuses the key, and
  \<open>GET\<close> answers null and overwrites it, where the comments of \<open>set.go\<close> say that \<open>NX\<close> needs a key that
  does not exist, \<open>XX\<close> one that does, and that \<open>GET\<close> aborts with an error on another type.\<close>

theorem set_refines_map:
  assumes "wf_store (store s)" and "\<not> (opt_NX opts \<and> opt_XX opts)" and "no_expiry opts"
  shows "\<exists>s'. Set_run env opts k v s w = Done s' (spec_written opts (live_string env (store s) k) w) None \<and>
    live_string env (store s') = spec_view opts k v (live_string env (store s)) \<and> wf_store (store s')"
proof -
  have "live_string env (set_ttl env opts k (kv_Set st k v)) = (live_string env st)(k \<mapsto> v)" for st
  proof -
    have "live_string env (set_ttl env opts k (kv_Set st k v)) = live_string env (kv_Set st k v)"
      using assms(3) by (rule set_ttl_none) (simp add: kv_Set_def)
    then show ?thesis by (simp add: live_string_put fun_eq_iff)
  qed
  with assms show ?thesis by (simp add: set_run_eq set_store_def spec_view_def wf_set_ttl wf_kv_Set set_read_facts)
qed

definition example_server :: server where
  "example_server = \<lparr>cfg = NewConfig, store = [], chans = empty_hub, srv_offset = 0, isMaster = True,
     masterAddr = [], replicationID = ''id'', cl_heap = [], connected = [], replicas = [],
     masterClient = None, dump_file = None, streamOrder = [], responseWaitQueue = [], requests = 0, sentRequest = None,
     handshake = NotStarted\<rparr>"

lemma NewServer_example: "NewServer (plain_env 0) NewConfig ''id'' = Ret example_server"
  by (simp add: example_server_def NewServer_def NewConfig_def config_Get_def NewStore_def)

lemma example_server_simps [simp]: "store example_server = []" "wf_store []" "replicas example_server = []"
  by (simp_all add: example_server_def wf_store_def)

lemma live_string_Nil [simp]: "live_string env [] = (\<lambda>_. None)"
  by (simp add: live_string_def fun_eq_iff)

theorem set_refines_map_witness:
  "\<exists>s'. Set_run (plain_env 0) (no_options\<lparr>opt_NX := True\<rparr>) ''k'' ''v'' example_server (NewWriter 2)
      = Done s' (WriteSimpleValue (CHR ''+'') ''OK'' (NewWriter 2)) None \<and>
    live_string (plain_env 0) (store s') = [''k'' \<mapsto> ''v'']"
  using set_refines_map [of example_server "no_options\<lparr>opt_NX := True\<rparr>" "plain_env 0" "''k''" "''v''" "NewWriter 2"]
  by (simp add: no_options_def no_expiry_def IsZero_def spec_written_def spec_view_def set_refused_def) blast

section \<open>SET and time to live\<close>

text \<open>The expiry the options ask for; \<open>KEEPTTL\<close> has no part in it.\<close>

definition spec_expiry :: "go_env \<Rightarrow> set_options \<Rightarrow> 64 word" where
  "spec_expiry env opts =
     (if 0 < opt_EX opts then word_of_int ((now_ns env + opt_EX opts) div 1000000)
      else if 0 < opt_PX opts then word_of_int ((now_ns env + opt_PX opts) div 1000000)
      else if \<not> IsZero (opt_EXAT opts) then word_of_int (UnixMilli (opt_EXAT opts))
      else if \<not> IsZero (opt_PXAT opts) then word_of_int (UnixMilli (opt_PXAT opts))
      else 0)"

lemma set_expiry_simp: "map_of st k = Some x \<Longrightarrow> map_of (set_expiry st k e) k' = (if k' = k then Some (x\<lparr>Expiry := e\<rparr>) else map_of st k')"
  by (simp add: set_expiry_def)

lemma set_ttl_lookup:
  "map_of (set_ttl env opts k (kv_Set st k v)) k' = (if k' = k then Some ((string_value v)\<lparr>Expiry := spec_expiry env opts\<rparr>) else map_of st k')"
proof -
  have "map_of (kv_Set st k v) k = Some (string_value v)" by (simp add: kv_Set_def)
  note set_expiry_simp [OF this, simp]
  have "(string_value v)\<lparr>Expiry := 0\<rparr> = string_value v" by (simp add: string_value_def)
  then show ?thesis
    by (auto simp: set_ttl_def spec_expiry_def kv_DeleteTTL_def kv_Expire_def kv_PExpire_def kv_ExpireAt_def kv_PExpireAt_def
        kv_Set_def set_expiry_def)
qed

text \<open>C35: the time to live after \<open>SET\<close>. A write that is not refused stores the value with exactly the
  expiry its options ask for: \<open>EX\<close> and \<open>PX\<close> relative to the clock, \<open>EXAT\<close> and \<open>PXAT\<close> absolute, and none
  at all otherwise. \<open>KEEPTTL\<close> does not keep the expiry the key had: the value is replaced, expiry
  included, before the option is looked at.\<close>

theorem set_time_to_live:
  assumes "wf_store (store s)" and "\<not> (opt_NX opts \<and> opt_XX opts)"
    and "\<not> set_refused opts (live_string env (store s) k)"
  shows "\<exists>s' w'. Set_run env opts k v s w = Done s' w' None \<and>
    map_of (store s') k = Some ((string_value v)\<lparr>Expiry := spec_expiry env opts\<rparr>)"
  using assms by (simp add: set_run_eq set_store_def set_ttl_lookup)

theorem set_time_to_live_witness:
  "\<exists>s' w'. Set_run (plain_env 0) (no_options\<lparr>opt_KEEPTTL := True\<rparr>) ''k'' ''v''
      (example_server\<lparr>store := set_expiry (kv_Set [] ''k'' ''u'') ''k'' 5000\<rparr>) (NewWriter 2) = Done s' w' None \<and>
    map_of (store s') ''k'' = Some (string_value ''v'')"
proof -
  have "wf_store (set_expiry (kv_Set [] ''k'' ''u'') ''k'' 5000)"
    using wf_set_expiry [OF wf_kv_Set [OF example_server_simps(2)]] .
  then have "wf_store (store (example_server\<lparr>store := set_expiry (kv_Set [] ''k'' ''u'') ''k'' 5000\<rparr>))" by simp
  from set_time_to_live [OF this, of "no_options\<lparr>opt_KEEPTTL := True\<rparr>" "plain_env 0" "''k''" "''v''" "NewWriter 2"]
  show ?thesis by (simp add: no_options_def set_refused_def spec_expiry_def IsZero_def string_value_def)
qed

section \<open>INCR\<close>

text \<open>The number a key counts from, if it can be incremented.\<close>

definition incr_value :: "string option \<Rightarrow> int option" where
  "incr_value old = (case old of None \<Rightarrow> Some 0
     | Some b \<Rightarrow> (case ParseInt b of Inl _ \<Rightarrow> None | Inr i \<Rightarrow> if i = 2 ^ 63 - 1 then None else Some i))"

lemma incr_effect:
  assumes "wf_store (store s)"
  shows "\<exists>s'. (case incr_value (live_string env (store s) (String a)) of
      Some i \<Rightarrow> Incr_Execute env [a] s w = Done s' (WriteInteger (i + 1) w) None \<and>
        live_string env (store s') = (live_string env (store s))(String a \<mapsto> FormatInt (i + 1)) \<and>
        ParseInt (FormatInt (i + 1)) = Inr (i + 1) \<and> in_i64 (i + 1)
    | None \<Rightarrow> Incr_Execute env [a] s w = write_err ErrNotInteger s' w \<and>
        live_string env (store s') = live_string env (store s)) \<and> wf_store (store s')"
proof -
  let ?old = "live_string env (store s) (String a)"
  obtain st where get: "kv_Get env (store s) (String a) = (Ret ?old, st)"
    using kv_Get_live [OF assms, of env "String a"] by (metis prod.collapse)
  have st: "wf_store st" "live_string env st = live_string env (store s)"
    using wf_kv_Get [OF assms, of env "String a"] live_string_Get [of env "store s" "String a"] by (simp_all add: get)
  have put: "live_string env (kv_Set st (String a) b) = (live_string env (store s))(String a \<mapsto> b)" for b
    by (simp add: live_string_put fun_eq_iff st(2))
  show ?thesis
  proof (cases "incr_value ?old")
    case None
    then obtain b where "?old = Some b" "ParseInt b = Inr (2 ^ 63 - 1) \<or> (\<exists>e. ParseInt b = Inl e)"
      by (auto simp: incr_value_def split: option.splits sum.splits if_splits)
    with None st show ?thesis by (intro exI [of _ "s\<lparr>store := st\<rparr>"]) (auto simp: Incr_Execute_def get Let_def)
  next
    case (Some i)
    then have i: "in_i64 i" "i \<noteq> 2 ^ 63 - 1"
      using ParseInt_range by (auto simp: incr_value_def in_i64_def split: option.splits sum.splits if_splits)
    then have i1: "in_i64 (i + 1)" by (auto simp: in_i64_def)
    have "(case ?old of None \<Rightarrow> Inr 0 | Some b \<Rightarrow> ParseInt b) = Inr i"
      using Some by (auto simp: incr_value_def split: option.splits sum.splits if_splits)
    with i(2) have "Incr_Execute env [a] s w
        = Done (s\<lparr>store := kv_Set st (String a) (FormatInt (i + 1))\<rparr>) (WriteInteger (i + 1) w) None"
      using i1 by (simp add: Incr_Execute_def get Let_def)
    with Some st i1 show ?thesis
      by (intro exI [of _ "s\<lparr>store := kv_Set st (String a) (FormatInt (i + 1))\<rparr>"]) (simp add: put ParseInt_FormatInt wf_kv_Set)
  qed
qed

text \<open>C21: \<open>INCR\<close> on the map of live strings. A key without a live string (missing, expired, or
  holding a stream, which is overwritten) counts as 0; a key that holds the text of an
  \<open>int64\<close> below the largest one gets the text of its successor, which parses back to it, is
  the reply and stays in the range of \<open>int64\<close>. A string that is not such a text is refused with an
  error and kept; every other key keeps its value in all cases.\<close>

theorem incr_counts:
  assumes "wf_store (store s)"
  shows "\<exists>s'. (case incr_value (live_string env (store s) (String a)) of
      Some i \<Rightarrow> Incr_Execute env [a] s w = Done s' (WriteInteger (i + 1) w) None \<and>
        live_string env (store s') = (live_string env (store s))(String a \<mapsto> FormatInt (i + 1)) \<and>
        ParseInt (FormatInt (i + 1)) = Inr (i + 1) \<and> in_i64 (i + 1)
    | None \<Rightarrow> Incr_Execute env [a] s w = write_err ErrNotInteger s' w \<and>
        live_string env (store s') = live_string env (store s)) \<and> wf_store (store s')"
  using assms by (rule incr_effect)

theorem incr_counts_witness:
  "\<exists>s'. Incr_Execute (plain_env 0) [bulk ''n''] (example_server\<lparr>store := kv_Set [] ''n'' ''41''\<rparr>) (NewWriter 2)
      = Done s' (WriteInteger 42 (NewWriter 2)) None \<and> live_string (plain_env 0) (store s') ''n'' = Some ''42''"
proof -
  let ?s = "example_server\<lparr>store := kv_Set [] ''n'' ''41''\<rparr>"
  have wf: "wf_store (store ?s)" using wf_kv_Set [OF example_server_simps(2)] by simp
  have "incr_value (Some ''41'') = Some 41" "FormatInt 42 = ''42''" by code_simp+
  moreover have "String (bulk ''n'') = ''n''" by (simp add: bulk_def)
  moreover have "live_string (plain_env 0) (store ?s) ''n'' = Some ''41''" by (simp add: live_string_put)
  ultimately show ?thesis using incr_counts [OF wf, of "plain_env 0" "bulk ''n''" "NewWriter 2"] by auto
qed

section \<open>XADD\<close>

definition xadd_keyword :: "go_env \<Rightarrow> string \<Rightarrow> bool" where
  "xadd_keyword env a \<longleftrightarrow> ToUpper env a \<in> {''NOMKSTREAM'', ''MAXLEN'', ''MINID''}"

lemma String_bulk [simp]: "String (bulk a) = a"
  by (simp add: bulk_def)

lemma Int64_bulk: "Int64 (bulk a) = (case ParseInt a of Inl e \<Rightarrow> Inl (ParseFailed e) | Inr i \<Rightarrow> Inr i)"
  by (simp add: Int64_def bulk_def)

end
