(* ===== verification/Command_Contract.thy ===== *)
theory Command_Contract
  imports Command_Props
begin

text \<open>
  The contract of the commands that work on the key space alone. A \<open>Command\<close> of the program is an
  interface; those behind it that only read and write the store (\<open>ECHO\<close>, \<open>PING\<close>, \<open>SET\<close>, \<open>GET\<close>, \<open>INCR\<close>,
  \<open>TYPE\<close>, \<open>KEYS\<close>) share two laws: what they do and reply is determined by the store and the
  protocol version, and they return. \<open>SET\<close> and \<open>INCR\<close>, the commands a master propagates, even
  depend only on the live strings. The laws are two locales, with the facts that transactions
  and replication rest on.
\<close>

section \<open>Commands on the store\<close>

definition acts_on_store :: "(server \<Rightarrow> writer \<Rightarrow> cres) \<Rightarrow> bool" where
  "acts_on_store f \<longleftrightarrow> (\<forall>st ver. wf_store st \<longrightarrow> (\<exists>st' b err. wf_store st' \<and>
     (\<forall>s w. store s = st \<longrightarrow> respVersion w = ver \<longrightarrow> f s w = Done (s\<lparr>store := st'\<rparr>) (emit b w) err)))"

lemma acts_store_cases:
  assumes "\<And>st. wf_store st \<Longrightarrow> \<exists>st' b err. wf_store st' \<and>
    (\<forall>s w. store s = st \<longrightarrow> f s w = Done (s\<lparr>store := st'\<rparr>) (emit (b (respVersion w)) w) err)"
  shows "acts_on_store f"
  unfolding acts_on_store_def
proof (intro allI impI)
  fix st :: kvstore and ver :: int assume "wf_store st"
  from assms [OF this] obtain st' b err where "wf_store st'"
    and "\<forall>s w. store s = st \<longrightarrow> f s w = Done (s\<lparr>store := st'\<rparr>) (emit (b (respVersion w)) w) err" by blast
  then show "\<exists>st' b err. wf_store st' \<and> (\<forall>s w. store s = st \<longrightarrow> respVersion w = ver \<longrightarrow>
      f s w = Done (s\<lparr>store := st'\<rparr>) (emit b w) err)"
    by (intro exI [of _ st'] exI [of _ "b ver"] exI [of _ err]) auto
qed

locale store_command =
  fixes exec :: "resp list \<Rightarrow> server \<Rightarrow> writer \<Rightarrow> cres"
  assumes acts: "acts_on_store (exec args)"
begin

text \<open>Two servers with the same store, two writers of the same version.\<close>

lemma same_effect:
  assumes "wf_store (store s)" and "store t = store s" and "respVersion w = respVersion v"
  obtains st b err where "wf_store st" "exec args s w = Done (s\<lparr>store := st\<rparr>) (emit b w) err"
    "exec args t v = Done (t\<lparr>store := st\<rparr>) (emit b v) err"
proof -
  from acts [of args] assms(1) obtain st b err where "wf_store st"
    and e: "\<And>s' w'. store s' = store s \<Longrightarrow> respVersion w' = respVersion w \<Longrightarrow> exec args s' w' = Done (s'\<lparr>store := st\<rparr>) (emit b w') err"
    unfolding acts_on_store_def by meson
  show thesis by (rule that [OF \<open>wf_store st\<close>]) (simp_all add: e assms)
qed

lemma returns: "wf_store (store s) \<Longrightarrow> \<exists>st b err. exec args s w = Done (s\<lparr>store := st\<rparr>) (emit b w) err \<and> wf_store st"
  by (metis same_effect)

end

text \<open>The replies of these commands, as bytes.\<close>

definition null_bytes :: "char \<Rightarrow> int \<Rightarrow> string" where
  "null_bytes t ver = (if ver = RESP2 then t # Itoa (-1) @ crlf else ''_'' @ crlf)"

definition error_bytes :: "string \<Rightarrow> int \<Rightarrow> string" where
  "error_bytes e ver = (if ver = RESP2 then ''-'' @ e @ crlf else ''!'' @ Itoa (int (length e)) @ crlf @ e @ crlf)"

lemma WriteNull_emit: "WriteNull t w = emit (null_bytes t (respVersion w)) w"
  by (simp add: WriteNull_def null_bytes_def write_simple write_len)

lemma write_err_emit: "write_err e s w = Done s (emit (error_bytes e (respVersion w)) w) None"
  by (simp add: write_err_def done_w_def WriteError_def error_bytes_def write_simple write_bytes)

lemma write_ok_emit: "write_ok s w = Done s (emit (''+OK'' @ crlf) w) None"
  by (simp add: write_ok_def write_simple)

lemma write_old_emit: "write_old old w = emit (case old of Some v \<Rightarrow> raw (bulk v) | None \<Rightarrow> null_bytes (CHR ''$'') (respVersion w)) w"
  by (simp add: write_old_def WriteNull_emit WriteBytes_def write_bytes raw_bulk split: option.splits)

lemmas reply_emit = WriteNull_emit write_err_emit write_ok_emit write_old_emit WriteBytes_def write_bytes write_simple
  WriteStringSlice_emits WriteInteger_def writeInt_def

lemma acts_const: "(\<And>s w. f s w = Done s (emit (b (respVersion w)) w) err) \<Longrightarrow> acts_on_store f"
proof (rule acts_store_cases)
  fix st assume f: "\<And>s w. f s w = Done s (emit (b (respVersion w)) w) err" and "wf_store st"
  then show "\<exists>st' b err. wf_store st' \<and> (\<forall>s w. store s = st \<longrightarrow> f s w = Done (s\<lparr>store := st'\<rparr>) (emit (b (respVersion w)) w) err)"
    by (intro exI [of _ st] exI [of _ b] exI [of _ err]) auto
qed

interpretation echo_cmd: store_command Echo_Execute
proof
  show "acts_on_store (Echo_Execute args)" for args
    by (rule acts_const [where err = None
          and b = "\<lambda>ver. if length args \<noteq> 1 then error_bytes ''wrong number of arguments for 'echo' command'' ver else raw (bulk (Bytes (args ! 0)))"])
      (simp add: Echo_Execute_def reply_emit raw_bulk)
qed

interpretation ping_cmd: store_command Ping_Execute
proof
  show "acts_on_store (Ping_Execute args)" for args
    by (rule acts_const [where err = None
          and b = "\<lambda>ver. if length args \<noteq> 0 then error_bytes ''wrong number of arguments for 'ping' command'' ver else ''+PONG'' @ crlf"])
      (simp add: Ping_Execute_def reply_emit)
qed

text \<open>The lookup that most commands begin with.\<close>

lemma get_cases:
  assumes "wf_store st"
  obtains st' where "kv_Get env st k = (Ret (live_string env st k), st')" "wf_store st'" "live_string env st' = live_string env st"
  using kv_Get_live [OF assms, of env k] wf_kv_Get [OF assms, of env k] live_string_Get [of env st k]
  by (metis prod.collapse)

lemma server_store_same: "store s = st \<Longrightarrow> s\<lparr>store := st\<rparr> = s"
  by auto

interpretation get_cmd: store_command "Get_Execute env" for env
proof
  fix args
  show "acts_on_store (Get_Execute env args)"
  proof (rule acts_store_cases)
    fix st assume wf: "wf_store st"
    let ?k = "String (args ! 0)"
    obtain st' where g: "kv_Get env st ?k = (Ret (live_string env st ?k), st')" "wf_store st'" by (rule get_cases [OF wf])
    show "\<exists>st' b err. wf_store st' \<and> (\<forall>s w. store s = st \<longrightarrow> Get_Execute env args s w = Done (s\<lparr>store := st'\<rparr>) (emit (b (respVersion w)) w) err)"
    proof (cases "length args \<noteq> 1")
      case True
      then show ?thesis
        using wf by (intro exI [of _ st] exI [of _ "\<lambda>_. []"] exI [of _ "Some ''wrong number of arguments for 'get' command''"])
          (auto simp: Get_Execute_def server_store_same)
    next
      case False
      then show ?thesis
        using g by (intro exI [of _ st'] exI [of _ "\<lambda>ver. case live_string env st ?k of None \<Rightarrow> null_bytes (CHR ''$'') ver | Some v \<Rightarrow> raw (bulk v)"] exI [of _ None])
          (auto simp: Get_Execute_def reply_emit raw_bulk split: option.splits)
    qed
  qed
qed

lemma acts_run: "wf_store st \<Longrightarrow> \<not> (opt_NX opts \<and> opt_XX opts) \<Longrightarrow> store s = st \<Longrightarrow>
  Set_run env opts k v s w = Done (s\<lparr>store := set_store env opts k v st\<rparr>)
    (emit (written (spec_written opts (live_string env st k) (NewWriter (respVersion w)))) w) None"
  by (auto simp: set_run_eq spec_written_def reply_emit NewWriter_def split: option.splits)

interpretation set_cmd: store_command "Set_Execute env" for env
proof
  fix args
  show "acts_on_store (Set_Execute env args)"
  proof (rule acts_store_cases)
    fix st assume wf: "wf_store st"
    have err: "\<exists>st' b err. wf_store st' \<and> (\<forall>s w. store s = st \<longrightarrow> f s w = Done (s\<lparr>store := st'\<rparr>) (emit (b (respVersion w)) w) err)"
      if "\<And>s w. f s w = Done s (emit (b (respVersion w)) w) e" for f b e
      using wf that by (intro exI [of _ st] exI [of _ b] exI [of _ e]) auto
    show "\<exists>st' b err. wf_store st' \<and> (\<forall>s w. store s = st \<longrightarrow> Set_Execute env args s w = Done (s\<lparr>store := st'\<rparr>) (emit (b (respVersion w)) w) err)"
    proof (cases "Set_parseOptions env (drop 2 args) no_options")
      case (Inl e)
      then show ?thesis
        by (intro err [where b = "\<lambda>ver. if length args < 2 then error_bytes ''wrong number of arguments for 'set' command'' ver else []"
              and e = "if length args < 2 then None else Some e"]) (simp add: Set_Execute_def Let_def reply_emit)
    next
      case (Inr opts)
      let ?both = "opt_NX opts \<and> opt_XX opts"
      let ?keep = "opt_KEEPTTL opts \<and> (0 < opt_EX opts \<or> 0 < opt_PX opts \<or> \<not> IsZero (opt_EXAT opts) \<or> \<not> IsZero (opt_PXAT opts))"
      show ?thesis
      proof (cases "length args < 2 \<or> ?both \<or> ?keep")
        case True
        then show ?thesis
          by (intro err [where e = None and b = "error_bytes (if length args < 2 then ''wrong number of arguments for 'set' command''
                else if ?both then ''both NX and XX options are not allowed''
                else ''KEEPTTL option is not allowed with EX, PX, EXAT, or PXAT options'')"])
            (auto simp: Set_Execute_def Let_def Inr reply_emit)
      next
        case False
        then have "\<forall>s w. store s = st \<longrightarrow> Set_Execute env args s w
            = Set_run env opts (String (args ! 0)) (Bytes (args ! 1)) s w"
          by (auto simp: Set_Execute_def Let_def Inr)
        with False show ?thesis
          using acts_run [OF wf] wf_set_store [OF wf]
          by (intro exI [of _ "set_store env opts (String (args ! 0)) (Bytes (args ! 1)) st"]
              exI [of _ "\<lambda>ver. written (spec_written opts (live_string env st (String (args ! 0))) (NewWriter ver))"] exI [of _ None]) simp
      qed
    qed
  qed
qed

interpretation incr_cmd: store_command "Incr_Execute env" for env
proof
  fix args
  show "acts_on_store (Incr_Execute env args)"
  proof (rule acts_store_cases)
    fix st assume wf: "wf_store st"
    let ?k = "String (args ! 0)"
    obtain st' where g: "kv_Get env st ?k = (Ret (live_string env st ?k), st')" "wf_store st'" by (rule get_cases [OF wf])
    let ?n = "case live_string env st ?k of None \<Rightarrow> Inr 0 | Some b \<Rightarrow> ParseInt b"
    let ?ok = "\<exists>i. ?n = Inr i \<and> i \<noteq> 2 ^ 63 - 1"
    let ?new = "FormatInt (wrap_i64 ((case ?n of Inr i \<Rightarrow> i | Inl _ \<Rightarrow> 0) + 1))"
    show "\<exists>st' b err. wf_store st' \<and> (\<forall>s w. store s = st \<longrightarrow> Incr_Execute env args s w = Done (s\<lparr>store := st'\<rparr>) (emit (b (respVersion w)) w) err)"
    proof (cases "length args \<noteq> 1")
      case True
      then show ?thesis
        using wf by (intro exI [of _ st] exI [of _ "error_bytes ''wrong number of arguments for 'incr' command''"] exI [of _ None])
          (auto simp: Incr_Execute_def reply_emit)
    next
      case False
      show ?thesis
      proof (cases ?ok)
        case True
        with False g show ?thesis
          by (intro exI [of _ "kv_Set st' ?k ?new"] exI [of _ "\<lambda>ver. '':'' @ ?new @ crlf"] exI [of _ None])
            (auto simp: Incr_Execute_def Let_def reply_emit wf_kv_Set)
      next
        case notok: False
        with False g show ?thesis
          by (intro exI [of _ st'] exI [of _ "error_bytes ErrNotInteger"] exI [of _ None])
            (auto simp: Incr_Execute_def Let_def reply_emit split: sum.splits)
      qed
    qed
  qed
qed

interpretation type_cmd: store_command Type_Execute
proof
  fix args
  show "acts_on_store (Type_Execute args)"
  proof (rule acts_store_cases)
    fix st assume "wf_store st"
    then show "\<exists>st' b err. wf_store st' \<and> (\<forall>s w. store s = st \<longrightarrow> Type_Execute args s w = Done (s\<lparr>store := st'\<rparr>) (emit (b (respVersion w)) w) err)"
      by (intro exI [of _ st] exI [of _ None] exI [of _ "\<lambda>ver. if length args \<noteq> 1
            then error_bytes ''wrong number of arguments for 'type' command'' ver else ''+'' @ kv_Type st (String (args ! 0)) @ crlf"])
        (auto simp: Type_Execute_def reply_emit)
  qed
qed

definition keys_bytes :: "cmd_env \<Rightarrow> resp list \<Rightarrow> kvstore \<Rightarrow> int \<Rightarrow> string" where
  "keys_bytes env args st ver =
     (if length args \<noteq> 1 then error_bytes ''wrong number of arguments for 'keys' command'' ver
      else if String (args ! 0) = ''*'' then raw (command_resp (kv_Keys st))
      else (case TranslatePattern (String (args ! 0)) of
          Inl err \<Rightarrow> error_bytes err ver
        | Inr re \<Rightarrow> (case regexp_compile env re of
            Inl err \<Rightarrow> error_bytes err ver
          | Inr match \<Rightarrow> raw (command_resp (filter match (kv_Keys st))))))"

interpretation keys_cmd: store_command "Keys_Execute env" for env
proof
  fix args
  show "acts_on_store (Keys_Execute env args)"
  proof (rule acts_store_cases)
    fix st assume "wf_store st"
    then show "\<exists>st' b err. wf_store st' \<and> (\<forall>s w. store s = st \<longrightarrow> Keys_Execute env args s w = Done (s\<lparr>store := st'\<rparr>) (emit (b (respVersion w)) w) err)"
      by (intro exI [of _ st] exI [of _ None] exI [of _ "keys_bytes env args st"])
        (auto simp: Keys_Execute_def keys_bytes_def reply_emit Let_def split: sum.splits)
  qed
qed

section \<open>The table\<close>

definition store_commands :: "command set" where
  "store_commands = {Echo, Ping, CSet, CGet, Keys, TypeCmd, Incr}"

text \<open>Every one of these commands, run by whatever part of the server, is a \<open>store_command\<close>.\<close>

lemma execute_store_command:
  "cmd \<in> store_commands \<Longrightarrow> acts_on_store (execute_plain env own c cmd args)"
  by (auto simp: store_commands_def execute_plain_def [abs_def] echo_cmd.acts ping_cmd.acts set_cmd.acts get_cmd.acts
      keys_cmd.acts type_cmd.acts incr_cmd.acts)

section \<open>Commands on the live strings\<close>

text \<open>The commands a master propagates: on two stores with the same live strings they leave the
  same live strings, and succeed or fail alike.\<close>

locale view_command = store_command exec for exec :: "resp list \<Rightarrow> server \<Rightarrow> writer \<Rightarrow> cres" +
  fixes env :: go_env
  assumes view: "wf_store (store s) \<Longrightarrow> wf_store (store t) \<Longrightarrow> live_string env (store s) = live_string env (store t) \<Longrightarrow>
    exec args s w = Done s' w' err \<Longrightarrow> exec args t v = Done t' v' err' \<Longrightarrow>
    live_string env (store s') = live_string env (store t') \<and> err = err'"
    and failed: "exec args s w = Done s' w' (Some e) \<Longrightarrow> store s' = store s"
begin

lemma view_effect:
  assumes "wf_store (store s)" and "wf_store (store t)" and "live_string env (store s) = live_string env (store t)"
  obtains st b st' b' err where "wf_store st" "wf_store st'" "live_string env st = live_string env st'"
    "err \<noteq> None \<longrightarrow> st = store s"
    "exec args s w = Done (s\<lparr>store := st\<rparr>) (emit b w) err" "exec args t v = Done (t\<lparr>store := st'\<rparr>) (emit b' v) err"
proof -
  obtain st b err where 1: "wf_store st" "exec args s w = Done (s\<lparr>store := st\<rparr>) (emit b w) err"
    using returns [OF assms(1)] by blast
  obtain st' b' err' where 2: "wf_store st'" "exec args t v = Done (t\<lparr>store := st'\<rparr>) (emit b' v) err'"
    using returns [OF assms(2)] by blast
  have "live_string env st = live_string env st' \<and> err = err'"
    using view [OF assms 1(2) 2(2)] by simp
  moreover have "err \<noteq> None \<longrightarrow> st = store s" using failed [of args s w] 1(2) by auto
  ultimately show thesis using 1 2 that [of st st' err b b'] by simp
qed

end

text \<open>The live strings after \<open>SET\<close>, from those before.\<close>

definition expired_at :: "go_env \<Rightarrow> 64 word \<Rightarrow> bool" where
  "expired_at env e \<longleftrightarrow> 0 < e \<and> e < now_u64 env"

lemma live_string_cong: "map_of st k = map_of st' k \<Longrightarrow> live_string env st k = live_string env st' k"
  by (cases "map_of st' k") (simp_all add: live_string_def kv_isExpired_def)

lemma set_store_view:
  "live_string env (set_store env opts k v st) =
    (if set_refused opts (live_string env st k) then live_string env st
     else (live_string env st)(k := if expired_at env (spec_expiry env opts) then None else Some v))"
proof (rule ext)
  fix k'
  have "live_string env (set_ttl env opts k (kv_Set (set_read env opts k st) k v)) k' =
      (if k' = k then (if expired_at env (spec_expiry env opts) then None else Some v) else live_string env st k')"
  proof (cases "k' = k")
    case True
    then show ?thesis
      by (simp add: live_string_def kv_isExpired_def set_ttl_lookup expired_at_def string_value_def)
  next
    case False
    have "live_string env (set_ttl env opts k (kv_Set (set_read env opts k st) k v)) k' = live_string env (set_read env opts k st) k'"
      by (rule live_string_cong) (simp add: set_ttl_lookup False)
    then show ?thesis using False by (simp add: set_read_facts)
  qed
  then show "live_string env (set_store env opts k v st) k' =
    (if set_refused opts (live_string env st k) then live_string env st
     else (live_string env st)(k := if expired_at env (spec_expiry env opts) then None else Some v)) k'"
    by (simp add: set_store_def set_read_facts)
qed

interpretation set_view: view_command "Set_Execute env" env for env
proof
  fix s t args w s' w' err v t' v' err'
  assume a: "wf_store (store s)" "wf_store (store t)" "live_string env (store s) = live_string env (store t)"
    "Set_Execute env args s w = Done s' w' err" "Set_Execute env args t v = Done t' v' err'"
  show "live_string env (store s') = live_string env (store t') \<and> err = err'"
    using a by (auto simp: Set_Execute_def Let_def reply_emit set_run_eq set_store_view split: if_splits sum.splits)
next
  show "store s' = store s" if "Set_Execute env args s w = Done s' w' (Some e)" for args s w s' w' e
    using that by (auto simp: Set_Execute_def Set_run_def Let_def reply_emit split: if_splits sum.splits go.splits prod.splits)
qed

interpretation incr_view: view_command "Incr_Execute env" env for env
proof
  fix s t args w s' w' err v t' v' err'
  assume a: "wf_store (store s)" "wf_store (store t)" "live_string env (store s) = live_string env (store t)"
    "Incr_Execute env args s w = Done s' w' err" "Incr_Execute env args t v = Done t' v' err'"
  show "live_string env (store s') = live_string env (store t') \<and> err = err'"
  proof (cases "length args = 1")
    case True
    then obtain x where x: "args = [x]" by (cases args) auto
    show ?thesis
      using incr_effect [OF a(1), of env x w] incr_effect [OF a(2), of env x v] a(3-5) unfolding x
      by (auto simp: reply_emit split: option.splits)
  next
    case False
    with a show ?thesis by (auto simp: Incr_Execute_def reply_emit)
  qed
next
  show "store s' = store s" if "Incr_Execute env args s w = Done s' w' (Some e)" for args s w s' w' e
    using that by (auto simp: Incr_Execute_def Let_def reply_emit split: if_splits sum.splits go.splits prod.splits)
qed

text \<open>The two commands as the table runs them.\<close>

lemma execute_view_command:
  assumes "cmd \<in> {CSet, Incr}" and "wf_store (store s)" and "wf_store (store t)"
    and "live_string (base env) (store s) = live_string (base env) (store t)"
  obtains st b st' b' err where "wf_store st" "wf_store st'" "live_string (base env) st = live_string (base env) st'"
    "err \<noteq> None \<longrightarrow> st = store s"
    "Execute env own c cmd args s w = Done (s\<lparr>store := st\<rparr>) (emit b w) err"
    "Execute env own' c' cmd args t v = Done (t\<lparr>store := st'\<rparr>) (emit b' v) err"
proof (cases "cmd = CSet")
  case True
  then have e: "Execute env own c cmd args = Set_Execute (base env) args" "Execute env own' c' cmd args = Set_Execute (base env) args"
    by (simp_all add: Execute_def execute_plain_def fun_eq_iff)
  show thesis by (rule set_view.view_effect [OF assms(2-4), of args w v]) (rule that, simp_all only: e)
next
  case False
  then have "cmd = Incr" using assms(1) by simp
  then have e: "Execute env own c cmd args = Incr_Execute (base env) args" "Execute env own' c' cmd args = Incr_Execute (base env) args"
    by (simp_all add: Execute_def execute_plain_def fun_eq_iff)
  show thesis by (rule incr_view.view_effect [OF assms(2-4), of args w v]) (rule that, simp_all only: e)
qed

end
