(* ===== verification/Server_Role.thy ===== *)
theory Server_Role
  imports Server_Inv
begin

text \<open>
  A frame law of the server: no command of a client, no blocking command, no ticker and no
  transaction touches the role of the process or its handshake with a master.
\<close>

section \<open>What serving clients does not touch\<close>

text \<open>The part of a server that belongs to its role and to the handshake with its master.\<close>

definition role :: "server \<Rightarrow> bool \<times> string \<times> string \<times> nat option \<times> handshake_step \<times> nat list \<times> nat \<times> nat option" where
  "role s = (isMaster s, masterAddr s, replicationID s, masterClient s, handshake s, responseWaitQueue s, requests s, sentRequest s)"

abbreviation keeps_role :: "server \<Rightarrow> server \<Rightarrow> bool" where
  "keeps_role s \<equiv> \<lambda>t. role t = role s"

lemma role_simps [simp]:
  "role (s\<lparr>store := st\<rparr>) = role s" "role (s\<lparr>cfg := cf\<rparr>) = role s" "role (s\<lparr>chans := h\<rparr>) = role s" "role (s\<lparr>srv_offset := off\<rparr>) = role s"
  "role (s\<lparr>cl_heap := cs\<rparr>) = role s" "role (s\<lparr>connected := k\<rparr>) = role s" "role (s\<lparr>replicas := rs\<rparr>) = role s"
  "role (s\<lparr>dump_file := b\<rparr>) = role s" "role (s\<lparr>streamOrder := so\<rparr>) = role s"
  "role (set_client c x s) = role s" "role (update_client c f s) = role s" "role (put_writer c w s) = role s"
  "role (removeReplica c s) = role s" "role (addReplica c s) = role s" "role (closeClient c s) = role s"
  "role (acceptConnection env c rid addr s) = role s"
  by (simp_all add: role_def put_writer_def update_client_def set_client_def removeReplica_def addReplica_def closeClient_def acceptConnection_def Let_def)

lemma role_conn_write: "conn_write c b s = (s', r) \<Longrightarrow> role s' = role s"
  by (auto simp: conn_write_def split: if_splits)

lemma role_send_writer: "send_writer env c s w = (s', r) \<Longrightarrow> role s' = role s"
  by (auto simp: send_writer_def Let_def split: if_splits prod.splits dest: role_conn_write)

lemma role_client_Send: "client_Send env c s = (s', r) \<Longrightarrow> role s' = role s"
  by (auto simp: client_Send_def split: prod.splits dest: role_send_writer)

lemma role_writeError: "writeError c err s = (s', r) \<Longrightarrow> role s' = role s"
  by (auto simp: writeError_def)

lemma role_store_commands:
  "leaves (keeps_role s) (Echo_Execute args s w)" "leaves (keeps_role s) (Ping_Execute args s w)"
  "leaves (keeps_role s) (Get_Execute env args s w)" "leaves (keeps_role s) (Set_Execute env args s w)"
  "leaves (keeps_role s) (Incr_Execute env args s w)" "leaves (keeps_role s) (Type_Execute args s w)"
  "leaves (keeps_role s) (Keys_Execute cenv args s w)"
  by (simp_all add: Echo_Execute_def Ping_Execute_def Get_Execute_def Set_Execute_def Set_run_def Incr_Execute_def Type_Execute_def
      Keys_Execute_def Let_def split: prod.splits go.splits sum.splits option.splits)

lemma role_stream_commands:
  "leaves (keeps_role s) (XAdd_run env sid opts eid flds s w)" "leaves (keeps_role s) (XAdd_Execute env args s w)"
  "leaves (keeps_role s) (XRange_Execute env args s w)" "leaves (keeps_role s) (XRead_writeResult v order result s w)"
  "leaves (keeps_role s) (XRead_Execute env c args s w)" "leaves (keeps_role s) (XRead_subscribe env keys block s w)"
  "leaves (keeps_role s) (xread_wake env c subs sel d chosen s w)"
proof -
  show add: "leaves (keeps_role s) (XAdd_run env sid opts eid flds s w)" for opts eid flds sid
    by (simp add: XAdd_run_def Let_def split: prod.splits go.splits sum.splits option.splits)
  then show "leaves (keeps_role s) (XAdd_Execute env args s w)"
    by (simp add: XAdd_Execute_def Let_def split: xadd_parse.splits)
  show "leaves (keeps_role s) (XRange_Execute env args s w)"
    by (simp add: XRange_Execute_def split: option.splits sum.splits prod.splits go.splits)
  have wr: "leaves (\<lambda>t. role t = role s) (XRead_writeResult v order result s' w)" if "role s' = role s" for v order result s' w
    using that by (simp add: XRead_writeResult_def split: go.splits)
  then show "leaves (keeps_role s) (XRead_writeResult v order result s w)" by simp
  show "leaves (keeps_role s) (XRead_Execute env c args s w)"
    by (auto simp: XRead_Execute_def Let_def split: sum.splits prod.splits go.splits option.splits intro!: wr)
  show "leaves (keeps_role s) (XRead_subscribe env keys block s w)"
    by (simp add: XRead_subscribe_def split: sum.splits prod.splits go.splits)
  show "leaves (keeps_role s) (xread_wake env c subs sel d chosen s w)"
    by (auto simp: xread_wake_def Let_def split: select_case.splits option.splits prod.splits list.splits intro!: wr)
qed

lemma role_server_commands:
  "leaves (keeps_role s) (Hello_Execute c args s w)" "leaves (keeps_role s) (Client_Execute env c args s w)"
  "leaves (keeps_role s) (Config_Execute env c args s w)" "leaves (keeps_role s) (Info_Execute env args s w)"
  "leaves (keeps_role s) (ReplConf_Execute env c args s w)" "leaves (keeps_role s) (Save_Execute cenv s w)"
  "leaves (keeps_role s) (Wait_Execute env c args s w)" "leaves (keeps_role s) (wait_round env n t st off s w)"
  "leaves (keeps_role s) (Multi_Execute c args s w)" "leaves (keeps_role s) (Discard_Execute c args s w)"
  by (auto simp: Hello_Execute_def Client_Execute_def Config_Execute_def Config_handleGet_def Config_handleSet_def Info_Execute_def
      ReplConf_Execute_def Save_Execute_def Wait_Execute_def wait_round_def Multi_Execute_def Discard_Execute_def
      Let_def split: sum.splits prod.splits option.splits list.splits)

lemma role_psync: "leaves (keeps_role s) (Psync_Execute env own c args s w)"
proof -
  have send: "role s' = role s" if "psync_send env own c s w = (s', r)" for s s' w r
    using that by (auto simp: psync_send_def split: if_splits prod.splits dest: role_send_writer role_client_Send)
  show ?thesis
    by (auto simp: Psync_Execute_def Let_def split: prod.splits option.splits sum.splits bool.splits dest!: send role_conn_write)
qed

lemma role_execute_plain: "leaves (keeps_role s) (execute_plain env own c cmd args s w)"
  by (cases cmd) (simp_all add: execute_plain_def role_store_commands role_stream_commands role_server_commands role_psync)

lemma role_fold: "(\<And>x s. role (f x s) = role s) \<Longrightarrow> role (fold f xs s) = role s"
  by (induction xs arbitrary: s) simp_all

lemma role_send_to_replica: "role (send_to_replica b r s) = role s"
  by (auto simp: send_to_replica_def Let_def split: prod.splits dest: role_conn_write)

lemma role_propagate: "PropagateCommand c r s = Ret s' \<Longrightarrow> role s' = role s"
  by (auto simp: PropagateCommand_def Let_def role_fold role_send_to_replica split: go.splits)

lemma role_exec_after: "exec_after env c r rs s buf err = Ret (s', rs') \<Longrightarrow> role s' = role s"
  by (auto simp: exec_after_def Let_def split: go.splits list.splits if_splits dest: role_propagate)

lemma role_exec_queue: "role s = R \<Longrightarrow> leaves (\<lambda>t. role t = R) (exec_queue env c queue rs s w)"
proof (induction env c queue rs s w rule: exec_queue.induct)
  case (2 env c r queue rs s w)
  show ?case
  proof (cases "\<exists>n args cmd. resp_array r = Ret (n # args) \<and> GetCommand (ToLower (base env) (String n)) = Inr cmd")
    case True
    then obtain n args cmd where l: "resp_array r = Ret (n # args)" and g: "GetCommand (ToLower (base env) (String n)) = Inr cmd" by blast
    define res where "res = execute_plain env False c cmd args s (NewWriter (preferredRespVersion (client_of s c)))"
    have lv: "leaves (\<lambda>t. role t = R) res" using role_execute_plain [of s env False c cmd args] "2.prems" by (simp add: res_def)
    show ?thesis
    proof (cases "\<exists>s1 buf err p. res = Done s1 buf err \<and> exec_after (base env) c r rs s1 buf err = Ret p")
      case True
      then obtain s1 buf err s2 rs2 where d: "res = Done s1 buf err" and e: "exec_after (base env) c r rs s1 buf err = Ret (s2, rs2)" by force
      have "role s2 = R" using role_exec_after [OF e] lv d by simp
      with "2.IH"(2) [OF l refl g d [unfolded res_def] e refl] show ?thesis
        using d e by (simp add: l g res_def [symmetric])
    next
      case False
      with lv show ?thesis by (cases res) (auto simp: l g res_def [symmetric] split: go.splits)
    qed
  next
    case False
    with 2 show ?thesis by (auto split: go.splits list.splits sum.splits)
  qed
qed simp

lemma role_execute: "leaves (keeps_role s) (Execute env own c cmd args s w)"
  by (simp add: Execute_def Exec_Execute_def role_execute_plain role_exec_queue)

lemma role_resume: "leaves (keeps_role s) (resume env c chosen b s w)"
proof (induction b arbitrary: w)
  case (BlockedExec b buf r queue rs)
  from BlockedExec [of buf] show ?case
    by (cases "resume env c chosen b s buf") (auto split: go.splits intro!: role_exec_queue dest!: role_exec_after)
qed (simp_all add: role_stream_commands role_server_commands)

section \<open>The server keeps it\<close>

lemma role_finish [simp]: "role (finish_message env c err s) = role s"
  by (auto simp: finish_message_def split: prod.splits option.splits dest: role_client_Send)

lemma role_finish_blocking [simp]: "role (finish_blocking env c s w err) = role s"
  by (auto simp: finish_blocking_def Let_def split: option.splits prod.splits dest!: role_writeError)

lemma role_getack [simp]: "role (sendReplConfGetAckToAllReplicas env s) = role s"
proof -
  have "role (getack_replica env r s) = role s" for r s
    by (auto simp: getack_replica_def split: prod.splits option.splits dest: role_client_Send)
  then show ?thesis by (simp add: sendReplConfGetAckToAllReplicas_def Let_def role_fold)
qed

lemma role_ping [simp]: "role (pingReplicas env s) = role s"
proof -
  have "role s' = role s" if "sendPing env r s = (s', ok)" for r s s' ok
    using that by (auto simp: sendPing_def Let_def split: prod.splits bool.splits dest!: role_client_Send role_conn_write)
  then have "role (ping_replica env r s) = role s" for r s by (auto simp: ping_replica_def split: prod.splits)
  then show ?thesis by (simp add: pingReplicas_def role_fold)
qed

lemma role_after_execute: "after_execute env c r cmdName args s w err = Ret (s', r') \<Longrightarrow> role s' = role s"
  by (auto simp: after_execute_def Let_def split: option.splits go.splits if_splits dest!: role_propagate role_writeError)

lemma role_run_message: "hleaves (keeps_role s) (run_message env c r cmdName cmd args s)"
  using role_execute [of s env True c cmd args "Writer (client_of s c)"]
  by (auto simp: run_message_def split: cres.splits go.splits dest!: role_after_execute)

lemma role_handleMessage: "hleaves (keeps_role s) (handleMessage env c r s)"
  using role_run_message [of s env c r] role_run_message [of "sendReplConfGetAckToAllReplicas env s" env c r]
  by (auto simp: handleMessage_def Let_def split: go.splits list.splits sum.splits prod.splits dest: role_writeError)

lemma role_blocking_result: "leaves (keeps_role s) res \<Longrightarrow> role (srv n) = role s \<Longrightarrow> role (srv (blocking_result env c res n)) = role s"
  by (auto simp: blocking_result_def split: cres.splits)

lemma role_step: "role (srv (step env ev n)) = role (srv n)"
proof (cases ev)
  case (Message c r)
  with role_handleMessage [of "srv n" env c r] show ?thesis by (auto simp: step_def loop_message_def split: hres.splits)
next
  case (WakeLoop chosen)
  have "role (srv (loop_resume env chosen c r b n)) = role (srv n)" for c r b
    using role_resume [of "srv n" env c chosen b "Writer (client_of (srv n) c)"]
    by (auto simp: loop_resume_def split: cres.splits go.splits list.splits dest!: role_after_execute)
  with WakeLoop show ?thesis by (auto simp: step_def split: option.splits)
qed (auto simp: step_def role_execute role_resume split: prod.splits intro!: role_blocking_result)

end
