(* ===== verification/Replica_Inv.thy ===== *)
theory Replica_Inv
  imports Server_Role
begin

text \<open>
  The connection to a master keeps the invariant of the server, its role and a finished handshake.
\<close>

section \<open>The replica keeps the invariant\<close>

text \<open>What the connection to the master may change of a replica: never its role, and never a finished handshake.\<close>

definition fixed :: "server \<Rightarrow> bool \<times> string \<times> string" where
  "fixed s = (isMaster s, masterAddr s, replicationID s)"

definition steady :: "go_env \<Rightarrow> server \<Rightarrow> server \<Rightarrow> bool" where
  "steady e s t \<longleftrightarrow> fixed t = fixed s \<and> (server_ok e s \<longrightarrow> server_ok e t) \<and> (handshake s = Synced \<longrightarrow> handshake t = Synced)"

lemma steady_refl [simp]: "steady e s s"
  by (simp add: steady_def)

lemma steady_trans: "steady e s t \<Longrightarrow> steady e t u \<Longrightarrow> steady e s u"
  by (auto simp: steady_def)

lemma steady_role: "role t = role s \<Longrightarrow> (server_ok e s \<Longrightarrow> server_ok e t) \<Longrightarrow> steady e s t"
  by (auto simp: steady_def fixed_def role_def)

lemma server_ok_master [simp]:
  "server_ok e (s\<lparr>responseWaitQueue := q\<rparr>) = server_ok e s" "server_ok e (s\<lparr>requests := k\<rparr>) = server_ok e s"
  "server_ok e (s\<lparr>handshake := h\<rparr>) = server_ok e s" "server_ok e (s\<lparr>masterClient := mc\<rparr>) = server_ok e s"
  "server_ok e (s\<lparr>sentRequest := sr\<rparr>) = server_ok e s"
  by (simp_all add: server_ok_def known_def)

lemma steady_queue: "steady e s (queue_request s)"
  by (simp add: queue_request_def steady_def fixed_def split: option.splits)

lemma steady_sender: "commandSender env m cmd s = (s', r) \<Longrightarrow> steady e s s'"
proof -
  assume a: "commandSender env m cmd s = (s', r)"
  let ?s = "s\<lparr>requests := requests s + 1\<rparr>"
  obtain s1 err where s1: "client_Send env m (put_writer m (emit cmd (Writer (client_of ?s m))) ?s) = (s1, err)" by fastforce
  have "role s1 = role ?s" using role_client_Send [OF s1] by simp
  moreover have "server_ok e s \<Longrightarrow> server_ok e s1" by (rule ok_client_Send [OF ok_put_writer s1]) simp
  ultimately show ?thesis using a s1
    by (auto simp: commandSender_def Let_def steady_def fixed_def role_def split: option.splits)
qed

lemma steady_fail: "handshake s \<noteq> Synced \<Longrightarrow> steady e s (fail_handshake st err s)"
  by (simp add: steady_def fixed_def fail_handshake_def)

lemma steady_begin:
  assumes "handshake s \<noteq> Synced"
  shows "steady e s (begin_step env m st s)"
proof -
  obtain s1 r where s1: "commandSender env m (step_command (base env) st s) s = (s1, r)" by fastforce
  have "steady e s s1" by (rule steady_sender [OF s1])
  with assms s1 show ?thesis by (cases r) (auto simp: begin_step_def steady_def fixed_def fail_handshake_def)
qed

lemma steady_dispatch: "steady e s (dispatchResponse env m r s)"
proof (cases "responseWaitQueue s")
  case (Cons req q)
  let ?s = "s\<lparr>responseWaitQueue := q\<rparr>"
  have "steady e ?s (handshake_answer env m r ?s)" if "awaiting ?s"
  proof -
    have "handshake ?s \<noteq> Synced" using that by (auto simp: awaiting_def)
    then show ?thesis
      using steady_begin [of ?s e env m] steady_fail [of ?s e]
      by (auto simp: handshake_answer_def Let_def simp del: not_None_eq) (simp add: steady_def fixed_def)
  qed
  moreover have "steady e s ?s" by (simp add: steady_def fixed_def)
  ultimately show ?thesis using Cons by (auto simp: dispatchResponse_def Let_def intro: steady_trans)
qed (simp add: dispatchResponse_def)

lemma receiveRDB_wf: "wf_store st \<Longrightarrow> receiveRDB env input st = Ret (st', rest) \<Longrightarrow> wf_store st'"
  by (auto simp: receiveRDB_def Let_def RestoreRDB_def ParseRDB_store split: option.splits prod.splits if_splits sum.splits)

lemma steady_getack: "steady e s (respondToGetAck env m s)"
proof -
  let ?s = "put_writer m (emit (CreateCommand [''REPLCONF'', ''ACK'', FormatUint (srv_offset s)]) (Writer (client_of s m))) s"
  obtain s1 err where s1: "client_Send env m ?s = (s1, err)" by fastforce
  have "steady e s s1"
    by (rule steady_role) (use role_client_Send [OF s1] in simp, rule ok_client_Send [OF ok_put_writer s1])
  with s1 show ?thesis by (simp add: respondToGetAck_def Let_def)
qed

lemma steady_execute: "leaves (steady e s) (Execute env own c cmd args s w)"
  using role_execute [of s env own c cmd args w] ok_execute [of e s env own c cmd args w]
  by (cases "Execute env own c cmd args s w") (auto intro: steady_role)

lemma steady_snapshot: "receiveRDB env input (store s) = Ret (st, rest) \<Longrightarrow> steady e s (s\<lparr>store := st\<rparr>)"
  by (rule steady_role) (auto intro: receiveRDB_wf [OF server_ok_store])

lemma steady_response:
  "handleMasterResponse env m r input s = MDone t rest \<Longrightarrow> steady e s t"
  "handleMasterResponse env m r input s = MWaits t b \<Longrightarrow> steady e s t"
  using steady_getack [of e s env m]
  by (auto simp: handleMasterResponse_def Let_def split: if_splits go.splits prod.splits list.splits sum.splits cres.splits
      dest: leaves_Done [OF steady_execute] leaves_Blocks [OF steady_execute] intro: steady_snapshot)

lemma steady_part:
  "master_part env m buffer part input s = MRound b t rest \<Longrightarrow> steady e s t"
  "master_part env m buffer part input s = MRoundWaits t bl \<Longrightarrow> steady e s t"
proof -
  have off: "steady e s (t\<lparr>srv_offset := k\<rparr>)" if "steady e s t" for t k
    using that by (rule steady_trans) (rule steady_role; simp)
  note resp = steady_trans [OF steady_dispatch steady_response(1)] steady_trans [OF steady_dispatch steady_response(2)]
  show "master_part env m buffer part input s = MRound b t rest \<Longrightarrow> steady e s t"
    "master_part env m buffer part input s = MRoundWaits t bl \<Longrightarrow> steady e s t"
    by (auto simp: master_part_def Let_def split: pres.splits mres.splits dest: resp intro!: off)
qed

lemma steady_master:
  "handleMasterConnection env m buffer input s = MReady b t \<Longrightarrow> steady e s t"
  "handleMasterConnection env m buffer input s = MStuck t bl \<Longrightarrow> steady e s t"
proof (induction env m buffer input s rule: handleMasterConnection.induct)
  case (1 env m buffer input s)
  { case 1
    with "1.IH"(1) show ?case
      by (subst (asm) (2) handleMasterConnection.simps)
        (auto split: option.splits prod.splits mround.splits dest: steady_part intro: steady_trans [OF steady_part(1)])
  next
    case 2
    with "1.IH"(2) show ?case
      by (subst (asm) (2) handleMasterConnection.simps)
        (auto split: option.splits prod.splits mround.splits dest: steady_part intro: steady_trans [OF steady_part(1)]) }
qed

lemma steady_connect: "handshake s = NotStarted \<Longrightarrow> steady e s (connect_master env m s)"
proof -
  assume h: "handshake s = NotStarted"
  let ?s = "(set_client m (NewClient (base env) (masterAddr s)) s)\<lparr>masterClient := Some m\<rparr>"
  have "steady e s ?s" using h by (simp add: steady_def fixed_def ok_set_client set_client_def [of m "NewClient (base env) (masterAddr s)" s, symmetric])
  moreover have "steady e ?s (connect_master env m s)"
    using steady_begin [of ?s e env m AwaitPing] h by (simp add: connect_master_def startReplication_def)
  ultimately show ?thesis by (rule steady_trans)
qed

lemma steady_timeout: "steady e s (handshake_timeout s)"
  by (auto simp: handshake_timeout_def awaiting_def intro!: steady_fail)

end
