(* ===== verification/Transaction_Props.thy ===== *)
theory Transaction_Props
  imports Command_Contract Replica_Inv
begin

text \<open>
  The properties of the server loop and of transactions: the invariant over all runs, what
  \<open>MULTI\<close> puts off, and that \<open>EXEC\<close> does what the same commands would have done one by one.
\<close>

section \<open>Runs\<close>

text \<open>The states a process can reach from its start, with any clock and outside world but fixed
  Unicode tables: by the events of \<open>step\<close> and, on a replica, by the connection to the master, the steps of
  the handshake, and whatever bytes the master sends.\<close>

inductive reachable :: "go_env \<Rightarrow> node \<Rightarrow> bool" for e where
  start: "NewServer env cf rid = Ret s \<Longrightarrow> load_file cenv content s = Inr s' \<Longrightarrow> reachable e (new_node s')"
| event: "reachable e n \<Longrightarrow> lower_u (base env) = lower_u e \<Longrightarrow> reachable e (step env ev n)"
| connect: "reachable e n \<Longrightarrow> \<not> isMaster (srv n) \<Longrightarrow> handshake (srv n) = NotStarted \<Longrightarrow> m \<notin> fst ` set (cl_heap (srv n)) \<Longrightarrow>
    reachable e (n\<lparr>srv := connect_master env m (srv n)\<rparr>)"
| queued: "reachable e n \<Longrightarrow> reachable e (n\<lparr>srv := queue_request (srv n)\<rparr>)"
| timeout: "reachable e n \<Longrightarrow> reachable e (n\<lparr>srv := handshake_timeout (srv n)\<rparr>)"
| master: "reachable e n \<Longrightarrow> \<not> down n \<Longrightarrow> masterClient (srv n) = Some m \<Longrightarrow>
    handleMasterConnection env m buffer input (srv n) = MReady buffer' s \<Longrightarrow> reachable e (n\<lparr>srv := s\<rparr>)"
| master_waits: "reachable e n \<Longrightarrow> \<not> down n \<Longrightarrow> masterClient (srv n) = Some m \<Longrightarrow>
    handleMasterConnection env m buffer input (srv n) = MStuck s b \<Longrightarrow> reachable e (n\<lparr>srv := s\<rparr>)"
| master_panics: "reachable e n \<Longrightarrow> handleMasterConnection env m buffer input (srv n) = MPanic \<Longrightarrow> reachable e (n\<lparr>down := True\<rparr>)"
| master_closes: "reachable e n \<Longrightarrow> masterClient (srv n) = Some m \<Longrightarrow> reachable e (n\<lparr>srv := update_client m Close (srv n)\<rparr>)"

lemma NewServer_ok: "NewServer env cf rid = Ret s \<Longrightarrow> server_ok e s"
  by (auto simp: NewServer_def Let_def server_ok_def NewStore_def wf_store_def split: if_splits)

lemma load_file_ok: "server_ok e s \<Longrightarrow> load_file env content s = Inr s' \<Longrightarrow> server_ok e s'"
  by (auto simp: load_file_def RestoreRDB_def ParseRDB_store split: option.splits sum.splits)

lemma reachable_ok: "reachable e n \<Longrightarrow> server_ok e (srv n)"
proof (induction rule: reachable.induct)
  case (start env cf rid s cenv content s')
  then show ?case by (simp add: new_node_def load_file_ok [OF NewServer_ok])
next
  case (event n env ev)
  then show ?case using ok_step [of e n env ev] by (simp add: node_ok_def)
next
  case (connect n m env)
  then show ?case using steady_connect [of "srv n" e env m] by (simp add: steady_def)
next
  case (queued n)
  then show ?case using steady_queue [of e "srv n"] by (simp add: steady_def)
next
  case (timeout n)
  then show ?case using steady_timeout [of e "srv n"] by (simp add: steady_def)
next
  case (master n m env buffer input buffer' s)
  then show ?case using steady_master(1) [OF master(4), of e] by (simp add: steady_def)
next
  case (master_waits n m env buffer input s b)
  then show ?case using steady_master(2) [OF master_waits(4), of e] by (simp add: steady_def)
qed (simp_all add: ok_update)

lemma plain_command_cases:
  assumes "plain_command e r"
  shows "\<exists>nm args cmd. resp_array r = Ret (nm # args) \<and> GetCommand (ToLower e (String nm)) = Inr cmd \<and> cmd \<notin> {Multi, Exec, Discard}"
proof -
  from assms obtain nm args where r: "resp_array r = Ret (nm # args)" "ToLower e (String nm) \<in> fst ` set commands"
    "ToLower e (String nm) \<notin> set TransactionCommands"
    by (auto simp: plain_command_def split: go.splits list.splits)
  then obtain cmd where "GetCommand (ToLower e (String nm)) = Inr cmd" "cmd \<notin> {Multi, Exec, Discard}"
    by (auto simp: GetCommand_def commands_def TransactionCommands_def)
  with r show ?thesis by blast
qed

text \<open>C1: the invariant of the server over every run of clients, blocking commands, wake-ups and timers and,
  on a replica, of its master: the key space is well formed; every replica and every connection is
  a client object, and none is listed twice; a client has queued commands only inside a transaction,
  and each queued command is one the table knows and none of \<open>MULTI\<close>, \<open>EXEC\<close> and \<open>DISCARD\<close> (so \<open>EXEC\<close> never
  calls itself).\<close>

theorem server_invariant:
  assumes "reachable e n"
  shows "wf_store (store (srv n)) \<and> distinct (replicas (srv n)) \<and> distinct (connected (srv n)) \<and>
    set (replicas (srv n)) \<union> set (connected (srv n)) \<subseteq> fst ` set (cl_heap (srv n)) \<and>
    (\<forall>c x r. map_of (cl_heap (srv n)) c = Some x \<longrightarrow> r \<in> set (txQueue x) \<longrightarrow> inTransaction x \<and>
      (\<exists>nm args cmd. resp_array r = Ret (nm # args) \<and> GetCommand (ToLower e (String nm)) = Inr cmd \<and> cmd \<notin> {Multi, Exec, Discard}))"
proof -
  have ok: "server_ok e (srv n)" by (rule reachable_ok [OF assms])
  have "inTransaction x \<and> plain_command e r" if "map_of (cl_heap (srv n)) c = Some x" "r \<in> set (txQueue x)" for c x r
  proof -
    have "client_ok e x" using ok that(1) by (auto simp: server_ok_def dest!: map_of_SomeD)
    then show ?thesis using that(2) by (auto simp: client_ok_def)
  qed
  with ok plain_command_cases [of e] show ?thesis unfolding server_ok_def known_def by blast
qed

section \<open>MULTI\<close>

lemma map_put_put [simp]: "map_put (map_put m k a) k b = map_put m k b"
  by (induction m) auto

lemma set_client_twice [simp]: "set_client c y (set_client c x s) = set_client c y s"
  by (simp add: set_client_def)

lemma ToLower_ascii: "list_all ascii a \<Longrightarrow> map lower_char a = b \<Longrightarrow> ToLower env a = b"
  by (simp add: ToLower_def)

text \<open>A reply to an open connection with nothing buffered.\<close>

lemma finish_reply:
  assumes "\<not> closed x" and "written (Writer x) = []" and "b \<noteq> []"
  shows "finish_message env c None (set_client c (x\<lparr>Writer := emit b (Writer x)\<rparr>) s) = set_client c (x\<lparr>conn_out := conn_out x @ b\<rparr>) s"
proof -
  have w: "(Writer x)\<lparr>written := []\<rparr> = Writer x" using assms(2) by (cases "Writer x") simp
  have "finish_message env c None (set_client c (x\<lparr>Writer := emit b (Writer x)\<rparr>) s)
      = set_client c (x\<lparr>conn_out := conn_out x @ b, Writer := (Writer x)\<lparr>written := []\<rparr>\<rparr>) s"
    using assms
    by (simp add: finish_message_def client_Send_def send_writer_def Flush_def Let_def conn_write_def update_client_def emit_def)
  also have "x\<lparr>conn_out := conn_out x @ b, Writer := (Writer x)\<lparr>written := []\<rparr>\<rparr> = x\<lparr>conn_out := conn_out x @ b\<rparr>"
    unfolding w by simp
  finally show ?thesis .
qed

definition idle :: "client \<Rightarrow> bool" where
  "idle x \<longleftrightarrow> \<not> closed x \<and> written (Writer x) = []"

lemma loop_queues:
  assumes "plain_command (base env) r" and "client_of (srv n) c = x" and "idle x" and "inTransaction x"
  shows "loop_message env c r n = n\<lparr>srv := set_client c
    (x\<lparr>txQueue := txQueue x @ [r], conn_out := conn_out x @ ''+QUEUED'' @ crlf\<rparr>) (srv n)\<rparr>"
proof -
  obtain nm args where r: "resp_array r = Ret (nm # args)" "ToLower (base env) (String nm) \<in> fst ` set commands"
    "ToLower (base env) (String nm) \<notin> set TransactionCommands"
    using assms(1) by (auto simp: plain_command_def split: go.splits list.splits)
  then obtain cmd where cmd: "GetCommand (ToLower (base env) (String nm)) = Inr cmd"
    by (auto simp: GetCommand_def commands_def)
  let ?x = "EnqueueCommand r x"
  have "handleMessage env c r (srv n) = Handled (set_client c (?x\<lparr>Writer := emit (''+QUEUED'' @ crlf) (Writer ?x)\<rparr>) (srv n)) None"
    using assms r cmd
    by (simp add: handleMessage_def IsInTransaction_def put_writer_def update_client_def write_simple)
  moreover have "finish_message env c None (set_client c (?x\<lparr>Writer := emit (''+QUEUED'' @ crlf) (Writer ?x)\<rparr>) (srv n))
      = set_client c (?x\<lparr>conn_out := conn_out ?x @ ''+QUEUED'' @ crlf\<rparr>) (srv n)"
    using assms(3) by (intro finish_reply) (simp_all add: idle_def EnqueueCommand_def)
  ultimately show ?thesis by (simp add: loop_message_def EnqueueCommand_def)
qed

lemma loop_queues_all:
  assumes "\<forall>r \<in> set rs. plain_command (base env) r" and "client_of (srv n) c = x" and "idle x" and "inTransaction x"
    and "n' = fold (loop_message env c) rs n"
  shows "srv n' = (if rs = [] then srv n else set_client c
      (x\<lparr>txQueue := txQueue x @ rs, conn_out := conn_out x @ concat (replicate (length rs) (''+QUEUED'' @ crlf))\<rparr>) (srv n))
    \<and> n' = n\<lparr>srv := srv n'\<rparr>"
  using assms
proof (induction rs arbitrary: n x n')
  case (Cons r rs)
  let ?x = "x\<lparr>txQueue := txQueue x @ [r], conn_out := conn_out x @ ''+QUEUED'' @ crlf\<rparr>"
  have 1: "loop_message env c r n = n\<lparr>srv := set_client c ?x (srv n)\<rparr>"
    using Cons.prems by (intro loop_queues) simp_all
  have "idle ?x" "inTransaction ?x" using Cons.prems by (simp_all add: idle_def)
  with Cons.IH [of "n\<lparr>srv := set_client c ?x (srv n)\<rparr>" ?x n'] Cons.prems show ?case
    by (auto simp: 1)
qed simp

text \<open>C18: a transaction is put off as a whole. After \<open>MULTI\<close> and any commands that may be queued, on an
  open connection, the server differs from the one before only in this client: it is in a
  transaction, its queue holds exactly these commands in their order, and it has been sent \<open>OK\<close> and
  one \<open>QUEUED\<close> per command. Neither the key space nor the offset nor a replica has changed.\<close>

theorem multi_puts_off:
  assumes "client_of (srv n) c = x" and "idle x" and "\<not> inTransaction x"
    and "\<forall>r \<in> set rs. plain_command (base env) r"
  shows "fold (loop_message env c) (command_resp [''MULTI''] # rs) n = n\<lparr>srv := set_client c
    (x\<lparr>inTransaction := True, txQueue := rs,
       conn_out := conn_out x @ ''+OK'' @ crlf @ concat (replicate (length rs) (''+QUEUED'' @ crlf))\<rparr>) (srv n)\<rparr>"
proof -
  let ?x = "x\<lparr>inTransaction := True, txQueue := [], conn_out := conn_out x @ ''+OK'' @ crlf\<rparr>"
  let ?y = "StartTransaction x"
  have "ToLower (base env) ''MULTI'' = ''multi''" by (rule ToLower_ascii) code_simp+
  moreover have "resp_array (command_resp [''MULTI'']) = Ret [bulk ''MULTI'']"
    by (simp add: resp_array_def command_resp_def array_resp_def)
  ultimately have "handleMessage env c (command_resp [''MULTI'']) (srv n)
      = Handled (set_client c (?y\<lparr>Writer := emit (''+OK'' @ crlf) (Writer ?y)\<rparr>) (srv n)) None"
    using assms(1,3)
    by (simp add: handleMessage_def GetCommand_def commands_def TransactionCommands_def IsBlocking_def run_message_def
        Execute_def execute_plain_def Multi_Execute_def IsInTransaction_def write_ok_emit after_execute_def WriteableCommands_def
        put_writer_def update_client_def StartTransaction_def)
  moreover have "finish_message env c None (set_client c (?y\<lparr>Writer := emit (''+OK'' @ crlf) (Writer ?y)\<rparr>) (srv n))
      = set_client c (?y\<lparr>conn_out := conn_out ?y @ ''+OK'' @ crlf\<rparr>) (srv n)"
    using assms(2) by (intro finish_reply) (simp_all add: idle_def StartTransaction_def)
  ultimately have 1: "loop_message env c (command_resp [''MULTI'']) n = n\<lparr>srv := set_client c ?x (srv n)\<rparr>"
    by (simp add: loop_message_def StartTransaction_def)
  have "idle ?x" "inTransaction ?x" using assms(2) by (simp_all add: idle_def)
  with loop_queues_all [OF assms(4), of "n\<lparr>srv := set_client c ?x (srv n)\<rparr>" c ?x] show ?thesis
    by (cases "rs = []") (auto simp: 1)
qed

section \<open>Examples\<close>

definition plain_cmd_env :: "int \<Rightarrow> cmd_env" where
  "plain_cmd_env t = \<lparr>base = plain_env t, regexp_compile = (\<lambda>re. Inl ''no regexp''), lzf_decompress = (\<lambda>c n. Inl ''no lzf''),
     create_error = None, closed_error = ''closed''\<rparr>"

definition message :: "nat \<Rightarrow> string list \<Rightarrow> event" where
  "message c args = Message c (command_resp args)"

definition example_run :: "event list \<Rightarrow> node" where
  "example_run evs = run (map (\<lambda>e. (plain_cmd_env 0, e)) evs) (new_node example_server)"

lemma example_reachable: "reachable (plain_env 0) (example_run evs)"
proof -
  have "load_file (plain_cmd_env 0) None example_server = Inr example_server" by (simp add: load_file_def)
  then have 1: "reachable (plain_env 0) (new_node example_server)" by (rule reachable.start [OF NewServer_example])
  have "reachable (plain_env 0) (run (map (\<lambda>e. (plain_cmd_env 0, e)) evs) n)" if "reachable (plain_env 0) n" for n
    using that unfolding run_def
    by (induction evs arbitrary: n) (simp_all add: reachable.event plain_cmd_env_def)
  with 1 show ?thesis by (simp add: example_run_def)
qed

theorem server_invariant_witness:
  "wf_store (store (srv (example_run [Accept 1 ''id'' ''addr'', message 1 [''MULTI''], message 1 [''PING'']]))) \<and>
   (\<exists>nm args cmd. resp_array (command_resp [''PING'']) = Ret (nm # args) \<and>
      GetCommand (ToLower (plain_env 0) (String nm)) = Inr cmd \<and> cmd \<notin> {Multi, Exec, Discard})"
proof -
  let ?n = "example_run [Accept 1 ''id'' ''addr'', message 1 [''MULTI''], message 1 [''PING'']]"
  have "map_option txQueue (map_of (cl_heap (srv ?n)) 1) = Some [command_resp [''PING'']]" by code_simp
  then obtain x where "map_of (cl_heap (srv ?n)) 1 = Some x" "command_resp [''PING''] \<in> set (txQueue x)" by auto
  with server_invariant [OF example_reachable, of "[Accept 1 ''id'' ''addr'', message 1 [''MULTI''], message 1 [''PING'']]"] show ?thesis by blast
qed

theorem multi_puts_off_witness:
  "fold (loop_message (plain_cmd_env 0) 1) [command_resp [''MULTI''], command_resp [''GET'', ''k'']] (example_run [Accept 1 ''id'' ''addr''])
    = (example_run [Accept 1 ''id'' ''addr''])\<lparr>srv := set_client 1
      ((client_of (srv (example_run [Accept 1 ''id'' ''addr''])) 1)\<lparr>inTransaction := True, txQueue := [command_resp [''GET'', ''k'']],
         conn_out := ''+OK'' @ crlf @ ''+QUEUED'' @ crlf\<rparr>) (srv (example_run [Accept 1 ''id'' ''addr'']))\<rparr>"
proof -
  let ?n = "example_run [Accept 1 ''id'' ''addr'']"
  let ?x = "client_of (srv ?n) 1"
  have x: "\<not> closed ?x" "written (Writer ?x) = []" "\<not> inTransaction ?x" "conn_out ?x = []" by code_simp+
  have "plain_command (base (plain_cmd_env 0)) (command_resp [''GET'', ''k''])" by code_simp
  with multi_puts_off [of ?n 1 ?x "[command_resp [''GET'', ''k'']]" "plain_cmd_env 0"] x show ?thesis
    by (simp add: idle_def)
qed

section \<open>EXEC\<close>

text \<open>Servers that agree up to the transaction and the reply buffer of one client.\<close>

definition erase :: "client \<Rightarrow> client" where
  "erase x = x\<lparr>Writer := NewWriter 0, inTransaction := False, txQueue := []\<rparr>"

definition agree :: "nat \<Rightarrow> server \<Rightarrow> server \<Rightarrow> bool" where
  "agree c s t \<longleftrightarrow> store s = store t \<and> srv_offset s = srv_offset t \<and> replicas s = replicas t \<and>
     erase (client_of s c) = erase (client_of t c) \<and> (\<forall>r. r \<noteq> c \<longrightarrow> client_of s r = client_of t r)"

lemma erase_simps [simp]:
  "closed (erase x) = closed x" "conn_out (erase x) = conn_out x" "preferredRespVersion (erase x) = preferredRespVersion x"
  "erase (x\<lparr>conn_out := out\<rparr>) = (erase x)\<lparr>conn_out := out\<rparr>" "erase (Close x) = Close (erase x)"
  "erase (SetLastWriteOffset off x) = SetLastWriteOffset off (erase x)" "erase (x\<lparr>Writer := w\<rparr>) = erase x"
  "erase (ClearTransaction x) = erase x"
  by (simp_all add: erase_def Close_def SetLastWriteOffset_def ClearTransaction_def)

lemma agree_closed: "agree c s t \<Longrightarrow> closed (client_of s r) = closed (client_of t r)"
  unfolding agree_def by (cases "r = c") (metis erase_simps(1))+

lemma agree_update:
  "agree c s t \<Longrightarrow> (\<And>x. erase (f x) = f (erase x)) \<Longrightarrow> agree c (update_client r f s) (update_client r f t)"
  by (auto simp: agree_def)

lemma agree_left: "agree c s t \<Longrightarrow> (\<And>x. erase (f x) = erase x) \<Longrightarrow> agree c (update_client c f s) t"
  and agree_right: "agree c s t \<Longrightarrow> (\<And>x. erase (f x) = erase x) \<Longrightarrow> agree c s (update_client c f t)"
  by (simp_all add: agree_def)

lemma client_of_fields [simp]:
  "client_of (s\<lparr>store := st\<rparr>) = client_of s" "client_of (s\<lparr>srv_offset := off\<rparr>) = client_of s"
  "client_of (s\<lparr>replicas := rs\<rparr>) = client_of s"
  by (simp_all add: client_of_def fun_eq_iff)

lemma agree_send:
  assumes "agree c s t"
  shows "agree c (send_to_replica b r s) (send_to_replica b r t)"
proof (cases "closed (client_of s r)")
  case True
  have "agree c (s\<lparr>replicas := filter (\<lambda>x. x \<noteq> r) (replicas s)\<rparr>) (t\<lparr>replicas := filter (\<lambda>x. x \<noteq> r) (replicas t)\<rparr>)"
    using assms by (simp add: agree_def)
  then have "agree c (removeReplica r s) (removeReplica r t)"
    unfolding removeReplica_def by (rule agree_update) simp
  with True agree_closed [OF assms] show ?thesis by (simp add: send_to_replica_def conn_write_def)
next
  case False
  have "agree c (update_client r (\<lambda>x. x\<lparr>conn_out := conn_out x @ b\<rparr>) s) (update_client r (\<lambda>x. x\<lparr>conn_out := conn_out x @ b\<rparr>) t)"
    using assms by (rule agree_update) simp
  with False agree_closed [OF assms] show ?thesis by (simp add: send_to_replica_def conn_write_def)
qed

text \<open>What \<open>PropagateCommand\<close> does not touch.\<close>

definition reply_state :: "client \<Rightarrow> writer \<times> bool \<times> resp list \<times> int" where
  "reply_state x = (Writer x, inTransaction x, txQueue x, preferredRespVersion x)"

lemma reply_state_simps [simp]:
  "reply_state (x\<lparr>conn_out := out\<rparr>) = reply_state x" "reply_state (Close x) = reply_state x"
  "reply_state (SetLastWriteOffset off x) = reply_state x"
  by (simp_all add: reply_state_def Close_def SetLastWriteOffset_def)

lemma reply_state_send: "reply_state (client_of (send_to_replica b r s) c) = reply_state (client_of s c)"
  by (simp add: send_to_replica_def conn_write_def removeReplica_def)

lemma propagate_agree:
  assumes "agree c s t" and "PropagateCommand c' r s = Ret s'"
  shows "\<exists>t'. PropagateCommand c' r t = Ret t' \<and> agree c s' t' \<and> store s' = store s \<and>
    reply_state (client_of s' c) = reply_state (client_of s c) \<and> reply_state (client_of t' c) = reply_state (client_of t c)"
proof -
  obtain b where b: "RAW r = Ret b" using assms(2) by (auto simp: PropagateCommand_def split: go.splits)
  let ?up = "\<lambda>s. update_client c' (SetLastWriteOffset (srv_offset s + of_nat (length b)))
    (s\<lparr>srv_offset := srv_offset s + of_nat (length b)\<rparr>)"
  have off: "srv_offset s = srv_offset t" "replicas s = replicas t" using assms(1) by (simp_all add: agree_def)
  have "agree c (s\<lparr>srv_offset := srv_offset s + of_nat (length b)\<rparr>) (t\<lparr>srv_offset := srv_offset s + of_nat (length b)\<rparr>)"
    using assms(1) by (simp add: agree_def)
  then have up: "agree c (?up s) (?up t)" unfolding off(1) by (intro agree_update) simp_all
  have fold: "agree c (fold (send_to_replica b) rs s) (fold (send_to_replica b) rs t)" if "agree c s t" for rs s t
    using that by (induction rs arbitrary: s t) (simp_all add: agree_send)
  have rs: "reply_state (client_of (fold (send_to_replica b) rs s) c) = reply_state (client_of s c)" for rs s
    by (induction rs arbitrary: s) (simp_all add: reply_state_send)
  have st: "store (fold (send_to_replica b) rs s) = store s" for rs s
    by (induction rs arbitrary: s) (simp_all add: send_to_replica_def conn_write_def removeReplica_def)
  have "s' = fold (send_to_replica b) (replicas s) (?up s)"
    "PropagateCommand c' r t = Ret (fold (send_to_replica b) (replicas s) (?up t))"
    using assms(2) b by (simp_all add: PropagateCommand_def Let_def off)
  with fold [OF up] show ?thesis by (simp add: rs st)
qed

text \<open>The same messages one by one, each answered without an error.\<close>

fun one_by_one :: "cmd_env \<Rightarrow> nat \<Rightarrow> resp list \<Rightarrow> server \<Rightarrow> server option" where
  "one_by_one env c [] s = Some s"
| "one_by_one env c (r # rs) s =
     (case handleMessage env c r s of Handled s' None \<Rightarrow> one_by_one env c rs s' | _ \<Rightarrow> None)"

definition store_message :: "cmd_env \<Rightarrow> resp \<Rightarrow> bool" where
  "store_message env r = (case resp_array r of
       Ret (nm # args) \<Rightarrow> (\<exists>cmd \<in> store_commands. GetCommand (ToLower (base env) (String nm)) = Inr cmd)
     | _ \<Rightarrow> False)"

lemma execute_own: "cmd \<in> store_commands \<Longrightarrow> execute_plain env own c cmd args = execute_plain env own' c' cmd args"
  by (auto simp: store_commands_def execute_plain_def [abs_def])

lemma store_commands_plain:
  assumes "cmd \<in> store_commands" and "GetCommand nm = Inr cmd"
  shows "cmd \<noteq> Wait" "\<not> IsBlocking e cmd args" "cmd \<noteq> Exec" "nm \<noteq> ''replconf''" "nm \<notin> set TransactionCommands"
proof -
  show "cmd \<noteq> Wait" "\<not> IsBlocking e cmd args" "cmd \<noteq> Exec"
    using assms(1) by (auto simp: store_commands_def IsBlocking_def)
  show "nm \<noteq> ''replconf''" "nm \<notin> set TransactionCommands"
    using assms by (auto simp: store_commands_def GetCommand_def commands_def TransactionCommands_def)
qed

lemma NewWriter_simps [simp]: "written (NewWriter v) = []" "respVersion (NewWriter v) = v"
  by (simp_all add: NewWriter_def)

text \<open>One message, inside \<open>EXEC\<close> and outside.\<close>

lemma message_agree:
  assumes "agree c s t" and "wf_store (store s)" and "store_message env r" and "\<not> inTransaction (client_of t c)"
    and "respVersion (Writer (client_of t c)) = preferredRespVersion (client_of s c)"
    and "handleMessage env c r t = Handled t' None"
  obtains b s' where "exec_queue env c (r # rs) resps s w = exec_queue env c rs (resps @ [b]) s' w"
    "agree c s' t'" "wf_store (store s')" "\<not> inTransaction (client_of t' c)"
    "Writer (client_of t' c) = emit b (Writer (client_of t c))"
    "preferredRespVersion (client_of s' c) = preferredRespVersion (client_of s c)"
proof -
  obtain nm args cmd where r: "resp_array r = Ret (nm # args)" and cmd: "cmd \<in> store_commands"
    and get: "GetCommand (ToLower (base env) (String nm)) = Inr cmd"
    using assms(3) by (auto simp: store_message_def split: go.splits list.splits)
  note pl = store_commands_plain [OF cmd get]
  let ?nm = "ToLower (base env) (String nm)"
  let ?new = "NewWriter (preferredRespVersion (client_of s c))" and ?w = "Writer (client_of t c)"
  obtain st b err where st: "wf_store st"
    and ex: "execute_plain env False c cmd args s ?new = Done (s\<lparr>store := st\<rparr>) (emit b ?new) err"
      "execute_plain env True c cmd args t ?w = Done (t\<lparr>store := st\<rparr>) (emit b ?w) err"
  proof -
    obtain st b err where "wf_store st" and e: "\<And>s' w'. store s' = store s \<Longrightarrow> respVersion w' = preferredRespVersion (client_of s c) \<Longrightarrow>
        execute_plain env False c cmd args s' w' = Done (s'\<lparr>store := st\<rparr>) (emit b w') err"
      using execute_store_command [OF cmd, of env False c args] assms(2) unfolding acts_on_store_def by meson
    have "store t = store s" using assms(1) by (simp add: agree_def)
    with e show thesis
      using that [OF \<open>wf_store st\<close>, of b err] assms(5) execute_own [OF cmd, of env True c args False c] by (simp add: NewWriter_def)
  qed
  define t1 where "t1 = put_writer c (emit b ?w) (t\<lparr>store := st\<rparr>)"
  have m: "handleMessage env c r t = (case after_execute (base env) c r ?nm args (t\<lparr>store := st\<rparr>) (emit b ?w) err of
      Panic \<Rightarrow> Died | Ret (s, err) \<Rightarrow> Handled s err)"
    using assms(4) by (simp add: handleMessage_def r get pl IsInTransaction_def run_message_def Execute_def ex Let_def)
  then have err: "err = None"
    using assms(6) by (cases err) (simp_all add: after_execute_def writeError_def Let_def)
  have ag: "agree c (s\<lparr>store := st\<rparr>) t1"
    unfolding t1_def put_writer_def using assms(1) by (intro agree_right) (simp_all add: agree_def)
  have w1: "Writer (client_of t1 c) = emit b ?w" "\<not> inTransaction (client_of t1 c)"
    using assms(4) by (simp_all add: t1_def put_writer_def)
  show thesis
  proof (cases "?nm \<in> set WriteableCommands")
    case True
    have "\<exists>t2. PropagateCommand c r t1 = Ret t2 \<and> t' = t2"
      using m assms(6) True pl(4) by (auto simp: err after_execute_def Let_def t1_def split: go.splits)
    then have pt: "PropagateCommand c r t1 = Ret t'" by blast
    obtain s2 where ps: "PropagateCommand c r (s\<lparr>store := st\<rparr>) = Ret s2"
      using pt by (auto simp: PropagateCommand_def Let_def split: go.splits)
    from propagate_agree [OF ag ps] pt have "agree c s2 t'" "store s2 = st"
      "reply_state (client_of s2 c) = reply_state (client_of s c)" "reply_state (client_of t' c) = reply_state (client_of t1 c)"
      by auto
    with st w1 that [of b s2] show thesis
      by (simp add: r get ex exec_after_def err True ps reply_state_def)
  next
    case False
    then have "t' = t1" using m assms(6) pl(4) by (simp add: err after_execute_def Let_def t1_def)
    with False st w1 ag that [of b "s\<lparr>store := st\<rparr>"] show thesis
      by (simp add: r get ex exec_after_def err)
  qed
qed

lemma exec_agree:
  assumes "agree c s t" and "wf_store (store s)" and "\<forall>r \<in> set rs. store_message env r" and "\<not> inTransaction (client_of t c)"
    and "respVersion (Writer (client_of t c)) = preferredRespVersion (client_of s c)"
    and "one_by_one env c rs t = Some t'"
  shows "\<exists>s' bs. exec_queue env c rs resps s w
      = Done (update_client c ClearTransaction s') (emit (exec_reply (resps @ bs)) w) None \<and> agree c s' t' \<and>
    length bs = length rs \<and> Writer (client_of t' c) = emit (concat bs) (Writer (client_of t c))"
  using assms
proof (induction rs arbitrary: s t resps)
  case Nil
  then show ?case by (intro exI [of _ s] exI [of _ "[]"]) simp
next
  case (Cons r rs)
  obtain t1 where h: "handleMessage env c r t = Handled t1 None" and t1: "one_by_one env c rs t1 = Some t'"
    using Cons.prems(6) by (auto split: hres.splits option.splits)
  have "store_message env r" using Cons.prems(3) by simp
  from message_agree [OF Cons.prems(1,2) this Cons.prems(4,5) h, of rs resps w]
  obtain b s1 where s1: "exec_queue env c (r # rs) resps s w = exec_queue env c rs (resps @ [b]) s1 w"
    "agree c s1 t1" "wf_store (store s1)" "\<not> inTransaction (client_of t1 c)"
    "Writer (client_of t1 c) = emit b (Writer (client_of t c))"
    "preferredRespVersion (client_of s1 c) = preferredRespVersion (client_of s c)" by blast
  have "respVersion (Writer (client_of t1 c)) = preferredRespVersion (client_of s1 c)"
    using Cons.prems(5) s1(5,6) by simp
  from Cons.IH [OF s1(2,3) _ s1(4) this t1, of "resps @ [b]"] Cons.prems(3)
  obtain s' bs where "exec_queue env c rs (resps @ [b]) s1 w
      = Done (update_client c ClearTransaction s') (emit (exec_reply ((resps @ [b]) @ bs)) w) None" "agree c s' t'"
    "length bs = length rs" "Writer (client_of t' c) = emit (concat bs) (Writer (client_of t1 c))" by auto
  then show ?case using s1(1,5) by (intro exI [of _ s'] exI [of _ "b # bs"]) simp
qed

text \<open>C2: \<open>EXEC\<close> does what its commands would have done one by one. Take a transaction whose queue holds
  commands on the key space (\<open>SET\<close>, \<open>GET\<close>, \<open>INCR\<close>, \<open>TYPE\<close>, \<open>KEYS\<close>, \<open>ECHO\<close>, \<open>PING\<close>), and suppose that, sent outside
  a transaction, each of them is answered without an error. Then \<open>EXEC\<close> leaves the same key space,
  the same replication offset and the same bytes on every connection, the transaction is over,
  and the reply is one array whose elements are exactly the bytes of the single replies, in order.\<close>

theorem exec_like_one_by_one:
  assumes "server_ok e s" and "inTransaction (client_of s c)" and "\<forall>r \<in> set (txQueue (client_of s c)). store_message env r"
    and "respVersion (Writer (client_of s c)) = preferredRespVersion (client_of s c)"
    and "one_by_one env c (txQueue (client_of s c)) (update_client c ClearTransaction s) = Some t'"
  shows "\<exists>s' b. Exec_Execute env c [] s w = Done s' (emit (''*'' @ Itoa (int (length (txQueue (client_of s c)))) @ crlf @ b) w) None \<and>
    store s' = store t' \<and> srv_offset s' = srv_offset t' \<and> replicas s' = replicas t' \<and>
    (\<forall>r. conn_out (client_of s' r) = conn_out (client_of t' r)) \<and>
    \<not> inTransaction (client_of s' c) \<and> txQueue (client_of s' c) = [] \<and>
    written (Writer (client_of t' c)) = written (Writer (client_of s c)) @ b"
proof -
  let ?t = "update_client c ClearTransaction s"
  have "agree c s ?t" by (rule agree_right) (simp_all add: agree_def)
  moreover have "\<not> inTransaction (client_of ?t c)" "Writer (client_of ?t c) = Writer (client_of s c)"
    by (simp_all add: ClearTransaction_def)
  ultimately obtain s1 bs where s1: "exec_queue env c (txQueue (client_of s c)) [] s w
      = Done (update_client c ClearTransaction s1) (emit (exec_reply ([] @ bs)) w) None" "agree c s1 t'"
    "length bs = length (txQueue (client_of s c))" "Writer (client_of t' c) = emit (concat bs) (Writer (client_of s c))"
    using exec_agree [of c s ?t "txQueue (client_of s c)" env t' "[]" w] assms server_ok_store [OF assms(1)] by auto
  have "conn_out (client_of s1 r) = conn_out (client_of t' r)" for r
    using s1(2) unfolding agree_def by (cases "r = c") (metis erase_simps(2))+
  moreover have "conn_out (client_of (update_client c ClearTransaction s1) r) = conn_out (client_of s1 r)" for r
    by (simp add: ClearTransaction_def)
  ultimately show ?thesis
    using s1 assms(2)
    by (intro exI [of _ "update_client c ClearTransaction s1"] exI [of _ "concat bs"])
      (simp add: Exec_Execute_def IsInTransaction_def GetTransactionQueue_def exec_reply_def agree_def ClearTransaction_def)
qed

definition in_multi :: server where
  "in_multi = srv (example_run [Accept 1 ''id'' ''addr'', message 1 [''MULTI''], message 1 [''SET'', ''k'', ''v''], message 1 [''GET'', ''k'']])"

theorem exec_like_one_by_one_witness:
  "\<exists>s' b. Exec_Execute (plain_cmd_env 0) 1 [] in_multi (NewWriter 2) = Done s' (emit (''*2'' @ crlf @ b) (NewWriter 2)) None \<and>
    \<not> inTransaction (client_of s' 1) \<and> map_option store
      (one_by_one (plain_cmd_env 0) 1 (txQueue (client_of in_multi 1)) (update_client 1 ClearTransaction in_multi)) = Some (store s')"
proof -
  let ?e = "plain_cmd_env 0"
  have ok: "server_ok (plain_env 0) in_multi" unfolding in_multi_def by (rule reachable_ok [OF example_reachable])
  have "txQueue (client_of in_multi 1) = [command_resp [''SET'', ''k'', ''v''], command_resp [''GET'', ''k'']]"
    "list_all (store_message ?e) [command_resp [''SET'', ''k'', ''v''], command_resp [''GET'', ''k'']]"
    "inTransaction (client_of in_multi 1)" "respVersion (Writer (client_of in_multi 1)) = preferredRespVersion (client_of in_multi 1)"
    "\<not> Option.is_none (one_by_one ?e 1 (txQueue (client_of in_multi 1)) (update_client 1 ClearTransaction in_multi))"
    by code_simp+
  moreover from this(5) obtain t' where "one_by_one ?e 1 (txQueue (client_of in_multi 1)) (update_client 1 ClearTransaction in_multi) = Some t'"
    by (auto simp: Option.is_none_def)
  moreover have "Itoa 2 = ''2''" by code_simp
  ultimately show ?thesis using exec_like_one_by_one [OF ok, of 1 ?e t' "NewWriter 2"] by fastforce
qed

end
