(* ===== verification/Replication_Props.thy ===== *)
theory Replication_Props
  imports Transaction_Props
begin

text \<open>
  The properties of replication: what a master sends to its replicas, how a replica cuts and
  applies it, and that the two agree.
\<close>

section \<open>The master\<close>

lemma send_fold:
  assumes "distinct rs" and "set rs \<subseteq> set (replicas s)" and "distinct (replicas s)" and "s' = fold (send_to_replica b) rs s"
  shows "store s' = store s \<and> srv_offset s' = srv_offset s \<and>
    replicas s' = filter (\<lambda>q. q \<in> set rs \<longrightarrow> \<not> closed (client_of s q)) (replicas s) \<and>
    (\<forall>q. client_of s' q = (if q \<in> set rs \<and> \<not> closed (client_of s q) then (client_of s q)\<lparr>conn_out := conn_out (client_of s q) @ b\<rparr>
      else client_of s q))"
  using assms
proof (induction rs arbitrary: s)
  case (Cons r rs)
  show ?case
  proof (cases "closed (client_of s r)")
    case True
    let ?s = "removeReplica r s"
    have 1: "send_to_replica b r s = ?s" using True by (simp add: send_to_replica_def conn_write_def)
    have cl: "client_of ?s q = client_of s q" for q using True by (simp add: removeReplica_def Close_def)
    have "set rs \<subseteq> set (replicas ?s)" using Cons.prems(1,2) by (auto simp: removeReplica_def)
    with Cons.IH [of ?s] Cons.prems 1 have "store s' = store ?s \<and> srv_offset s' = srv_offset ?s \<and>
      replicas s' = filter (\<lambda>q. q \<in> set rs \<longrightarrow> \<not> closed (client_of ?s q)) (replicas ?s) \<and>
      (\<forall>q. client_of s' q = (if q \<in> set rs \<and> \<not> closed (client_of ?s q) then (client_of ?s q)\<lparr>conn_out := conn_out (client_of ?s q) @ b\<rparr>
        else client_of ?s q))" by (simp add: removeReplica_def)
    moreover have "replicas ?s = filter (\<lambda>q. q \<noteq> r) (replicas s)" "store ?s = store s" "srv_offset ?s = srv_offset s"
      by (simp_all add: removeReplica_def)
    ultimately show ?thesis using True by (auto simp: cl intro!: filter_cong)
  next
    case False
    let ?s = "update_client r (\<lambda>x. x\<lparr>conn_out := conn_out x @ b\<rparr>) s"
    have 1: "send_to_replica b r s = ?s" using False by (simp add: send_to_replica_def conn_write_def)
    with Cons.IH [of ?s] Cons.prems have "store s' = store ?s \<and> srv_offset s' = srv_offset ?s \<and>
      replicas s' = filter (\<lambda>q. q \<in> set rs \<longrightarrow> \<not> closed (client_of ?s q)) (replicas ?s) \<and>
      (\<forall>q. client_of s' q = (if q \<in> set rs \<and> \<not> closed (client_of ?s q) then (client_of ?s q)\<lparr>conn_out := conn_out (client_of ?s q) @ b\<rparr>
        else client_of ?s q))" by simp
    with False Cons.prems(1) show ?thesis by (auto intro!: filter_cong)
  qed
qed simp

text \<open>What \<open>PropagateCommand\<close> does, in full.\<close>

lemma propagate_effect:
  assumes "distinct (replicas s)" and "RAW r = Ret b"
  obtains s' where "PropagateCommand c r s = Ret s'" "srv_offset s' = srv_offset s + of_nat (length b)" "store s' = store s"
    "replicas s' = filter (\<lambda>q. \<not> closed (client_of s q)) (replicas s)"
    "\<forall>q. client_of s' q = (let x = (if q = c then SetLastWriteOffset (srv_offset s') (client_of s q) else client_of s q) in
        if q \<in> set (replicas s) \<and> \<not> closed x then x\<lparr>conn_out := conn_out x @ b\<rparr> else x)"
proof -
  let ?s = "update_client c (SetLastWriteOffset (srv_offset s + of_nat (length b))) (s\<lparr>srv_offset := srv_offset s + of_nat (length b)\<rparr>)"
  define s' where "s' = fold (send_to_replica b) (replicas s) ?s"
  have p: "PropagateCommand c r s = Ret s'" by (simp add: PropagateCommand_def assms(2) s'_def Let_def)
  have cl: "closed (client_of ?s q) = closed (client_of s q)" for q by (simp add: SetLastWriteOffset_def)
  have f: "store s' = store ?s \<and> srv_offset s' = srv_offset ?s \<and>
    replicas s' = filter (\<lambda>q. q \<in> set (replicas s) \<longrightarrow> \<not> closed (client_of ?s q)) (replicas ?s) \<and>
    (\<forall>q. client_of s' q = (if q \<in> set (replicas s) \<and> \<not> closed (client_of ?s q) then (client_of ?s q)\<lparr>conn_out := conn_out (client_of ?s q) @ b\<rparr>
      else client_of ?s q))"
    using assms(1) by (intro send_fold) (simp_all add: s'_def)
  show thesis
  proof (rule that [OF p])
    show "srv_offset s' = srv_offset s + of_nat (length b)" "store s' = store s" using f by simp_all
    then show "\<forall>q. client_of s' q = (let x = (if q = c then SetLastWriteOffset (srv_offset s') (client_of s q) else client_of s q) in
        if q \<in> set (replicas s) \<and> \<not> closed x then x\<lparr>conn_out := conn_out x @ b\<rparr> else x)"
      using f by (auto simp: Let_def)
    show "replicas s' = filter (\<lambda>q. \<not> closed (client_of s q)) (replicas s)"
      using f by (simp only: cl update_client_frame) (auto intro!: filter_cong)
  qed
qed

text \<open>C19: propagation. Every replica whose connection is open gets exactly the command, serialized
  again from its parsed form, at the end of its connection; a replica whose connection is
  closed is dropped; no other connection gets a byte; the offset of the server and the write
  offset of the client advance to the same value, by the number of these bytes.\<close>

theorem propagate_exactly:
  assumes "reachable e n" and "RAW r = Ret b"
  shows "\<exists>s'. PropagateCommand c r (srv n) = Ret s' \<and>
    srv_offset s' = srv_offset (srv n) + of_nat (length b) \<and> lastWriteOffset (client_of s' c) = srv_offset s' \<and>
    store s' = store (srv n) \<and> replicas s' = filter (\<lambda>q. \<not> closed (client_of (srv n) q)) (replicas (srv n)) \<and>
    (\<forall>q. conn_out (client_of s' q) = conn_out (client_of (srv n) q) @
       (if q \<in> set (replicas (srv n)) \<and> \<not> closed (client_of (srv n) q) then b else []))"
proof -
  have "distinct (replicas (srv n))" using reachable_ok [OF assms(1)] by (simp add: server_ok_def)
  then obtain s' where s': "PropagateCommand c r (srv n) = Ret s'" "srv_offset s' = srv_offset (srv n) + of_nat (length b)"
    "store s' = store (srv n)" "replicas s' = filter (\<lambda>q. \<not> closed (client_of (srv n) q)) (replicas (srv n))"
    "\<forall>q. client_of s' q = (let x = (if q = c then SetLastWriteOffset (srv_offset s') (client_of (srv n) q) else client_of (srv n) q) in
        if q \<in> set (replicas (srv n)) \<and> \<not> closed x then x\<lparr>conn_out := conn_out x @ b\<rparr> else x)"
    by (rule propagate_effect [OF _ assms(2), of "srv n" c])
  then show ?thesis by (intro exI [of _ s']) (auto simp: SetLastWriteOffset_def Let_def)
qed

section \<open>The replica\<close>

lemma ReadBytes_line: "LF \<notin> set l \<Longrightarrow> ReadBytes (l @ crlf @ t) = Some (l @ crlf, t)"
  by (induction l) (auto simp: crlf_def)

lemma ReadBytes_len: "t \<noteq> LF \<Longrightarrow> ReadBytes (len_line t n @ s) = Some (len_line t n, s)"
  using ReadBytes_line [of "t # Itoa (int n)" s] by (auto simp: len_line_def)

lemma master_wait:
  "ReadBytes input = Some (part, rest) \<Longrightarrow> ParseResp (buffer @ part) = PErr EOF \<Longrightarrow>
   handleMasterConnection env m buffer input s = handleMasterConnection env m (buffer @ part) rest s"
  by (subst handleMasterConnection.simps) (simp add: master_part_def master_keeps_def)

text \<open>The outcome of a complete message of \<open>k\<close> bytes.\<close>

definition master_message :: "cmd_env \<Rightarrow> nat \<Rightarrow> resp \<Rightarrow> nat \<Rightarrow> string \<Rightarrow> server \<Rightarrow> mstate" where
  "master_message env m r k rest s =
     (case handleMasterResponse env m r rest (dispatchResponse env m r s) of
        MDied \<Rightarrow> MPanic
      | MWaits s b \<Rightarrow> MStuck s b
      | MDone s rest \<Rightarrow> handleMasterConnection env m [] rest (s\<lparr>srv_offset := srv_offset s + of_nat k\<rparr>))"

lemma master_complete:
  "ReadBytes input = Some (part, rest) \<Longrightarrow> ParseResp (buffer @ part) = POk (command_resp args) [] \<Longrightarrow>
   handleMasterConnection env m buffer input s = master_message env m (command_resp args) (length (buffer @ part)) rest s"
  by (subst handleMasterConnection.simps)
    (simp add: master_part_def master_message_def command_resp_def array_resp_def split: mres.splits)

lemma master_args:
  assumes "sendable (sofar @ args)" and "args \<noteq> []" and "last args \<noteq> []" and "\<forall>a \<in> set args. LF \<notin> set a"
  shows "handleMasterConnection env m (len_line (CHR ''*'') (length (sofar @ args)) @ args_raw sofar) (args_raw args @ rest) s
    = master_message env m (command_resp (sofar @ args)) (length (CreateCommand (sofar @ args))) rest s"
  using assms
proof (induction args arbitrary: sofar)
  case (Cons a args)
  let ?n = "length (sofar @ a # args)"
  let ?buf = "len_line (CHR ''*'') ?n @ args_raw sofar"
  let ?len = "len_line (CHR ''$'') (length a)"
  have size: "8 * int ?n \<le> maxAlloc" "\<forall>x \<in> set sofar. int (length x) \<le> maxAlloc" "int (length a) \<le> maxAlloc"
    using Cons.prems(1) by (auto simp: sendable_def)
  have split: "args_raw (a # args) = ?len @ a @ crlf @ args_raw args" by (simp add: args_raw_def raw_bulk_lines)
  have buf: "(?buf @ ?len) @ a @ crlf = len_line (CHR ''*'') ?n @ args_raw (sofar @ [a])"
    by (simp add: args_raw_append args_raw_one)
  have "a \<noteq> [] \<or> length sofar + 1 < ?n" using Cons.prems(3) by (cases args) auto
  then have "ParseResp (?buf @ ?len) = PErr EOF" using parse_partial(2) [OF size(1,2) _ size(3)] by simp
  then have 1: "handleMasterConnection env m ?buf (args_raw (a # args) @ rest) s
      = handleMasterConnection env m (?buf @ ?len) (a @ crlf @ args_raw args @ rest) s"
    unfolding split by (intro master_wait) (simp_all add: ReadBytes_len)
  have read: "ReadBytes (a @ crlf @ args_raw args @ rest) = Some (a @ crlf, args_raw args @ rest)"
    using Cons.prems(4) by (intro ReadBytes_line) simp
  show ?case
  proof (cases "args = []")
    case True
    have "ParseResp ((?buf @ ?len) @ a @ crlf) = POk (command_resp (sofar @ a # args)) []"
      unfolding buf using parse_whole [of "sofar @ [a]"] Cons.prems(1) True by simp
    moreover have "length ((?buf @ ?len) @ a @ crlf) = length (CreateCommand (sofar @ a # args))"
      unfolding buf using True by (simp add: CreateCommand_raw raw_command)
    ultimately show ?thesis unfolding 1 using master_complete [OF read, of "?buf @ ?len"] True by (simp add: args_raw_def)
  next
    case False
    have s2: "\<forall>x \<in> set (sofar @ [a]). int (length x) \<le> maxAlloc" "length (sofar @ [a]) < ?n"
      using size False by auto
    have "ParseResp ((?buf @ ?len) @ a @ crlf) = PErr EOF"
      unfolding buf by (rule parse_partial(1) [OF size(1) s2])
    from master_wait [OF read this, of env m s] show ?thesis
      unfolding 1 buf using Cons.IH [of "sofar @ [a]"] Cons.prems False by simp
  qed
qed simp

text \<open>The arguments of a command that survives the connection to a replica: they can be sent, hold
  no line feed, and the last one is not empty (an empty last argument completes the command
  before its own line has come).\<close>

definition clean_args :: "string list \<Rightarrow> bool" where
  "clean_args args \<longleftrightarrow> sendable args \<and> args \<noteq> [] \<and> last args \<noteq> [] \<and> (\<forall>a \<in> set args. LF \<notin> set a)"

lemma master_command:
  assumes "clean_args args"
  shows "handleMasterConnection env m [] (CreateCommand args @ rest) s
    = master_message env m (command_resp args) (length (CreateCommand args)) rest s"
proof -
  have c: "sendable args" "args \<noteq> []" "last args \<noteq> []" "\<forall>a \<in> set args. LF \<notin> set a" using assms by (simp_all add: clean_args_def)
  let ?len = "len_line (CHR ''*'') (length args)"
  have "0 < length args" using c(2) by simp
  moreover have "8 * int (length args) \<le> maxAlloc" using c(1) by (simp add: sendable_def)
  ultimately have "ParseResp (?len @ args_raw []) = PErr EOF" by (intro parse_partial(1)) simp_all
  then have "handleMasterConnection env m [] (?len @ args_raw args @ rest) s = handleMasterConnection env m ([] @ ?len) (args_raw args @ rest) s"
    by (intro master_wait) (simp_all add: ReadBytes_len args_raw_def)
  then show ?thesis
    using master_args [of "[]" args env m rest s] c by (simp add: CreateCommand_raw raw_command args_raw_def)
qed

section \<open>Master and replica\<close>

text \<open>What sending a reply to one client leaves alone.\<close>

definition same_but :: "nat \<Rightarrow> server \<Rightarrow> server \<Rightarrow> bool" where
  "same_but c s s' \<longleftrightarrow> store s' = store s \<and> srv_offset s' = srv_offset s \<and> replicas s' = replicas s \<and>
     (\<forall>q. q \<noteq> c \<longrightarrow> client_of s' q = client_of s q) \<and> inTransaction (client_of s' c) = inTransaction (client_of s c)"

lemma same_but_send: "client_Send env c s = (s', err) \<Longrightarrow> same_but c s s'"
  by (auto simp: same_but_def client_Send_def send_writer_def Flush_def Let_def conn_write_def split: if_splits)

lemma same_but_close: "same_but c s s' \<Longrightarrow> same_but c s (closeClient c s')"
proof -
  have "client_of (s'\<lparr>connected := cs\<rparr>) = client_of s'" for cs by (simp add: client_of_def fun_eq_iff)
  then show "same_but c s s' \<Longrightarrow> ?thesis" by (simp add: same_but_def closeClient_def Close_def)
qed

lemma same_but_finish: "same_but c s (finish_message env c err s)"
proof -
  have "same_but c s s" by (simp add: same_but_def)
  moreover obtain s1 err1 where "client_Send env c s = (s1, err1)" by fastforce
  moreover note same_but_send [OF this]
  ultimately show ?thesis by (auto simp: finish_message_def same_but_close split: option.splits)
qed

lemmas finish_frame = same_but_finish [unfolded same_but_def]

lemma Type_command [simp]: "Type (command_resp args) = CHR ''*''"
  by (simp add: command_resp_def array_resp_def)

lemma RAW_command: "sendable args \<Longrightarrow> RAW (command_resp args) = Ret (CreateCommand args)"
  by (simp add: RAW_raw wf_command CreateCommand_raw)

definition write_args :: "go_env \<Rightarrow> string list \<Rightarrow> bool" where
  "write_args env args \<longleftrightarrow> clean_args args \<and> ToLower env (hd args) \<in> {''set'', ''incr''}"

lemma write_args_command:
  assumes "write_args env args"
  obtains nm rest cmd where "args = nm # rest" "resp_array (command_resp args) = Ret (bulk nm # map bulk rest)"
    "GetCommand (ToLower env nm) = Inr cmd" "cmd \<in> {CSet, Incr}" "ToLower env nm \<in> set WriteableCommands"
proof -
  obtain nm rest where a: "args = nm # rest" using assms by (cases args) (auto simp: write_args_def clean_args_def)
  have nm: "ToLower env nm = ''set'' \<or> ToLower env nm = ''incr''" using assms by (auto simp: write_args_def a)
  then obtain cmd where "GetCommand (ToLower env nm) = Inr cmd" "cmd \<in> {CSet, Incr}"
    by (auto simp: GetCommand_def commands_def)
  moreover have "ToLower env nm \<in> set WriteableCommands" using nm by (auto simp: WriteableCommands_def)
  ultimately show thesis
    using a by (intro that [of nm rest cmd]) (simp_all add: resp_array_def command_resp_def array_resp_def)
qed

text \<open>One write, on the master and on a replica with the same live strings.\<close>

lemma write_step:
  assumes "server_ok (base env) (srv n)" and "\<not> inTransaction (client_of (srv n) c)" and "q \<noteq> c"
    and "q \<in> set (replicas (srv n))" and "\<not> closed (client_of (srv n) q)"
    and "wf_store (store t)" and "responseWaitQueue t = []"
    and "live_string (base env) (store (srv n)) = live_string (base env) (store t)" and "write_args (base env) args"
    and "n' = loop_message env c (command_resp args) n"
  obtains b t' where "conn_out (client_of (srv n') q) = conn_out (client_of (srv n) q) @ b"
    "\<forall>rest. handleMasterConnection env m [] (b @ rest) t = handleMasterConnection env m [] rest t'"
    "live_string (base env) (store (srv n')) = live_string (base env) (store t')" "wf_store (store t')" "responseWaitQueue t' = []"
    "srv_offset t' = srv_offset t + of_nat (length b)" "srv_offset (srv n') = srv_offset (srv n) + of_nat (length b)"
    "\<not> inTransaction (client_of (srv n') c)" "q \<in> set (replicas (srv n'))" "\<not> closed (client_of (srv n') q)"
proof -
  let ?s = "srv n" and ?r = "command_resp args"
  obtain nm as cmd where a: "args = nm # as" "resp_array ?r = Ret (bulk nm # map bulk as)"
    "GetCommand (ToLower (base env) nm) = Inr cmd" "cmd \<in> {CSet, Incr}" "ToLower (base env) nm \<in> set WriteableCommands"
    using write_args_command [OF assms(9)] by blast
  have cl: "clean_args args" "sendable args" using assms(9) by (simp_all add: write_args_def clean_args_def)
  have wf: "wf_store (store ?s)" using assms(1) by (rule server_ok_store)
  have pl: "cmd \<noteq> Wait" "\<not> IsBlocking (base env) cmd x" "cmd \<noteq> Exec" "ToLower (base env) nm \<noteq> ''replconf''" for x
    using a(4,5) by (auto simp: IsBlocking_def WriteableCommands_def)
  obtain st b st' b' err where ex: "wf_store st" "wf_store st'" "live_string (base env) st = live_string (base env) st'"
    "err \<noteq> None \<longrightarrow> st = store ?s"
    "Execute env True c cmd (map bulk as) ?s (Writer (client_of ?s c)) = Done (?s\<lparr>store := st\<rparr>) (emit b (Writer (client_of ?s c))) err"
    "Execute env False m cmd (map bulk as) t (NewWriter RESP3) = Done (t\<lparr>store := st'\<rparr>) (emit b' (NewWriter RESP3)) err"
    by (rule execute_view_command [OF a(4) wf assms(6,8)])
  have h: "handleMessage env c ?r ?s = (case after_execute (base env) c ?r (ToLower (base env) nm) (map bulk as) (?s\<lparr>store := st\<rparr>)
      (emit b (Writer (client_of ?s c))) err of Panic \<Rightarrow> Died | Ret (s, err) \<Rightarrow> Handled s err)"
    using assms(2) pl by (simp add: handleMessage_def a(2-) IsInTransaction_def run_message_def ex Let_def)
  show thesis
  proof (cases err)
    case None
    let ?s1 = "put_writer c (emit b (Writer (client_of ?s c))) (?s\<lparr>store := st\<rparr>)"
    have "distinct (replicas ?s1)" using assms(1) by (simp add: put_writer_def server_ok_def)
    then obtain s2 where s2: "PropagateCommand c ?r ?s1 = Ret s2" "srv_offset s2 = srv_offset ?s1 + of_nat (length (CreateCommand args))"
      "store s2 = store ?s1" "replicas s2 = filter (\<lambda>q. \<not> closed (client_of ?s1 q)) (replicas ?s1)"
      "\<forall>q. client_of s2 q = (let x = (if q = c then SetLastWriteOffset (srv_offset s2) (client_of ?s1 q) else client_of ?s1 q) in
        if q \<in> set (replicas ?s1) \<and> \<not> closed x then x\<lparr>conn_out := conn_out x @ CreateCommand args\<rparr> else x)"
      by (rule propagate_effect [OF _ RAW_command [OF cl(2)], of ?s1 c])
    have n': "srv n' = finish_message env c None s2"
      using h s2(1) a(5) pl(4) by (simp add: assms(10) loop_message_def None after_execute_def Let_def)
    let ?t = "t\<lparr>store := st', srv_offset := srv_offset t + of_nat (length (CreateCommand args))\<rparr>"
    have "handleMasterResponse env m ?r rest (dispatchResponse env m ?r t) = MDone (t\<lparr>store := st'\<rparr>) rest" for rest
      using assms(7) pl(4) by (simp add: handleMasterResponse_def dispatchResponse_def a(2-) is_getack_def ex None Let_def)
    then have t: "handleMasterConnection env m [] (CreateCommand args @ rest) t = handleMasterConnection env m [] rest ?t" for rest
      by (simp add: master_command [OF cl(1)] master_message_def)
    have cs: "client_of ?s1 q = client_of ?s q" "inTransaction (client_of ?s1 c) = inTransaction (client_of ?s c)"
      "closed (client_of ?s1 q) = closed (client_of ?s q)" "replicas ?s1 = replicas ?s" "store ?s1 = st" "srv_offset ?s1 = srv_offset ?s"
      using assms(3) by (simp_all add: put_writer_def)
    have q2: "client_of s2 q = (client_of ?s q)\<lparr>conn_out := conn_out (client_of ?s q) @ CreateCommand args\<rparr>"
      using s2(5) cs assms(3-5) by (simp add: Let_def)
    have "inTransaction (client_of s2 c) = inTransaction (client_of ?s c)"
      using s2(5) cs(2) by (simp add: Let_def SetLastWriteOffset_def)
    with t s2 cs q2 ex(1-3) assms(2-7) show thesis
      by (intro that [of "CreateCommand args" ?t]) (simp_all add: n' finish_frame)
  next
    case (Some e)
    let ?s1 = "fst (writeError c e (put_writer c (Reset (Writer (client_of (put_writer c (emit b (Writer (client_of ?s c))) (?s\<lparr>store := st\<rparr>)) c)))
        (put_writer c (emit b (Writer (client_of ?s c))) (?s\<lparr>store := st\<rparr>))))"
    have n': "srv n' = finish_message env c (Some e) ?s1"
      using h by (simp add: assms(10) loop_message_def Some after_execute_def writeError_def Let_def)
    have "st = store ?s" using ex(4) Some by simp
    then have "store ?s1 = store ?s" "srv_offset ?s1 = srv_offset ?s" "replicas ?s1 = replicas ?s" "client_of ?s1 q = client_of ?s q"
      "inTransaction (client_of ?s1 c) = inTransaction (client_of ?s c)"
      using assms(3) by (simp_all add: writeError_def put_writer_def)
    with assms(2-8) show thesis by (intro that [of "[]" t]) (simp_all add: n' finish_frame)
  qed
qed

lemma writes_follow:
  assumes "server_ok (base env) (srv n)" and "\<not> inTransaction (client_of (srv n) c)" and "q \<noteq> c"
    and "q \<in> set (replicas (srv n))" and "\<not> closed (client_of (srv n) q)"
    and "wf_store (store t)" and "responseWaitQueue t = []"
    and "live_string (base env) (store (srv n)) = live_string (base env) (store t)" and "\<forall>args \<in> set argss. write_args (base env) args"
    and "n' = fold (\<lambda>args. loop_message env c (command_resp args)) argss n"
  shows "\<exists>b t'. conn_out (client_of (srv n') q) = conn_out (client_of (srv n) q) @ b \<and>
    handleMasterConnection env m [] b t = MReady [] t' \<and>
    live_string (base env) (store t') = live_string (base env) (store (srv n')) \<and>
    srv_offset t' - srv_offset t = of_nat (length b) \<and> srv_offset (srv n') - srv_offset (srv n) = of_nat (length b)"
  using assms
proof (induction argss arbitrary: n t)
  case Nil
  then show ?case by (intro exI [of _ "[]"] exI [of _ t]) (simp add: handleMasterConnection.simps)
next
  case (Cons args argss)
  let ?n = "loop_message env c (command_resp args) n"
  have wa: "write_args (base env) args" using Cons.prems(9) by simp
  have n': "n' = fold (\<lambda>args. loop_message env c (command_resp args)) argss ?n" using Cons.prems(10) by simp
  have ok: "server_ok (base env) (srv ?n)" using ok_loop_message [of "base env" n env] Cons.prems(1) by (simp add: node_ok_def)
  obtain b1 t1 where 1: "conn_out (client_of (srv ?n) q) = conn_out (client_of (srv n) q) @ b1"
    "\<forall>rest. handleMasterConnection env m [] (b1 @ rest) t = handleMasterConnection env m [] rest t1"
    "live_string (base env) (store (srv ?n)) = live_string (base env) (store t1)" "wf_store (store t1)" "responseWaitQueue t1 = []"
    "srv_offset t1 = srv_offset t + of_nat (length b1)" "srv_offset (srv ?n) = srv_offset (srv n) + of_nat (length b1)"
    "\<not> inTransaction (client_of (srv ?n) c)" "q \<in> set (replicas (srv ?n))" "\<not> closed (client_of (srv ?n) q)"
    by (rule write_step [OF Cons.prems(1-8) wa refl, of m])
  from Cons.IH [OF ok 1(8) Cons.prems(3) 1(9,10,4,5,3) _ n'] Cons.prems(9)
  obtain b2 t' where "conn_out (client_of (srv n') q) = conn_out (client_of (srv ?n) q) @ b2"
    "handleMasterConnection env m [] b2 t1 = MReady [] t'"
    "live_string (base env) (store t') = live_string (base env) (store (srv n'))"
    "srv_offset t' - srv_offset t1 = of_nat (length b2)" "srv_offset (srv n') - srv_offset (srv ?n) = of_nat (length b2)" by auto
  then show ?case using 1(1,2,6,7) by (intro exI [of _ "b1 @ b2"] exI [of _ t']) (simp add: algebra_simps)
qed

text \<open>C3: a replica follows its master. Take any state the master reaches, an open replica, a client that is
  not in a transaction, and a replica process that has finished its handshake and holds the same
  live strings. Whatever sequence of \<open>SET\<close> and \<open>INCR\<close> commands the client sends, with any options and
  also malformed ones (arguments without line feeds, the last one not empty), the bytes the
  master appends to the replica's connection, read by the replica at the same clock, make it
  execute the same writes: the live strings are equal again, nothing is left in its buffer, and
  both offsets have advanced by the number of these bytes.\<close>

theorem replica_follows_master:
  assumes "reachable (base env) n" and "\<not> inTransaction (client_of (srv n) c)" and "q \<noteq> c"
    and "q \<in> set (replicas (srv n))" and "\<not> closed (client_of (srv n) q)"
    and "wf_store (store t)" and "responseWaitQueue t = []"
    and "live_string (base env) (store (srv n)) = live_string (base env) (store t)" and "\<forall>args \<in> set argss. write_args (base env) args"
    and "n' = fold (\<lambda>args. loop_message env c (command_resp args)) argss n"
  shows "\<exists>b t'. conn_out (client_of (srv n') q) = conn_out (client_of (srv n) q) @ b \<and>
    handleMasterConnection env m [] b t = MReady [] t' \<and>
    live_string (base env) (store t') = live_string (base env) (store (srv n')) \<and>
    srv_offset t' - srv_offset t = of_nat (length b) \<and> srv_offset (srv n') - srv_offset (srv n) = of_nat (length b)"
  by (rule writes_follow [OF reachable_ok [OF assms(1)] assms(2-10)])

lemma base_plain [simp]: "base (plain_cmd_env t) = plain_env t"
  by (simp add: plain_cmd_env_def)

definition master_node :: node where
  "master_node = example_run [Accept 1 ''x'' ''x'', Accept 2 ''y'' ''y'', message 2 [''REPLCONF'', ''listening-port'', ''6380'']]"

lemma master_node_replica:
  "2 \<in> set (replicas (srv master_node))" "\<not> closed (client_of (srv master_node) 2)" "\<not> inTransaction (client_of (srv master_node) 1)"
  "store (srv master_node) = []" "reachable (plain_env 0) master_node"
  by (code_simp, code_simp, code_simp, code_simp, unfold master_node_def, rule example_reachable)

theorem replica_follows_master_witness:
  "\<exists>b t'. conn_out (client_of (srv (fold (\<lambda>args. loop_message (plain_cmd_env 0) 1 (command_resp args)) [[''SET'', ''k'', ''7''], [''INCR'', ''k'']] master_node)) 2)
      = conn_out (client_of (srv master_node) 2) @ b \<and>
    handleMasterConnection (plain_cmd_env 0) 9 [] b example_server = MReady [] t' \<and>
    live_string (plain_env 0) (store t')
      = live_string (plain_env 0) (store (srv (fold (\<lambda>args. loop_message (plain_cmd_env 0) 1 (command_resp args)) [[''SET'', ''k'', ''7''], [''INCR'', ''k'']] master_node)))"
proof -
  have "write_args (plain_env 0) [''SET'', ''k'', ''7'']" "write_args (plain_env 0) [''INCR'', ''k'']" by code_simp+
  moreover have "responseWaitQueue example_server = []" by (simp add: example_server_def)
  moreover have "base (plain_cmd_env 0) = plain_env 0" by (simp add: plain_cmd_env_def)
  ultimately show ?thesis
    using replica_follows_master [of "plain_cmd_env 0" master_node 1 2 example_server "[[''SET'', ''k'', ''7''], [''INCR'', ''k'']]" _ 9, OF _ _ _ _ _ _ _ _ _ refl]
      master_node_replica by simp blast
qed

section \<open>Full resynchronization\<close>

lemma Contains_prefix: "HasPrefix s p \<Longrightarrow> Contains s p"
  by (cases s) (auto simp: HasPrefix_def)

lemma HasPrefix_append [simp]: "HasPrefix (p @ s) p"
  by (simp add: HasPrefix_def)

text \<open>The bytes \<open>PSYNC\<close> sends on an open connection with nothing buffered.\<close>

definition psync_bytes :: "string \<Rightarrow> string \<Rightarrow> string" where
  "psync_bytes replid rdbData = raw (line_resp (CHR ''+'') (''FULLRESYNC '' @ replid @ '' 0'')) @ len_line (CHR ''$'') (length rdbData) @ rdbData"

lemma psync_sends:
  assumes "idle (client_of s c)" and "written w = []" and "SaveRDB (base env) (kv_Export (store s)) = Inr rdbData"
  shows "\<exists>s'. Psync_Execute env True c [bulk ''?'', bulk ''-1''] s w = Done s' w None \<and>
    conn_out (client_of s' c) = conn_out (client_of s c) @ psync_bytes (replicationID s) rdbData"
proof -
  have w: "w\<lparr>written := []\<rparr> = w" using assms(2) by (cases w) simp
  have raw: "raw (line_resp (CHR ''+'') x) = CHR ''+'' # x @ crlf" for x by (simp add: line_resp_def)
  let ?b1 = "CHR ''+'' # (''FULLRESYNC '' @ replicationID s @ '' 0'') @ crlf"
  let ?b2 = "''$'' @ Itoa (int (length rdbData)) @ crlf @ rdbData"
  let ?s1 = "update_client c (\<lambda>x. x\<lparr>conn_out := conn_out x @ ?b1\<rparr>) s"
  let ?s2 = "update_client c (\<lambda>x. x\<lparr>conn_out := conn_out x @ ?b2\<rparr>) ?s1"
  have "psync_send env True c s (WriteSimpleValue (CHR ''+'') (''FULLRESYNC '' @ GetReplicationID s @ '' 0'') w) = (?s1, w, None)"
    using assms(1,2) w by (simp add: psync_send_def send_writer_def Flush_def write_simple conn_write_def idle_def GetReplicationID_def emit_def)
  moreover have "conn_write c ?b2 ?s1 = (?s2, True)" using assms(1) by (simp add: conn_write_def idle_def)
  moreover have "psync_send env True c ?s2 w = (?s2, w, None)" using assms(2) by (simp add: psync_send_def send_writer_def Flush_def)
  ultimately have "Psync_Execute env True c [bulk ''?'', bulk ''-1''] s w = Done ?s2 w None"
    using assms(3) by (simp add: Psync_Execute_def Let_def)
  then show ?thesis by (simp add: psync_bytes_def raw len_line_def)
qed

lemma receive_snapshot:
  assumes "int (length rdbData) \<le> maxAlloc" and "ParseRDB (base env) (lzf_decompress env) rdbData = Inr p"
  shows "receiveRDB env (len_line (CHR ''$'') (length rdbData) @ rdbData @ rest) st
    = Ret (if GetData p = [] then st else RestoreRDB st (GetData p), rest)"
proof -
  let ?h = "len_line (CHR ''$'') (length rdbData)"
  have "in_i64 (int (length rdbData))" using assms(1) by (simp add: in_i64_def maxAlloc_def)
  then have "Atoi (take (length ?h - 3) (drop 1 ?h)) = Inr (int (length rdbData))"
    by (simp add: len_line_def crlf_def Atoi_FormatInt)
  moreover have "HasPrefix ?h ''$''" "\<not> length ?h < 3" by (simp_all add: len_line_def HasPrefix_def crlf_def)
  ultimately show ?thesis using assms by (simp add: receiveRDB_def ReadBytes_len)
qed

text \<open>C4: full resynchronization. When a master in any reachable state, holding only strings, answers \<open>PSYNC\<close> on an
  open connection, then a replica that waits for this answer takes what is sent, at any later
  time: its handshake is complete, and its store holds exactly the pairs of the master that have
  not expired by then, with their expiry times. (When none is left, it keeps the store it had.)\<close>

theorem psync_transfers_store:
  assumes "reachable e n" and "\<forall>kv \<in> set (store (srv n)). savable kv" and "int (length (store (srv n))) < 2 ^ 32"
    and "idle (client_of (srv n) c)" and "written w = []" and "LF \<notin> set (replicationID (srv n))"
    and "\<And>bytes. SaveRDB (base env) (kv_Export (store (srv n))) = Inr bytes \<Longrightarrow> int (length bytes) \<le> maxAlloc"
    and "handshake t = AwaitPsync" and "responseWaitQueue t = [requests t]"
  shows "\<exists>s' b t'. Psync_Execute env True c [bulk ''?'', bulk ''-1''] (srv n) w = Done s' w None \<and>
    conn_out (client_of s' c) = conn_out (client_of (srv n) c) @ b \<and>
    handleMasterConnection env' m [] b t = MReady [] t' \<and> handshake t' = Synced \<and>
    store t' = (let live = filter (\<lambda>kv. \<not> gone (base env') kv) (store (srv n)) in if live = [] then store t else live)"
proof -
  have wf: "wf_store (store (srv n))" using server_ok_store [OF reachable_ok [OF assms(1)]] .
  then have ex: "kv_Export (store (srv n)) = store (srv n)" "distinct (map fst (store (srv n)))" by (simp_all add: kv_Export_id wf_store_def)
  obtain bytes p where b: "SaveRDB (base env) (kv_Export (store (srv n))) = Inr bytes"
    "ParseRDB (base env') (lzf_decompress env') bytes = Inr p" "GetData p = filter (\<lambda>kv. \<not> gone (base env') kv) (store (srv n))"
    using save_parse [OF assms(2) ex(2) assms(3)] ex(1) by metis
  define line where "line = line_resp (CHR ''+'') (''FULLRESYNC '' @ replicationID (srv n) @ '' 0'')"
  let ?rest = "len_line (CHR ''$'') (length bytes) @ bytes"
  have lf: "LF \<notin> set (''FULLRESYNC '' @ replicationID (srv n) @ '' 0'')" using assms(6) by simp
  then have "wf_resp line" by (simp add: line_def line_resp_def)
  from parse_raw [OF this, of "[]"] have parse: "ParseResp (raw line) = POk line []" by simp
  have read: "ReadBytes (raw line @ ?rest) = Some (raw line, ?rest)"
    using ReadBytes_line [of "CHR ''+'' # ''FULLRESYNC '' @ replicationID (srv n) @ '' 0''" ?rest] lf by (simp add: line_def line_resp_def)
  have str: "String line = ''FULLRESYNC'' @ '' '' @ replicationID (srv n) @ '' 0''" "Type line = CHR ''+''"
    by (simp_all add: line_def line_resp_def)
  have pre: "HasPrefix (String line) ''FULLRESYNC''" unfolding str(1) by (rule HasPrefix_append)
  have "dispatchResponse env' m line t = t\<lparr>responseWaitQueue := [], handshake := Synced\<rparr>"
    using assms(8,9) by (simp add: dispatchResponse_def awaiting_def handshake_answer_def answer_ok_def str(2) pre)
  moreover have "Contains (String line) ''FULLRESYNC''"
    using pre by (rule Contains_prefix)
  ultimately have "handleMasterResponse env' m line ?rest (dispatchResponse env' m line t)
      = MDone (t\<lparr>responseWaitQueue := [], handshake := Synced, store := if GetData p = [] then store t else GetData p\<rparr>) []"
    using receive_snapshot [OF assms(7) [OF b(1)] b(2), of "[]"] by (simp add: handleMasterResponse_def str(2) RestoreRDB_def)
  then have "handleMasterConnection env' m [] (raw line @ ?rest) t
      = MReady [] (t\<lparr>responseWaitQueue := [], handshake := Synced, store := if GetData p = [] then store t else GetData p\<rparr>)"
    by (subst handleMasterConnection.simps)
      (simp add: read master_part_def parse str(2) handleMasterConnection.simps [of _ _ _ "[]"])
  moreover obtain s' where "Psync_Execute env True c [bulk ''?'', bulk ''-1''] (srv n) w = Done s' w None"
    "conn_out (client_of s' c) = conn_out (client_of (srv n) c) @ raw line @ ?rest"
    using psync_sends [OF assms(4,5) b(1)] unfolding psync_bytes_def line_def [symmetric] by blast
  ultimately show ?thesis using b(3) by (intro exI) (auto simp: Let_def)
qed

definition psync_node :: node where
  "psync_node = step (plain_cmd_env 0) (message 1 [''SET'', ''k'', ''v'']) master_node"

theorem psync_transfers_store_witness:
  "\<exists>s' b t'. Psync_Execute (plain_cmd_env 0) True 2 [bulk ''?'', bulk ''-1'']
      (srv psync_node) (NewWriter 2) = Done s' (NewWriter 2) None \<and>
    conn_out (client_of s' 2) = conn_out (client_of (srv psync_node) 2) @ b \<and>
    handleMasterConnection (plain_cmd_env 9) 5 [] b
      (example_server\<lparr>handshake := AwaitPsync, requests := 4, responseWaitQueue := [4]\<rparr>) = MReady [] t' \<and>
    store t' = [(''k'', string_value ''v'')]"
proof -
  let ?n = psync_node
  let ?t = "example_server\<lparr>handshake := AwaitPsync, requests := 4, responseWaitQueue := [4]\<rparr>"
  have r: "reachable (plain_env 0) ?n" unfolding psync_node_def using master_node_replica(5) by (rule reachable.event) simp
  have "map fst (store (srv ?n)) = [''k'']" "map (VType \<circ> snd) (store (srv ?n)) = [ValueTypeString]"
    "map (Expiry \<circ> snd) (store (srv ?n)) = [0]" "map (\<lambda>kv. case VData (snd kv) of VBytes b \<Rightarrow> b | _ \<Rightarrow> []) (store (srv ?n)) = [''v'']"
    by code_simp+
  then obtain x where x: "store (srv ?n) = [(''k'', x)]" "VType x = ValueTypeString" "Expiry x = 0"
    "(case VData x of VBytes b \<Rightarrow> b | _ \<Rightarrow> []) = ''v''"
    by (auto simp: map_eq_Cons_conv)
  then have st: "store (srv ?n) = [(''k'', string_value ''v'')]"
    by (cases x) (auto simp: string_value_def split: value_data.splits)
  have cl: "idle (client_of (srv ?n) 2)" "LF \<notin> set (replicationID (srv ?n))" by code_simp+
  have "(case writeObjects [(''k'', string_value ''v'')] of Inr b \<Rightarrow> length b \<le> 100 | _ \<Rightarrow> True)"
    "length (rdb_preamble (plain_env 0) [(''k'', string_value ''v'')]) \<le> 1000" by code_simp+
  then have len: "int (length bytes) \<le> maxAlloc" if "SaveRDB (base (plain_cmd_env 0)) (kv_Export (store (srv ?n))) = Inr bytes" for bytes
    using that by (auto simp: st kv_Export_def SaveRDB_def Let_def writeChecksum_def maxAlloc_def split: sum.splits)
  show ?thesis
    using psync_transfers_store [OF r, of 2 "NewWriter 2" "plain_cmd_env 0" ?t "plain_cmd_env 9" 5, OF _ _ cl(1) _ cl(2) len]
    by (auto simp: st savable_def gone_def string_value_def)
qed

theorem propagate_exactly_witness:
  "\<exists>s'. PropagateCommand 1 (command_resp [''SET'', ''k'', ''v'']) (srv master_node) = Ret s' \<and>
    conn_out (client_of s' 2) = conn_out (client_of (srv master_node) 2) @ CreateCommand [''SET'', ''k'', ''v'']"
proof -
  have "sendable [''SET'', ''k'', ''v'']" by code_simp
  from propagate_exactly [OF master_node_replica(5) RAW_command [OF this], of 1] master_node_replica(1,2)
  show ?thesis by auto
qed

section \<open>The handshake\<close>

lemma client_Send_idle:
  assumes "\<not> closed x" and "written (Writer x) = []" and "b \<noteq> []" and "client_of s m = x"
  shows "client_Send env m (put_writer m (emit b (Writer x)) s) = (set_client m (x\<lparr>conn_out := conn_out x @ b\<rparr>) s, None)"
proof -
  have w: "(Writer x)\<lparr>written := []\<rparr> = Writer x" using assms(2) by (cases "Writer x") simp
  have "client_Send env m (put_writer m (emit b (Writer x)) s)
      = (set_client m (x\<lparr>conn_out := conn_out x @ b, Writer := (Writer x)\<lparr>written := []\<rparr>\<rparr>) s, None)"
    using assms by (simp add: client_Send_def send_writer_def Flush_def Let_def conn_write_def update_client_def put_writer_def emit_def)
  also have "x\<lparr>conn_out := conn_out x @ b, Writer := (Writer x)\<lparr>written := []\<rparr>\<rparr> = x\<lparr>conn_out := conn_out x @ b\<rparr>"
    unfolding w by simp
  finally show ?thesis .
qed

text \<open>A replica in the middle of the handshake: what it has sent so far and the step it is in, before and
  after \<open>commandSender\<close> has queued the request.\<close>

definition sent_step :: "nat \<Rightarrow> handshake_step \<Rightarrow> string \<Rightarrow> server \<Rightarrow> bool" where
  "sent_step m st sent t \<longleftrightarrow> handshake t = st \<and> responseWaitQueue t = [] \<and> sentRequest t = Some (requests t) \<and>
     idle (client_of t m) \<and> conn_out (client_of t m) = sent"

definition in_step :: "nat \<Rightarrow> handshake_step \<Rightarrow> string \<Rightarrow> server \<Rightarrow> bool" where
  "in_step m st sent t \<longleftrightarrow> handshake t = st \<and> responseWaitQueue t = [requests t] \<and> sentRequest t = None \<and>
     idle (client_of t m) \<and> conn_out (client_of t m) = sent"

lemma client_of_master [simp]:
  "client_of (s\<lparr>requests := k\<rparr>) = client_of s" "client_of (s\<lparr>responseWaitQueue := q\<rparr>) = client_of s"
  "client_of (s\<lparr>sentRequest := r\<rparr>) = client_of s" "client_of (s\<lparr>handshake := h\<rparr>) = client_of s"
  by (simp_all add: client_of_def fun_eq_iff)

lemma queue_step: "sent_step m st sent t \<Longrightarrow> in_step m st sent (queue_request t) \<and> store (queue_request t) = store t \<and> cfg (queue_request t) = cfg t"
proof -
  have "client_of (s\<lparr>responseWaitQueue := q, sentRequest := r\<rparr>) = client_of s" for s q r by (simp add: client_of_def fun_eq_iff)
  then show "sent_step m st sent t \<Longrightarrow> ?thesis" by (simp add: sent_step_def in_step_def queue_request_def)
qed

lemma command_nonempty [simp]: "step_command env st s \<noteq> []"
  by (simp add: step_command_def CreatePingCommand_def CreateReplconfCommand_def CreatePsyncCommand_def CreateCommand_raw raw_command
      len_line_def Let_def split: handshake_step.splits)

lemma begin_step_sent:
  assumes "idle (client_of s m)" and "responseWaitQueue s = []"
  shows "sent_step m st (conn_out (client_of s m) @ step_command (base env) st s) (begin_step env m st s) \<and>
    store (begin_step env m st s) = store s \<and> cfg (begin_step env m st s) = cfg s"
proof -
  let ?s = "s\<lparr>requests := requests s + 1\<rparr>"
  have c: "client_of ?s m = client_of s m" "client_of (s\<lparr>sentRequest := q, handshake := h\<rparr>) = client_of s"
    "client_of (s\<lparr>requests := k, sentRequest := q, handshake := h\<rparr>) = client_of s" for q h k
    by (simp_all add: client_of_def fun_eq_iff)
  with assms c client_Send_idle [of "client_of s m" "step_command (base env) st s" ?s m env] show ?thesis
    by (simp add: begin_step_def commandSender_def Let_def idle_def sent_step_def)
qed

lemma step_command_cfg: "cfg t = cfg s \<Longrightarrow> step_command env st t = step_command env st s"
  by (simp add: step_command_def split: handshake_step.splits)

text \<open>Reading a status line that is not the answer to \<open>PSYNC\<close>.\<close>

lemma read_status:
  assumes "a = ''OK'' \<or> a = ''PONG''"
  shows "handleMasterConnection env m [] (CHR ''+'' # a @ crlf) t = MReady [] (dispatchResponse env m (line_resp (CHR ''+'') a) t)"
proof -
  let ?r = "line_resp (CHR ''+'') a"
  define x where "x = CHR ''+'' # a @ crlf"
  have lf: "LF \<notin> set a" using assms by auto
  then have "wf_resp ?r" by (simp add: line_resp_def)
  from parse_raw [OF this, of "[]"] have parse: "ParseResp x = POk ?r []" by (simp add: line_resp_def x_def)
  have read: "ReadBytes x = Some (x, [])" using ReadBytes_line [of "CHR ''+'' # a" "[]"] lf by (simp add: x_def)
  have str: "String ?r = a" "Type ?r = CHR ''+''" by (simp_all add: line_resp_def)
  have "\<not> Contains a ''FULLRESYNC''" using assms by (auto simp: HasPrefix_def)
  then show ?thesis
    unfolding x_def [symmetric]
    by (subst handleMasterConnection.simps)
      (simp add: read master_part_def parse str handleMasterResponse_def handleMasterConnection.simps [of _ _ _ "[]"])
qed

lemma answer_step:
  assumes "in_step m st sent t" and "st \<in> {AwaitPing, AwaitPort, AwaitCapa}" and "a = ''OK'' \<or> a = ''PONG''"
  obtains t' where "handleMasterConnection env m [] (CHR ''+'' # a @ crlf) t = MReady [] t'"
    "sent_step m (next_step st) (sent @ step_command (base env) (next_step st) t) t'" "store t' = store t" "cfg t' = cfg t"
proof -
  let ?r = "line_resp (CHR ''+'') a"
  let ?t = "t\<lparr>responseWaitQueue := []\<rparr>"
  define t' where "t' = begin_step env m (next_step st) ?t"
  have "answer_ok st ?r" using assms(2,3) by (auto simp: answer_ok_def line_resp_def)
  then have "dispatchResponse env m ?r t = t'"
    using assms(1,2) by (auto simp: dispatchResponse_def in_step_def awaiting_def handshake_answer_def Let_def t'_def)
  with read_status [OF assms(3), of env m t] begin_step_sent [of ?t m "next_step st" env] assms(1) that [of t'] show thesis
    by (simp add: t'_def in_step_def step_command_cfg [of ?t t])
qed

text \<open>What may happen to the connection of a replica: \<open>commandSender\<close> queues the request it has sent, or bytes
  arrive.\<close>

datatype master_event = SenderQueues | Arrive string

fun master_run :: "cmd_env \<Rightarrow> nat \<Rightarrow> master_event list \<Rightarrow> server \<Rightarrow> server option" where
  "master_run env m [] s = Some s"
| "master_run env m (SenderQueues # evs) s = master_run env m evs (queue_request s)"
| "master_run env m (Arrive b # evs) s = (case handleMasterConnection env m [] b s of
     MReady buffer t \<Rightarrow> master_run env m evs t | _ \<Rightarrow> None)"

lemma handshake_round:
  assumes "sent_step m st sent t" and "st \<in> {AwaitPing, AwaitPort, AwaitCapa}" and "a = ''OK'' \<or> a = ''PONG''" and "cfg t = cfg s"
  obtains t' where "\<And>evs. master_run env m (SenderQueues # Arrive (CHR ''+'' # a @ crlf) # evs) t = master_run env m evs t'"
    "sent_step m (next_step st) (sent @ step_command (base env) (next_step st) s) t'" "store t' = store t" "cfg t' = cfg s"
proof -
  have q: "in_step m st sent (queue_request t)" "store (queue_request t) = store t" "cfg (queue_request t) = cfg t"
    using queue_step [OF assms(1)] by simp_all
  obtain t' where t': "handleMasterConnection env m [] (CHR ''+'' # a @ crlf) (queue_request t) = MReady [] t'"
    "sent_step m (next_step st) (sent @ step_command (base env) (next_step st) (queue_request t)) t'"
    "store t' = store (queue_request t)" "cfg t' = cfg (queue_request t)"
    by (rule answer_step [OF q(1) assms(2,3), of env]) blast
  show thesis
    by (rule that [of t']) (use t' q assms(4) step_command_cfg [of "queue_request t" s] in auto)
qed

text \<open>C20: the handshake of a replica. Started on a fresh connection and answered \<open>PONG\<close>, \<open>OK\<close>, \<open>OK\<close>, each answer read
  after \<open>commandSender\<close> has queued its request, a replica has sent exactly the four commands \<open>PING\<close>, \<open>REPLCONF
  listening-port\<close> with its configured port, \<open>REPLCONF capa\<close> and \<open>PSYNC\<close>, in this order and each after the
  answer to the one before, waits for the answer to the last, and has left its store alone. But the request is queued only
  after it has been sent: when \<open>PONG\<close> is read before that, it is dropped, the handshake stays where it
  is, sends nothing more, and its timeout fails it.\<close>

theorem handshake_reaches_psync:
  assumes "responseWaitQueue s = []"
  shows "(\<exists>t. master_run env m [SenderQueues, Arrive (''+PONG'' @ crlf), SenderQueues, Arrive (''+OK'' @ crlf), SenderQueues, Arrive (''+OK'' @ crlf), SenderQueues]
        (connect_master env m s) = Some t \<and>
      handshake t = AwaitPsync \<and> responseWaitQueue t = [requests t] \<and> store t = store s \<and>
      conn_out (client_of t m) = CreatePingCommand @
        CreateReplconfCommand [''listening-port'', TrimPrefix (case config_Get (base env) (cfg s) ListenAddrKey of Inl _ \<Rightarrow> [] | Inr v \<Rightarrow> v) '':''] @
        CreateReplconfCommand [''capa'', ''psync2''] @ CreatePsyncCommand ''?'' ''-1'') \<and>
    (\<exists>t. master_run env m [Arrive (''+PONG'' @ crlf), SenderQueues] (connect_master env m s) = Some t \<and>
      handshake t = AwaitPing \<and> conn_out (client_of t m) = CreatePingCommand \<and>
      handshake (handshake_timeout t) = Failed ''failed to send PING to master: timeout waiting for PING response'')"
proof
  let ?s = "(set_client m (NewClient (base env) (masterAddr s)) s)\<lparr>masterClient := Some m\<rparr>"
  let ?cmd = "\<lambda>st. step_command (base env) st s"
  have pong: "''PONG'' = ''OK'' \<or> ''PONG'' = ''PONG''" and ok: "''OK'' = ''OK'' \<or> ''OK'' = ''PONG''" by blast+
  define t0 where "t0 = connect_master env m s"
  have "client_of ?s m = NewClient (base env) (masterAddr s)" by (simp add: client_of_def set_client_def)
  with begin_step_sent [of ?s m AwaitPing env] assms have t0: "sent_step m AwaitPing (?cmd AwaitPing) t0" "store t0 = store s" "cfg t0 = cfg s"
    using step_command_cfg [of ?s s "base env" AwaitPing]
    by (simp_all add: t0_def connect_master_def startReplication_def idle_def NewClient_def NewWriter_def)
  obtain t1 where t1: "\<And>evs. master_run env m (SenderQueues # Arrive (CHR ''+'' # ''PONG'' @ crlf) # evs) t0 = master_run env m evs t1"
    "sent_step m (next_step AwaitPing) (?cmd AwaitPing @ ?cmd (next_step AwaitPing)) t1" "store t1 = store t0" "cfg t1 = cfg s"
    by (rule handshake_round [OF t0(1) _ pong t0(3), of env]) blast+
  have i1: "sent_step m AwaitPort (?cmd AwaitPing @ ?cmd AwaitPort) t1" using t1(2) by (simp add: next_step_def)
  obtain t2 where t2: "\<And>evs. master_run env m (SenderQueues # Arrive (CHR ''+'' # ''OK'' @ crlf) # evs) t1 = master_run env m evs t2"
    "sent_step m (next_step AwaitPort) ((?cmd AwaitPing @ ?cmd AwaitPort) @ ?cmd (next_step AwaitPort)) t2" "store t2 = store t1" "cfg t2 = cfg s"
    by (rule handshake_round [OF i1 _ ok t1(4), of env]) blast+
  have i2: "sent_step m AwaitCapa ((?cmd AwaitPing @ ?cmd AwaitPort) @ ?cmd AwaitCapa) t2" using t2(2) by (simp add: next_step_def)
  obtain t3 where t3: "\<And>evs. master_run env m (SenderQueues # Arrive (CHR ''+'' # ''OK'' @ crlf) # evs) t2 = master_run env m evs t3"
    "sent_step m (next_step AwaitCapa) (((?cmd AwaitPing @ ?cmd AwaitPort) @ ?cmd AwaitCapa) @ ?cmd (next_step AwaitCapa)) t3" "store t3 = store t2" "cfg t3 = cfg s"
    by (rule handshake_round [OF i2 _ ok t2(4), of env]) blast+
  have "sent_step m AwaitPsync (((?cmd AwaitPing @ ?cmd AwaitPort) @ ?cmd AwaitCapa) @ ?cmd AwaitPsync) t3" using t3(2) by (simp add: next_step_def)
  note i3 = queue_step [OF this]
  have "master_run env m [SenderQueues, Arrive (CHR ''+'' # ''PONG'' @ crlf), SenderQueues, Arrive (CHR ''+'' # ''OK'' @ crlf), SenderQueues,
      Arrive (CHR ''+'' # ''OK'' @ crlf), SenderQueues] t0 = Some (queue_request t3)"
    by (simp only: t1(1) t2(1) t3(1)) simp
  with i3 t0(2) t1(3) t2(3) t3(3)
  show "\<exists>t. master_run env m [SenderQueues, Arrive (''+PONG'' @ crlf), SenderQueues, Arrive (''+OK'' @ crlf), SenderQueues, Arrive (''+OK'' @ crlf), SenderQueues]
        (connect_master env m s) = Some t \<and>
      handshake t = AwaitPsync \<and> responseWaitQueue t = [requests t] \<and> store t = store s \<and>
      conn_out (client_of t m) = CreatePingCommand @
        CreateReplconfCommand [''listening-port'', TrimPrefix (case config_Get (base env) (cfg s) ListenAddrKey of Inl _ \<Rightarrow> [] | Inr v \<Rightarrow> v) '':''] @
        CreateReplconfCommand [''capa'', ''psync2''] @ CreatePsyncCommand ''?'' ''-1''"
    by (intro exI [of _ "queue_request t3"]) (simp add: t0_def in_step_def step_command_def Let_def del: master_run.simps)
  have "dispatchResponse env m (line_resp (CHR ''+'') ''PONG'') t0 = t0" using t0(1) by (simp add: dispatchResponse_def sent_step_def)
  then have "master_run env m [Arrive (''+PONG'' @ crlf), SenderQueues] t0 = Some (queue_request t0)"
    using read_status [OF pong, of env m t0] by simp
  moreover have "in_step m AwaitPing (?cmd AwaitPing) (queue_request t0)" using queue_step [OF t0(1)] by simp
  ultimately show "\<exists>t. master_run env m [Arrive (''+PONG'' @ crlf), SenderQueues] (connect_master env m s) = Some t \<and>
      handshake t = AwaitPing \<and> conn_out (client_of t m) = CreatePingCommand \<and>
      handshake (handshake_timeout t) = Failed ''failed to send PING to master: timeout waiting for PING response''"
    unfolding t0_def [symmetric]
    by (intro exI [of _ "queue_request t0"])
      (simp add: in_step_def step_command_def handshake_timeout_def awaiting_def fail_handshake_def step_error_def step_name_def)
qed

theorem handshake_reaches_psync_witness:
  "(\<exists>t. master_run (plain_cmd_env 0) 5 [SenderQueues, Arrive (''+PONG'' @ crlf), SenderQueues, Arrive (''+OK'' @ crlf), SenderQueues, Arrive (''+OK'' @ crlf), SenderQueues]
      (connect_master (plain_cmd_env 0) 5 example_server) = Some t \<and> handshake t = AwaitPsync) \<and>
   (\<exists>t. master_run (plain_cmd_env 0) 5 [Arrive (''+PONG'' @ crlf), SenderQueues] (connect_master (plain_cmd_env 0) 5 example_server) = Some t \<and>
      handshake t = AwaitPing)"
proof -
  have "responseWaitQueue example_server = []" by (simp add: example_server_def)
  from handshake_reaches_psync [OF this, of "plain_cmd_env 0" 5] show ?thesis by blast
qed

end
