(* ===== verification/Stream_Props.thy ===== *)
theory Stream_Props
  imports Command_Contract
begin

text \<open>
  The properties of the stream commands: what they read from a well formed store never panics,
  \<open>XRANGE\<close> returns what \<open>XADD\<close> has added, and a reader that waits in \<open>XREAD\<close> is sent the entry that
  is added meanwhile.
\<close>

section \<open>Formatting\<close>

definition field_values :: "string list \<Rightarrow> goval list" where
  "field_values f = [GScalar (GString (f ! 0)), GScalar (GString (f ! 1))]"

definition entry_value :: "stream_entry \<Rightarrow> goval" where
  "entry_value e = GSlice [GScalar (GString (ID e)), GSlice (concat (map field_values (Fields e)))]"

lemma format_fields_paired: "paired flds \<Longrightarrow> format_fields flds = Ret (concat (map field_values flds))"
proof (induction flds)
  case (Cons f flds)
  then obtain a b where "f = [a, b]" by (auto simp: paired_def length_Suc_conv numeral_2_eq_2)
  with Cons show ?case by (simp add: paired_def field_values_def)
qed simp

lemma formatEntries_paired: "\<forall>e \<in> set es. paired (Fields e) \<Longrightarrow> formatEntries es = Ret (map entry_value es)"
  by (induction es) (simp_all add: format_fields_paired entry_value_def)

lemma Range_subset: "stream_ok x \<Longrightarrow> set (stream_Range x a b cnt) \<subseteq> set (tree_entries (tree x))"
  by (auto simp: stream_Range_def stream_ok_def Range_entries limit_def split: prod.splits if_splits dest: in_set_takeD)

lemma Range_paired: "stream_ok x \<Longrightarrow> e \<in> set (stream_Range x a b cnt) \<Longrightarrow> paired (Fields e)"
  using Range_subset [of x a b cnt] by (auto simp: stream_ok_def)

section \<open>No panics\<close>

definition returns :: "cres \<Rightarrow> bool" where
  "returns res = (case res of Done s w err \<Rightarrow> True | _ \<Rightarrow> False)"

lemma returns_simps [simp]:
  "returns (Done s w err)" "returns (write_err m s w)" "returns (write_ok s w)" "returns (done_w s r)"
  by (simp_all add: returns_def write_err_def write_ok_def done_w_def)

lemma GetStream_cases:
  assumes "wf_store st"
  obtains err where "kv_GetStream st k create = (Ret (Inl err), st)"
  | "kv_GetStream st k create = (Ret (Inr None), st)" "\<not> create"
  | x st' where "kv_GetStream st k create = (Ret (Inr (Some x)), st')" "stream_ok x"
proof (cases "kv_GetStream st k create")
  case (Pair g st')
  have "g \<noteq> Panic" using kv_GetStream_no_panic [OF assms, of k create] Pair by simp
  then consider err where "g = Ret (Inl err)" | "g = Ret (Inr None)" | x where "g = Ret (Inr (Some x))"
    by (metis go.exhaust not_Some_eq sum.exhaust)
  then show thesis
  proof cases
    case (1 err)
    with Pair that(1) [of err] show thesis
      by (auto simp: kv_GetStream_def split: option.splits if_splits value_data.splits)
  next
    case 2
    with Pair that(2) show thesis by (auto simp: kv_GetStream_def split: option.splits if_splits value_data.splits)
  next
    case (3 x)
    with Pair that(3) GetStream_wf [OF assms] show thesis by blast
  qed
qed

lemma returns_xrange: "wf_store (store s) \<Longrightarrow> returns (XRange_Execute env args s w)"
proof -
  assume wf: "wf_store (store s)"
  have "formatEntries (stream_Range x a b cnt) = Ret (map entry_value (stream_Range x a b cnt))" if "stream_ok x" for x a b cnt
    using Range_paired [OF that] by (simp add: formatEntries_paired)
  with wf show ?thesis
    by (rule_tac k = "String (args ! 0)" and create = False in GetStream_cases)
      (auto simp: XRange_Execute_def split: option.splits sum.splits prod.splits)
qed

lemma readStreams_returns:
  assumes "wf_store st" and "\<forall>r \<in> set result. \<forall>e \<in> set (snd r). paired (Fields e)"
  shows "(\<exists>err. readStreams opts st streams result = Ret (Inl err)) \<or>
    (\<exists>res. readStreams opts st streams result = Ret (Inr res) \<and> (\<forall>r \<in> set res. \<forall>e \<in> set (snd r). paired (Fields e)))"
  using assms(2)
proof (induction streams arbitrary: result)
  case (Cons p streams)
  obtain k lastID where p: "p = (k, lastID)" by fastforce
  show ?case
  proof (rule GetStream_cases [OF assms(1), of k False])
    fix x st' assume g: "kv_GetStream st k False = (Ret (Inr (Some x)), st')" and x: "stream_ok x"
    have "\<forall>e \<in> set (xread_entries opts x lastID). paired (Fields e)"
      using Range_paired [OF x] by (auto simp: xread_entries_def split: if_splits)
    then have "\<forall>r \<in> set (if xread_entries opts x lastID = [] then result else map_put result k (xread_entries opts x lastID)).
        \<forall>e \<in> set (snd r). paired (Fields e)"
      using Cons.prems map_put_set [of result k "xread_entries opts x lastID"] by auto
    from Cons.IH [OF this] show ?thesis by (simp add: p g Let_def)
  qed (use Cons in \<open>simp_all add: p\<close>)
qed simp

lemma stream_response_returns:
  assumes "\<forall>r \<in> set res. \<forall>e \<in> set (snd r). paired (Fields e)"
  shows "\<exists>r. stream_response order res = Ret r"
proof -
  have "\<exists>es. formatEntries ents = Ret es" if "map_of res k = Some ents" for k ents
    using assms map_of_SomeD [OF that] formatEntries_paired [of ents] by fastforce
  then show ?thesis
    unfolding stream_response_def by (induction order) (fastforce split: option.splits)+
qed

lemma returns_xread_write: "\<forall>r \<in> set res. \<forall>e \<in> set (snd r). paired (Fields e) \<Longrightarrow> returns (XRead_writeResult v order res s w)"
  using stream_response_returns [of res order] by (auto simp: XRead_writeResult_def)

text \<open>A number is no option name, so the option \<open>IsBlocking\<close> finds is the one \<open>parseArgs\<close> takes.\<close>

lemma ParseUint_digits: "ParseUint b = Inr n \<Longrightarrow> b \<noteq> [] \<and> list_all is_digit b"
proof -
  have "list_all is_digit s" if "parse_digits m s = Inr n" for m s n
    using that by (induction m s rule: parse_digits.induct) (auto split: if_splits)
  then show "ParseUint b = Inr n \<Longrightarrow> ?thesis" by (auto simp: ParseUint_def parse_uint_def split: sum.splits if_splits)
qed

lemma upper_digits: "list_all is_digit b \<Longrightarrow> ToUpper env b = b"
proof -
  have "ascii c \<and> upper_char c = c" if "is_digit c" for c
    using that by (auto simp: is_digit_def ascii_def upper_char_def)
  then show "list_all is_digit b \<Longrightarrow> ?thesis"
    by (simp add: ToUpper_def list_all_iff map_idI)
qed


lemma Uint64_not_block: "Uint64 v = Inr n \<Longrightarrow> ToUpper env (String v) \<noteq> ''BLOCK''"
proof
  assume "Uint64 v = Inr n" and up: "ToUpper env (String v) = ''BLOCK''"
  then have "ParseUint (String v) = Inr n"
    by (cases v rule: data_bytes.cases) (auto simp: Uint64_def split: sum.splits)
  from ParseUint_digits [OF this] have "list_all is_digit (String v)" by simp
  with upper_digits [OF this, of env] up have "list_all is_digit ''BLOCK''" by simp
  then show False by (simp add: is_digit_def)
qed

lemma parseArgs_blocking:
  "XRead_parseArgs env args opts = Inr (opts', order) \<Longrightarrow> xr_Block opts = None \<Longrightarrow> xr_Block opts' \<noteq> None \<Longrightarrow> XRead_IsBlocking env args"
proof (induction env args opts rule: XRead_parseArgs.induct)
  case (2 env a rest opts)
  let ?up = "ToUpper env (String a)"
  consider (count) "?up = ''COUNT''" | (block) "?up = ''BLOCK''" | (streams) "?up = ''STREAMS''" | (other) "?up \<notin> {''COUNT'', ''BLOCK'', ''STREAMS''}"
    by blast
  then show ?case
  proof cases
    case count
    with "2.prems"(1) obtain v rest' n where r: "rest = v # rest'" "Uint64 v = Inr n" "XRead_parseArgs env rest' (opts\<lparr>xr_Count := n\<rparr>) = Inr (opts', order)"
      by (auto simp: Let_def split: list.splits sum.splits)
    from "2.IH"(1) [OF refl count r(1,2)] r(3) "2.prems" have "XRead_IsBlocking env rest'" by simp
    with r count Uint64_not_block [OF r(2), of env] show ?thesis by simp
  next
    case block
    with "2.prems"(1) obtain v rest' i where r: "rest = v # rest'" "Int64 v = Inr i"
      by (auto simp: Let_def split: list.splits sum.splits)
    then have "ParseInt (String v) = Inr i"
      by (cases v rule: data_bytes.cases) (auto simp: Int64_def split: sum.splits)
    with r block show ?thesis by simp
  qed (use "2.prems" in \<open>auto simp: Let_def split: if_splits\<close>)
qed simp

lemma returns_xread:
  assumes "wf_store (store s)" and "\<not> XRead_IsBlocking env args"
  shows "returns (XRead_Execute env c args s w)"
proof (cases "XRead_parseArgs env args \<lparr>xr_Count = 0, xr_Block = None, xr_Streams = []\<rparr>")
  case (Inl err)
  then show ?thesis by (simp add: XRead_Execute_def)
next
  case (Inr p)
  obtain opts order where p: "p = (opts, order)" by fastforce
  have "xr_Block opts = None" using parseArgs_blocking [OF Inr [unfolded p]] assms(2) by (cases "xr_Block opts") auto
  with readStreams_returns [OF assms(1), of "[]" opts "xr_Streams opts"] show ?thesis
    by (auto simp: XRead_Execute_def Inr p Let_def returns_xread_write)
qed

lemma returns_xadd_run: "wf_store (store s) \<Longrightarrow> returns (XAdd_run env k opts eid flds s w)"
  by (rule_tac k = k and create = "\<not> Nomkstream opts" in GetStream_cases) (auto simp: XAdd_run_def split: prod.splits sum.splits)

text \<open>Arguments that end in \<open>MAXLEN\<close> or \<open>MINID\<close>, perhaps \<open>=\<close>, and one last argument.\<close>

definition threshold_word :: "go_env \<Rightarrow> resp \<Rightarrow> bool" where
  "threshold_word env a \<longleftrightarrow> ToUpper env (String a) \<in> {''MAXLEN'', ''MINID''}"

definition ends_in_threshold :: "go_env \<Rightarrow> resp list \<Rightarrow> bool" where
  "ends_in_threshold env args = (case rev args of
       v # a # before \<Rightarrow> threshold_word env a \<or> String a = ''='' \<and> (case before of b # _ \<Rightarrow> threshold_word env b | [] \<Rightarrow> False)
     | _ \<Rightarrow> False)"

lemma ends_in_append: "ends_in_threshold env args \<Longrightarrow> ends_in_threshold env (pre @ args)"
  by (auto simp: ends_in_threshold_def split: list.splits)

lemma ends_in_Cons: "ends_in_threshold env args \<Longrightarrow> ends_in_threshold env (a # args)"
  using ends_in_append [of env args "[a]"] by simp

lemma threshold_ends:
  assumes "threshold_word env a" and "xadd_threshold rest = Inr r" and "tl r = []"
  shows "ends_in_threshold env (a # rest)"
proof -
  obtain v where "r = [v]" using xadd_threshold_length [OF assms(2)] assms(3) by (cases r) auto
  with assms(2) have "rest = [v] \<or> (\<exists>q. rest = [q, v] \<and> String q = ''='')"
    by (auto simp: xadd_threshold_def split: list.splits if_splits)
  with assms(1) show ?thesis by (auto simp: ends_in_threshold_def)
qed

lemma threshold_suffix: "xadd_threshold rest = Inr r \<Longrightarrow> \<exists>pre. rest = pre @ tl r"
proof -
  assume r: "xadd_threshold rest = Inr r"
  then have "r = rest \<or> r = tl rest" "rest \<noteq> []" by (auto simp: xadd_threshold_def split: list.splits if_splits)
  then have "tl r = drop 1 rest \<or> tl r = drop 2 rest" by (auto simp: drop_Suc numeral_2_eq_2 tl_drop)
  then show ?thesis by (metis append_take_drop_id)
qed

text \<open>Only such arguments make the loop over the arguments read beyond the last one.\<close>

lemma xadd_panic_ends: "xadd_args env args opts eid flds = XAddPanic \<Longrightarrow> ends_in_threshold env args"
proof (induction "length args" arbitrary: args opts eid flds rule: less_induct)
  case less
  show ?case
  proof (cases args)
    case Nil
    with less.prems show ?thesis by simp
  next
    case (Cons a rest)
    have one: "ends_in_threshold env args" if "xadd_args env rest o' i' f' = XAddPanic" for o' i' f'
      using less.hyps [OF _ that] Cons by (simp add: ends_in_Cons)
    let ?up = "ToUpper env (String a)"
    note run = less.prems [unfolded Cons xadd_args.simps Let_def]
    consider (switch) "?up = ''NOMKSTREAM''" | (threshold) "?up \<noteq> ''NOMKSTREAM''" "?up = ''MAXLEN'' \<or> ?up = ''MINID''"
      | (plain) "?up \<noteq> ''NOMKSTREAM''" "\<not> (?up = ''MAXLEN'' \<or> ?up = ''MINID'')" by blast
    then show ?thesis
    proof cases
      case switch
      with run show ?thesis by (simp add: one)
    next
      case threshold
      then have w: "threshold_word env a" by (auto simp: threshold_word_def)
      from threshold run obtain r where r: "xadd_threshold rest = Inr r" by (cases "xadd_threshold rest") auto
      show ?thesis
      proof (cases "tl r = []")
        case True
        then show ?thesis using threshold_ends [OF w r] Cons by simp
      next
        case False
        with threshold run r obtain o2 where "xadd_args env (tl r) o2 eid flds = XAddPanic"
          by (auto split: sum.splits if_splits)
        moreover have "length (tl r) < length args" using xadd_threshold_length [OF r] Cons by auto
        ultimately have "ends_in_threshold env (tl r)" by (intro less.hyps)
        moreover obtain pre where "rest = pre @ tl r" using threshold_suffix [OF r] by blast
        ultimately show ?thesis using ends_in_append [of env "tl r" "a # pre"] Cons by simp
      qed
    next
      case plain
      show ?thesis
      proof (cases "eid = []")
        case True
        with plain run show ?thesis by (simp add: one)
      next
        case False
        with plain run obtain v rest' f' where v: "rest = v # rest'" "xadd_args env rest' opts eid f' = XAddPanic"
          by (cases rest) auto
        have "length rest' < length args" using v(1) Cons by simp
        from less.hyps [OF this v(2)] show ?thesis using v(1) Cons by (simp add: ends_in_Cons)
      qed
    qed
  qed
qed

lemma returns_xadd:
  assumes "wf_store (store s)" and "\<not> ends_in_threshold env args"
  shows "returns (XAdd_Execute env args s w)"
proof -
  have "\<not> ends_in_threshold env (drop 1 args)"
    using assms(2) ends_in_append [of env "drop 1 args" "take 1 args"] by auto
  then have "xadd_args env (drop 1 args) \<lparr>Nomkstream = False, MaxLen = 0, MinID = []\<rparr> [] [] \<noteq> XAddPanic"
    using xadd_panic_ends by blast
  with assms(1) show ?thesis by (auto simp: XAdd_Execute_def Let_def returns_xadd_run split: xadd_parse.splits)
qed

section \<open>XADD, then XRANGE\<close>

lemma GetStream_put:
  "kv_GetStream st0 k True = (Ret (Inr (Some x)), st) \<Longrightarrow> kv_GetStream (put_stream st k y) k create = (Ret (Inr (Some y)), put_stream st k y)"
  by (auto simp: kv_GetStream_def put_stream_def split: option.splits if_splits value_data.splits)

definition pair_args :: "(string \<times> string) list \<Rightarrow> string list" where
  "pair_args fvs = concat (map (\<lambda>(f, v). [f, v]) fvs)"

definition pair_fields :: "(string \<times> string) list \<Rightarrow> string list list" where
  "pair_fields fvs = map (\<lambda>(f, v). [f, v]) fvs"

lemma xadd_args_pairs:
  assumes "eid \<noteq> []" and "\<forall>fv \<in> set fvs. \<not> xadd_keyword env (fst fv)"
  shows "xadd_args env (map bulk (pair_args fvs) @ others) opts eid flds = xadd_args env others opts eid (flds @ pair_fields fvs)"
  using assms(2)
proof (induction fvs arbitrary: flds)
  case (Cons fv fvs)
  obtain f v where fv: "fv = (f, v)" by fastforce
  with Cons assms(1) show ?case by (simp add: pair_args_def pair_fields_def xadd_keyword_def Let_def)
qed (simp add: pair_args_def pair_fields_def)

lemmas xadd_args_fields = xadd_args_pairs [where others = "[]", simplified]

text \<open>C39: any client can end the process with one command. An \<open>XADD\<close> with a key, an ID, any pairs of names and values and
  at its end \<open>MAXLEN\<close> with a number or \<open>MINID\<close> with a value (in any case of letters, with or without \<open>=\<close>) reads the
  argument after the last one, and nothing recovers the panic.\<close>

theorem xadd_trailing_threshold_crashes:
  assumes "eid \<noteq> []" and "\<not> xadd_keyword env eid" and "\<forall>fv \<in> set fvs. \<not> xadd_keyword env (fst fv)"
    and "ToUpper env kw = ''MAXLEN'' \<and> (\<exists>i. ParseInt n = Inr i) \<or> ToUpper env kw = ''MINID'' \<and> n \<noteq> ''='' \<and> n \<noteq> ''~''"
    and "eq = [] \<or> eq = [''='']"
  shows "XAdd_Execute env (map bulk (key # eid # pair_args fvs @ kw # eq @ [n])) s w = Crash"
proof -
  let ?o = "\<lparr>Nomkstream = False, MaxLen = 0, MinID = []\<rparr>"
  have n: "n \<noteq> ''=''" "n \<noteq> ''~''" using assms(4) by (auto simp: ParseInt_def parse_int_def parse_uint_def is_digit_def)
  then have "xadd_threshold (map bulk (eq @ [n])) = Inr [bulk n]" using assms(5) by (auto simp: xadd_threshold_def)
  with assms(4) have "xadd_args env (map bulk (kw # eq @ [n])) o' i' f' = XAddPanic" for o' i' f'
    by (auto simp: Let_def Int64_bulk)
  moreover have "xadd_args env (bulk eid # map bulk (pair_args fvs @ kw # eq @ [n])) ?o [] []
      = xadd_args env (map bulk (pair_args fvs) @ map bulk (kw # eq @ [n])) ?o eid []"
    using assms(2) by (simp add: xadd_keyword_def Let_def)
  ultimately have "xadd_args env (bulk eid # map bulk (pair_args fvs @ kw # eq @ [n])) ?o [] [] = XAddPanic"
    by (simp only: xadd_args_pairs [OF assms(1,3)])
  then show ?thesis by (simp add: XAdd_Execute_def Let_def)
qed

theorem xadd_trailing_threshold_crashes_witness:
  "XAdd_Execute (plain_env 0) (map bulk [''s'', ''*'', ''f'', ''v'', ''maxlen'', ''='', ''5'']) example_server (NewWriter 2) = Crash"
proof -
  have "ParseInt ''5'' = Inr 5" "ToUpper (plain_env 0) ''maxlen'' = ''MAXLEN''" "\<not> xadd_keyword (plain_env 0) ''*''"
    "\<not> xadd_keyword (plain_env 0) ''f''" by code_simp+
  with xadd_trailing_threshold_crashes [of "''*''" "plain_env 0" "[(''f'', ''v'')]" "''maxlen''" "''5''" "[''='']" "''s''" example_server "NewWriter 2"]
  show ?thesis by (simp add: pair_args_def)
qed

lemma XAdd_Execute_fields:
  assumes "eid \<noteq> []" and "\<not> xadd_keyword env eid" and "\<forall>fv \<in> set fvs. \<not> xadd_keyword env (fst fv)" and "fvs \<noteq> []"
  shows "XAdd_Execute env (map bulk (k # eid # pair_args fvs)) s w
    = XAdd_run env k \<lparr>Nomkstream = False, MaxLen = 0, MinID = []\<rparr> eid (pair_fields fvs) s w"
proof -
  let ?o = "\<lparr>Nomkstream = False, MaxLen = 0, MinID = []\<rparr>"
  have "2 \<le> length (pair_args fvs)" "pair_fields fvs \<noteq> []"
    using assms(4) by (cases fvs; simp add: pair_args_def pair_fields_def split: prod.splits)+
  moreover have "xadd_args env (bulk eid # map bulk (pair_args fvs)) ?o [] [] = xadd_args env (map bulk (pair_args fvs)) ?o eid []"
    using assms(2) by (simp add: xadd_keyword_def Let_def)
  ultimately show ?thesis
    using assms(1) by (simp add: XAdd_Execute_def Let_def xadd_args_fields [OF assms(1,3)])
qed

text \<open>A valid ID is below the end of every range.\<close>

lemma ParseInt_head: "ParseInt p = Inr i \<Longrightarrow> p \<noteq> [] \<and> hd p \<noteq> CHR 0xFF"
  by (cases p) (auto simp: ParseInt_def parse_int_def parse_uint_def is_digit_def split: if_splits sum.splits)

lemma Split_head: "eid \<noteq> [] \<Longrightarrow> hd eid \<noteq> sep \<Longrightarrow> Split eid sep ! 0 \<noteq> [] \<and> hd (Split eid sep ! 0) = hd eid"
  by (cases eid) (auto split: list.splits)

lemma valid_below: "ValidateID eid = (True, sid) \<Longrightarrow> sid \<le> [CHR 0xFF]"
proof -
  assume v: "ValidateID eid = (True, sid)"
  have "sid \<noteq> [] \<and> hd sid \<noteq> CHR 0xFF"
  proof (cases "eid = ''+'' \<or> eid = ''-''")
    case True
    with v show ?thesis by (auto simp: ValidateID_def)
  next
    case False
    with v have p: "\<exists>i. ParseInt (Split eid (CHR ''-'') ! 0) = Inr i" and s: "sid = eid \<or> sid = eid @ ''-0''"
      by (auto simp: ValidateID_def Let_def split: if_splits sum.splits)
    have "eid \<noteq> []" using p ParseInt_head by (cases eid) auto
    moreover have "hd eid \<noteq> CHR 0xFF"
      using p ParseInt_head Split_head [OF \<open>eid \<noteq> []\<close>, of "CHR ''-''"] by (cases "hd eid = CHR ''-''") auto
    ultimately show ?thesis using s by auto
  qed
  then obtain c r where "sid = c # r" "c \<noteq> CHR 0xFF" by (cases sid) auto
  moreover have "c \<le> CHR 0xFF"
    by (cases c) (simp add: less_eq_char_def of_char_def)
  ultimately show ?thesis by (simp add: less_le)
qed

lemma XRange_all:
  assumes "kv_GetStream (store s) k False = (Ret (Inr (Some x)), store s)" and "stream_ok x"
    and "\<forall>e \<in> set (tree_entries (tree x)). ID e \<le> [CHR 0xFF]" and "framed (respVersion w) (GSlice (map entry_value (tree_entries (tree x))))"
  shows "XRange_Execute env (map bulk [k, ''-'', ''+'']) s w
    = Done s (emit (raw (reply (respVersion w) (GSlice (map entry_value (tree_entries (tree x)))))) w) None"
proof -
  have v: "ValidateID ''-'' = (True, ''-'')" "ValidateID ''+'' = (True, ''+'')" by (simp_all add: ValidateID_def)
  have all: "stream_Range x ''-'' ''+'' 0 = tree_entries (tree x)"
    using assms(2,3) by (auto simp: stream_Range_def v stream_ok_def Range_entries limit_def filter_id_conv)
  have f: "formatEntries (tree_entries (tree x)) = Ret (map entry_value (tree_entries (tree x)))"
    using assms(2) by (simp add: formatEntries_paired stream_ok_def)
  have "WriteSlice (map entry_value (tree_entries (tree x))) w = WriteValue (GSlice (map entry_value (tree_entries (tree x)))) w"
    by (simp add: WriteSlice_def)
  then show ?thesis
    using value_emits [OF assms(4)] assms(1)
    by (simp add: XRange_Execute_def XRange_validateArgs_def XRange_parseArgs_def parseStreamID_def all f done_w_def)
qed

text \<open>C9: a stream as a log, over the commands. Take any well formed server and a key that holds a stream in ID
  order (or nothing). \<open>XADD\<close> with a valid ID above the last one and any pairs of names and values
  answers the ID; \<open>XRANGE\<close> with \<open>-\<close> and \<open>+\<close> then answers, as one array that the client reads back, exactly
  the entries the stream held before and after them the new one, with its pairs.\<close>

theorem xadd_then_xrange:
  assumes "wf_store (store s)" and "kv_GetStream (store s) k True = (Ret (Inr (Some x)), st)" and "in_order (tree x)"
    and "eid \<noteq> ''*''" and "\<not> HasSuffix eid ''-*''" and "ValidateID eid = (True, sid)" and "IsLargestID (tree x) sid"
    and "\<not> xadd_keyword env eid" and "fvs \<noteq> []" and "\<forall>fv \<in> set fvs. \<not> xadd_keyword env (fst fv)"
    and "es = tree_entries (tree x) @ [\<lparr>ID = sid, Fields = pair_fields fvs\<rparr>]" and "framed (respVersion w') (GSlice (map entry_value es))"
  shows "\<exists>s' b. XAdd_Execute env (map bulk (k # eid # pair_args fvs)) s w = Done s' (WriteString sid w) None \<and>
    XRange_Execute env (map bulk [k, ''-'', ''+'']) s' w' = Done s' (emit b w') None \<and>
    ParseResp (b @ rest) = POk (reply (respVersion w') (GSlice (map entry_value es))) rest"
proof -
  let ?new = "\<lparr>ID = sid, Fields = pair_fields fvs\<rparr>"
  have "eid \<noteq> []" using assms(6) ParseInt_head [of "[]"] by (auto simp: ValidateID_def Let_def split: sum.splits)
  note run = XAdd_Execute_fields [OF this assms(8,10,9)]
  have x: "stream_ok x" and st: "wf_store st" using GetStream_wf [OF assms(1,2)] by simp_all
  have le: "LastID (tree x) \<le> sid" using assms(7) by (auto simp: IsLargestID_def split: if_splits)
  define y where "y = x\<lparr>tree := AddEntry (tree x) sid (pair_fields fvs)\<rparr>"
  define h where "h = notifySubscribers y ?new (chans s)"
  define s' where "s' = s\<lparr>store := put_stream st k y, chans := h\<rparr>"
  have add: "stream_AddEntry env x \<lparr>ID = eid, Fields = pair_fields fvs\<rparr> (chans s) = (Inr sid, y, h)"
    by (simp add: stream_AddEntry_def entry_id_explicit [OF assms(4-7)] y_def h_def Let_def)
  have y: "tree_entries (tree y) = es" using rt.add_log [OF assms(3) le] by (simp add: y_def assms(11))
  have "paired (pair_fields fvs)" by (auto simp: paired_def pair_fields_def)
  then have ok: "stream_ok y" using stream_add_wf [OF x _ add] by simp
  have "ID e \<le> [CHR 0xFF]" if "e \<in> set es" for e
    using that rt.last_bound [OF assms(3)] le valid_below [OF assms(6)] by (auto simp: assms(11) intro: order_trans)
  moreover have "kv_GetStream (store s') k False = (Ret (Inr (Some y)), store s')"
    using GetStream_put [OF assms(2)] by (simp add: s'_def)
  ultimately have "XRange_Execute env (map bulk [k, ''-'', ''+'']) s' w'
      = Done s' (emit (raw (reply (respVersion w') (GSlice (map entry_value es)))) w') None"
    using XRange_all [of s' k y w' env] ok assms(12) by (simp add: y)
  moreover have "XAdd_Execute env (map bulk (k # eid # pair_args fvs)) s w = Done s' (WriteString sid w) None"
    by (simp only: run) (simp add: XAdd_run_def assms(2) add xadd_trim_def s'_def)
  ultimately show ?thesis using parse_raw [OF wf_reply [OF assms(12)], of rest] by blast
qed

theorem xadd_then_xrange_witness:
  "\<exists>s' b. XAdd_Execute (plain_env 0) (map bulk [''s'', ''5-1'', ''f'', ''v'']) example_server (NewWriter 2) = Done s' (WriteString ''5-1'' (NewWriter 2)) None \<and>
    XRange_Execute (plain_env 0) (map bulk [''s'', ''-'', ''+'']) s' (NewWriter 2) = Done s' (emit b (NewWriter 2)) None \<and>
    ParseResp b = POk (array_resp [array_resp [bulk ''5-1'', array_resp [bulk ''f'', bulk ''v'']]]) []"
proof -
  have g: "kv_GetStream (store example_server) ''s'' True = (Ret (Inr (Some NewStream)), [(''s'', \<lparr>VType = ValueTypeStream, VData = VStream NewStream, Expiry = 0\<rparr>)])"
    by (simp add: kv_GetStream_def NewStream_def)
  have "ValidateID ''5-1'' = (True, ''5-1'')" by code_simp
  moreover have "in_order (tree NewStream)" "tree_entries (tree NewStream) = []" by (simp_all add: NewStream_def in_order_new rt.new_log)
  moreover have "IsLargestID (tree NewStream) ''5-1''" by (simp add: NewStream_def IsLargestID_def NewRadixTree_def)
  moreover have "\<not> HasSuffix ''5-1'' ''-*''" "\<not> xadd_keyword (plain_env 0) ''5-1''" "\<not> xadd_keyword (plain_env 0) ''f''" by code_simp+
  ultimately show ?thesis
    using xadd_then_xrange [OF _ g, of "''5-1''" "''5-1''" "plain_env 0" "[(''f'', ''v'')]" "[\<lparr>ID = ''5-1'', Fields = [[''f'', ''v'']]\<rparr>]" "NewWriter 2" "NewWriter 2" "[]"]
    by (simp add: pair_args_def pair_fields_def entry_value_def field_values_def maxAlloc_def NewWriter_def)
qed

section \<open>A reader that waits\<close>

lemma readStreams_new:
  assumes "wf_store st" and "\<And>err. fst (kv_GetStream st k False) \<noteq> Ret (Inl err)"
  shows "readStreams opts st [(k, ''$'')] [] = Ret (Inr [])"
  by (rule GetStream_cases [OF assms(1), of k False]) (use assms(2) in \<open>auto simp: xread_entries_def\<close>)

lemma stream_key_no_error: "kv_GetStream st k True = (Ret (Inr (Some x)), st') \<Longrightarrow> fst (kv_GetStream st k False) \<noteq> Ret (Inl err)"
  by (auto simp: kv_GetStream_def split: option.splits if_splits value_data.splits)

text \<open>The first step: the streams have been read, nothing was there, and the names of the streams are in the shared field.\<close>

lemma XRead_reads:
  assumes "wf_store (store s)" and "\<And>err. fst (kv_GetStream (store s) k False) \<noteq> Ret (Inl err)" and "ParseInt ms = Inr i"
  shows "XRead_Execute env c (map bulk [''BLOCK'', ms, ''STREAMS'', k, ''$'']) s w =
    Blocks (s\<lparr>streamOrder := [k]\<rparr>) w (BlockedSubscribe [k] (wrap_i64 (i * 1000000)))"
proof -
  have "ToUpper env ''BLOCK'' = ''BLOCK''" "ToUpper env ''STREAMS'' = ''STREAMS''"
    by (simp_all add: ToUpper_def ascii_def upper_char_def)
  then show ?thesis using readStreams_new [OF assms(1,2)] assms(3) by (simp add: XRead_Execute_def Int64_bulk Let_def)
qed

text \<open>The second step: the subscription.\<close>

lemma XRead_subscribes:
  assumes "kv_GetStream (store s) k True = (Ret (Inr (Some x)), st)" and "ch = next_chan (chans s)" and "streamOrder s = [k]"
  shows "XRead_subscribe env [k] block s w =
    Blocks (s\<lparr>store := put_stream st k (x\<lparr>subscribers := subscribers x @ [ch]\<rparr>),
        chans := \<lparr>next_chan = ch + 1, queue_of = (queue_of (chans s))(ch \<mapsto> [])\<rparr>\<rparr>) w
      (BlockedXRead [(k, ch)] [Some ch] (if 0 < block then Some (now_ns env + block) else None))"
proof -
  have "chans s\<lparr>next_chan := ch + 1, queue_of := q\<rparr> = \<lparr>next_chan = ch + 1, queue_of = q\<rparr>" for q
    by (cases "chans s") simp
  then show ?thesis using assms by (simp add: XRead_subscribe_def Subscribe_def Let_def)
qed

text \<open>The entry an \<open>XADD\<close> puts on the channel of a waiting reader wakes it. The reply has the name that the
  shared field holds by then.\<close>

lemma xread_wake_entry:
  assumes "kv_GetStream (store s) k False = (Ret (Inr (Some x)), store s)" and "queue_of (chans s) ch = Some [e]"
    and "streamOrder s = [nm]" and "preferredRespVersion (client_of s c) \<noteq> RESP3" and "paired (Fields e)"
    and "framed (respVersion w) (GSlice [GSlice [GScalar (GString nm), GSlice [entry_value e]]])"
  shows "\<exists>s'. xread_wake env c [(k, ch)] [Some ch] deadline (Channel 0) s w =
      Done s' (emit (raw (reply (respVersion w) (GSlice [GSlice [GScalar (GString nm), GSlice [entry_value e]]]))) w) None \<and>
    store s' = put_stream (store s) k (x\<lparr>subscribers := filter (\<lambda>d. d \<noteq> ch) (subscribers x)\<rparr>) \<and> queue_of (chans s') ch = None"
proof -
  let ?v = "GSlice [GScalar (GString nm), GSlice [entry_value e]]"
  let ?h = "(chans s)\<lparr>queue_of := (queue_of (chans s))(ch \<mapsto> [])\<rparr>"
  define s' where "s' = s\<lparr>store := put_stream (store s) k (x\<lparr>subscribers := filter (\<lambda>d. d \<noteq> ch) (subscribers x)\<rparr>),
    chans := ?h\<lparr>queue_of := (queue_of ?h)(ch := None)\<rparr>\<rparr>"
  have "client_of s' = client_of s" by (simp add: s'_def client_of_def fun_eq_iff)
  moreover have "formatEntries [e] = Ret [entry_value e]" using formatEntries_paired [of "[e]"] assms(5) by simp
  then have "stream_response [nm] [(nm, [e])] = Ret [(nm, GSlice [entry_value e])]" by (simp add: stream_response_def)
  moreover have "WriteSlice [?v] w = WriteValue (GSlice [?v]) w" by (simp add: WriteSlice_def)
  ultimately have "XRead_writeResult (preferredRespVersion (client_of s' c)) [nm] [(nm, [e])] s' w
      = Done s' (emit (raw (reply (respVersion w) (GSlice [?v]))) w) None"
    using value_emits [OF assms(6)] assms(4) by (simp add: XRead_writeResult_def done_w_def)
  then have "xread_wake env c [(k, ch)] [Some ch] deadline (Channel 0) s w = Done s' (emit (raw (reply (respVersion w) (GSlice [?v]))) w) None"
    using assms(1-3) by (simp add: xread_wake_def Let_def Unsubscribe_def s'_def)
  then show ?thesis by (intro exI [of _ s']) (simp add: s'_def)
qed

text \<open>An \<open>XADD\<close> with an explicit ID and pairs of names and values.\<close>

definition plain_xadd :: "go_env \<Rightarrow> stream \<Rightarrow> string \<Rightarrow> (string \<times> string) list \<Rightarrow> string \<Rightarrow> bool" where
  "plain_xadd env x eid fvs sid \<longleftrightarrow> eid \<noteq> ''*'' \<and> \<not> HasSuffix eid ''-*'' \<and> ValidateID eid = (True, sid) \<and> IsLargestID (tree x) sid \<and>
     \<not> xadd_keyword env eid \<and> fvs \<noteq> [] \<and> (\<forall>fv \<in> set fvs. \<not> xadd_keyword env (fst fv))"

lemma XAdd_notifies:
  assumes "kv_GetStream (store s) k True = (Ret (Inr (Some x)), st)" and "distinct (subscribers x)"
    and "plain_xadd env x eid fvs sid" and "e = \<lparr>ID = sid, Fields = pair_fields fvs\<rparr>"
  shows "\<exists>h. XAdd_Execute env (map bulk (k # eid # pair_args fvs)) s w =
      Done (s\<lparr>store := put_stream st k (x\<lparr>tree := AddEntry (tree x) sid (pair_fields fvs)\<rparr>), chans := h\<rparr>) (WriteString sid w) None \<and>
    next_chan h = next_chan (chans s) \<and>
    (\<forall>c \<in> set (subscribers x). \<forall>q. queue_of (chans s) c = Some q \<longrightarrow> length q < chan_capacity \<longrightarrow> queue_of h c = Some (q @ [e]))"
proof -
  let ?y = "x\<lparr>tree := AddEntry (tree x) sid (pair_fields fvs)\<rparr>"
  define h where "h = notifySubscribers ?y e (chans s)"
  have a: "eid \<noteq> ''*''" "\<not> HasSuffix eid ''-*''" "ValidateID eid = (True, sid)" "IsLargestID (tree x) sid"
    "\<not> xadd_keyword env eid" "fvs \<noteq> []" "\<forall>fv \<in> set fvs. \<not> xadd_keyword env (fst fv)"
    using assms(3) unfolding plain_xadd_def by blast+
  have "eid \<noteq> []" using a(3) ParseInt_head [of "[]"] by (auto simp: ValidateID_def Let_def split: sum.splits)
  note run = XAdd_Execute_fields [OF this a(5,7,6)]
  have add: "stream_AddEntry env x \<lparr>ID = eid, Fields = pair_fields fvs\<rparr> (chans s) = (Inr sid, ?y, h)"
    by (simp add: stream_AddEntry_def entry_id_explicit [OF a(1-4)] h_def Let_def assms(4))
  have "XAdd_Execute env (map bulk (k # eid # pair_args fvs)) s w = Done (s\<lparr>store := put_stream st k ?y, chans := h\<rparr>) (WriteString sid w) None"
    by (simp only: run) (simp add: XAdd_run_def assms(1) add xadd_trim_def)
  moreover have "next_chan h = next_chan (chans s)" by (simp add: h_def notifySubscribers_def)
  moreover have "queue_of h c = Some (q @ [e])" if "c \<in> set (subscribers x)" "queue_of (chans s) c = Some q" "length q < chan_capacity" for c q
    using that assms(2) by (simp add: h_def notifySubscribers_def fold_notify_queue)
  ultimately show ?thesis by blast
qed

text \<open>A reader that has read its stream subscribes; another client adds an entry, after the shared field may have got
  another name; the reader is woken.\<close>

lemma reader_woken:
  assumes "kv_GetStream (store s) k True = (Ret (Inr (Some x)), st)" and "chans_ok x (chans s)" and "streamOrder s = [k]"
    and "preferredRespVersion (client_of s c) \<noteq> RESP3" and "plain_xadd env' x eid fvs sid"
    and "v = GSlice [GSlice [GScalar (GString nm), GSlice [entry_value \<lparr>ID = sid, Fields = pair_fields fvs\<rparr>]]]" and "framed (respVersion w) v"
  obtains s1 subs select deadline s2 s3 x1 x' where
    "XRead_subscribe env [k] block s w = Blocks s1 w (BlockedXRead subs select deadline)" "store s1 = put_stream st k x1" "streamOrder s1 = [k]"
    "XAdd_Execute env' (map bulk (k # eid # pair_args fvs)) (s1\<lparr>streamOrder := [nm]\<rparr>) w' = Done s2 (WriteString sid w') None"
    "xread_wake env'' c subs select deadline (Channel 0) s2 w = Done s3 (emit (raw (reply (respVersion w) v)) w) None"
    "kv_GetStream (store s3) k False = (Ret (Inr (Some x')), store s3)" "subscribers x' = subscribers x"
    "\<forall>ch. Some ch \<in> set select \<longrightarrow> queue_of (chans s3) ch = None"
proof -
  let ?e = "\<lparr>ID = sid, Fields = pair_fields fvs\<rparr>"
  define ch where "ch = next_chan (chans s)"
  define x1 where "x1 = x\<lparr>subscribers := subscribers x @ [ch]\<rparr>"
  define s1 where "s1 = s\<lparr>store := put_stream st k x1, chans := \<lparr>next_chan = ch + 1, queue_of = (queue_of (chans s))(ch \<mapsto> [])\<rparr>\<rparr>"
  define s1' where "s1' = s1\<lparr>streamOrder := [nm]\<rparr>"
  obtain deadline where sub: "XRead_subscribe env [k] block s w = Blocks s1 w (BlockedXRead [(k, ch)] [Some ch] deadline)"
    using XRead_subscribes [OF assms(1) ch_def assms(3), of env block w] by (simp add: s1_def x1_def)
  have new: "ch \<notin> set (subscribers x)" "distinct (subscribers x)" using assms(2) by (auto simp: chans_ok_def ch_def)
  then have subs: "distinct (subscribers x1)" "ch \<in> set (subscribers x1)" by (simp_all add: x1_def)
  have g1: "kv_GetStream (store s1') k True = (Ret (Inr (Some x1)), store s1')" using GetStream_put [OF assms(1)] by (simp add: s1'_def s1_def)
  have "plain_xadd env' x1 eid fvs sid" using assms(5) by (simp add: plain_xadd_def x1_def)
  from XAdd_notifies [OF g1 subs(1) this refl, of w']
  obtain h where add: "XAdd_Execute env' (map bulk (k # eid # pair_args fvs)) s1' w' =
      Done (s1'\<lparr>store := put_stream (store s1') k (x1\<lparr>tree := AddEntry (tree x1) sid (pair_fields fvs)\<rparr>), chans := h\<rparr>) (WriteString sid w') None"
    and q: "queue_of h ch = Some [?e]"
    using subs(2) by (auto simp: s1'_def s1_def chan_capacity_def)
  define y where "y = x1\<lparr>tree := AddEntry (tree x1) sid (pair_fields fvs)\<rparr>"
  define s2 where "s2 = s1'\<lparr>store := put_stream (store s1') k y, chans := h\<rparr>"
  have "client_of s2 = client_of s" by (simp add: s2_def s1'_def s1_def client_of_def fun_eq_iff)
  moreover have g2: "kv_GetStream (store s2) k create = (Ret (Inr (Some y)), store s2)" for create
    using GetStream_put [OF g1] by (simp add: s2_def)
  moreover have "paired (Fields ?e)" by (auto simp: paired_def pair_fields_def)
  ultimately obtain s3 where wake: "xread_wake env'' c [(k, ch)] [Some ch] deadline (Channel 0) s2 w = Done s3 (emit (raw (reply (respVersion w) v)) w) None"
    and s3: "store s3 = put_stream (store s2) k (y\<lparr>subscribers := filter (\<lambda>d. d \<noteq> ch) (subscribers y)\<rparr>)" "queue_of (chans s3) ch = None"
    using xread_wake_entry [of s2 k y ch ?e nm c w env'' deadline] assms(4,7) q by (auto simp: s2_def s1'_def assms(6))
  have f: "filter (\<lambda>d. d \<noteq> ch) (subscribers y) = subscribers x" using new by (auto simp: y_def x1_def filter_id_conv)
  show thesis
  proof (rule that [OF sub])
    show "store s1 = put_stream st k x1" "streamOrder s1 = [k]" using assms(3) by (simp_all add: s1_def)
    show "XAdd_Execute env' (map bulk (k # eid # pair_args fvs)) (s1\<lparr>streamOrder := [nm]\<rparr>) w' = Done s2 (WriteString sid w') None"
      using add by (simp add: s1'_def s2_def y_def)
    show "xread_wake env'' c [(k, ch)] [Some ch] deadline (Channel 0) s2 w = Done s3 (emit (raw (reply (respVersion w) v)) w) None" by (rule wake)
    show "kv_GetStream (store s3) k False = (Ret (Inr (Some (y\<lparr>subscribers := subscribers x\<rparr>))), store s3)"
      using GetStream_put [OF g2] s3(1) f by simp
  qed (use s3(2) in simp_all)
qed

lemma GetStream_other:
  assumes "kv_GetStream st0 k True = (Ret (Inr (Some x)), st)" and "k2 \<noteq> k"
  shows "fst (kv_GetStream (put_stream st k y) k2 False) = fst (kv_GetStream st0 k2 False)"
proof -
  have "map_of (put_stream st k y) k2 = map_of st0 k2"
    using assms by (auto simp: kv_GetStream_def put_stream_def split: option.splits if_splits value_data.splits)
  then show ?thesis by (simp add: kv_GetStream_def split: option.splits value_data.splits)
qed

lemma subscribe_keeps_wf:
  assumes "wf_store (store s)" and "XRead_subscribe env keys block s w = Blocks s1 w' b"
  shows "wf_store (store s1)"
proof -
  obtain r subs st h where r: "subscribe_all keys (store s) (chans s) [] = (r, subs, st, h)" by (metis prod_cases4)
  have "wf_store st" by (rule subscribe_all_wf [OF assms(1) r])
  with assms(2) show ?thesis
    by (auto simp: XRead_subscribe_def r write_err_def done_w_def split: go.splits sum.splits prod.splits)
qed

text \<open>C14: a reader that waits for one stream. A client sends \<open>XREAD BLOCK\<close> for the entries a stream gets from now on
  (the key holds a stream, or nothing yet). Its call reads, and in a later step subscribes. When an entry is added with \<open>XADD\<close> and
  an explicit ID after that, and no other \<open>XREAD\<close> has run meanwhile, the reader's channel is ready, and the reader is
  answered exactly this entry under the name of the stream, as one array it can read back; afterwards the
  stream has the subscribers it had before and the channel is gone. When the same entry is added between
  the two steps of the call, the reader misses it: its channel stays empty, and it goes on waiting.\<close>

theorem xread_woken_by_xadd:
  assumes "wf_store (store s)" and "kv_GetStream (store s) k True = (Ret (Inr (Some x)), st)" and "chans_ok x (chans s)"
    and "ParseInt ms = Inr i" and "preferredRespVersion (client_of s c) \<noteq> RESP3" and "plain_xadd env' x eid fvs sid"
    and "v = GSlice [GSlice [GScalar (GString k), GSlice [entry_value \<lparr>ID = sid, Fields = pair_fields fvs\<rparr>]]]"
    and "framed (respVersion w) v"
  shows "\<exists>s0 block. XRead_Execute env c (map bulk [''BLOCK'', ms, ''STREAMS'', k, ''$'']) s w = Blocks s0 w (BlockedSubscribe [k] block) \<and>
    (\<exists>s1 subs select deadline s2 s3 b x'.
      XRead_subscribe env1 [k] block s0 w = Blocks s1 w (BlockedXRead subs select deadline) \<and>
      XAdd_Execute env' (map bulk (k # eid # pair_args fvs)) s1 w' = Done s2 (WriteString sid w') None \<and>
      xread_wake env'' c subs select deadline (Channel 0) s2 w = Done s3 (emit b w) None \<and>
      ParseResp (b @ rest) = POk (reply (respVersion w) v) rest \<and>
      kv_GetStream (store s3) k False = (Ret (Inr (Some x')), store s3) \<and> subscribers x' = subscribers x \<and>
      (\<forall>ch. Some ch \<in> set select \<longrightarrow> queue_of (chans s3) ch = None)) \<and>
    (\<exists>s1 s2 subs select deadline.
      XAdd_Execute env' (map bulk (k # eid # pair_args fvs)) s0 w' = Done s1 (WriteString sid w') None \<and>
      XRead_subscribe env1 [k] block s1 w = Blocks s2 w (BlockedXRead subs select deadline) \<and>
      xread_wake env'' c subs select deadline (Channel 0) s2 w = Blocks s2 w (BlockedXRead subs select deadline))"
proof -
  define s0 where "s0 = s\<lparr>streamOrder := [k]\<rparr>"
  have s0: "kv_GetStream (store s0) k True = (Ret (Inr (Some x)), st)" "chans_ok x (chans s0)" "streamOrder s0 = [k]"
    "preferredRespVersion (client_of s0 c) \<noteq> RESP3" using assms(2,3,5) by (simp_all add: s0_def client_of_def)
  let ?b = "wrap_i64 (i * 1000000)"
  have read: "XRead_Execute env c (map bulk [''BLOCK'', ms, ''STREAMS'', k, ''$'']) s w = Blocks s0 w (BlockedSubscribe [k] ?b)"
    using XRead_reads [OF assms(1) stream_key_no_error [OF assms(2)] assms(4)] by (simp add: s0_def)
  have p: "ParseResp (raw (reply (respVersion w) v) @ rest) = POk (reply (respVersion w) v) rest"
    using parse_raw [OF wf_reply [OF assms(8)]] by simp
  have "\<exists>s1 subs select deadline s2 s3 b x'.
      XRead_subscribe env1 [k] ?b s0 w = Blocks s1 w (BlockedXRead subs select deadline) \<and>
      XAdd_Execute env' (map bulk (k # eid # pair_args fvs)) s1 w' = Done s2 (WriteString sid w') None \<and>
      xread_wake env'' c subs select deadline (Channel 0) s2 w = Done s3 (emit b w) None \<and>
      ParseResp (b @ rest) = POk (reply (respVersion w) v) rest \<and>
      kv_GetStream (store s3) k False = (Ret (Inr (Some x')), store s3) \<and> subscribers x' = subscribers x \<and>
      (\<forall>ch. Some ch \<in> set select \<longrightarrow> queue_of (chans s3) ch = None)"
  proof (rule reader_woken [OF s0 assms(6-8), of env1 ?b w' env''])
    fix s1 subs select deadline s2 s3 x1 x'
    assume *: "XRead_subscribe env1 [k] ?b s0 w = Blocks s1 w (BlockedXRead subs select deadline)" "store s1 = put_stream st k x1" "streamOrder s1 = [k]"
      "XAdd_Execute env' (map bulk (k # eid # pair_args fvs)) (s1\<lparr>streamOrder := [k]\<rparr>) w' = Done s2 (WriteString sid w') None"
      "xread_wake env'' c subs select deadline (Channel 0) s2 w = Done s3 (emit (raw (reply (respVersion w) v)) w) None"
      "kv_GetStream (store s3) k False = (Ret (Inr (Some x')), store s3)" "subscribers x' = subscribers x"
      "\<forall>ch. Some ch \<in> set select \<longrightarrow> queue_of (chans s3) ch = None"
    have "s1\<lparr>streamOrder := [k]\<rparr> = s1" using *(3) by simp
    with * p show ?thesis by metis
  qed
  moreover have "\<exists>s1 s2 subs select deadline.
      XAdd_Execute env' (map bulk (k # eid # pair_args fvs)) s0 w' = Done s1 (WriteString sid w') None \<and>
      XRead_subscribe env1 [k] ?b s1 w = Blocks s2 w (BlockedXRead subs select deadline) \<and>
      xread_wake env'' c subs select deadline (Channel 0) s2 w = Blocks s2 w (BlockedXRead subs select deadline)"
  proof -
    have "distinct (subscribers x)" using assms(3) by (simp add: chans_ok_def)
    from XAdd_notifies [OF s0(1) this assms(6) refl, of w'] obtain h where
      "XAdd_Execute env' (map bulk (k # eid # pair_args fvs)) s0 w' =
        Done (s0\<lparr>store := put_stream st k (x\<lparr>tree := AddEntry (tree x) sid (pair_fields fvs)\<rparr>), chans := h\<rparr>) (WriteString sid w') None" by blast
    moreover define s1 where "s1 = s0\<lparr>store := put_stream st k (x\<lparr>tree := AddEntry (tree x) sid (pair_fields fvs)\<rparr>), chans := h\<rparr>"
    have "kv_GetStream (store s1) k True = (Ret (Inr (Some (x\<lparr>tree := AddEntry (tree x) sid (pair_fields fvs)\<rparr>))), store s1)" "streamOrder s1 = [k]"
      using GetStream_put [OF s0(1)] s0(3) by (simp_all add: s1_def)
    note XRead_subscribes [OF this(1) refl this(2), of env1 ?b w]
    ultimately show ?thesis unfolding s1_def by (intro exI conjI) (assumption+, simp add: xread_wake_def)
  qed
  ultimately show ?thesis using read by blast
qed

text \<open>C40: a reader that waits is told the wrong stream. The names of the streams of a call are a field of the one \<open>XRead\<close> object
  that all clients share. When a client waits for stream \<open>k\<close> and another \<open>XREAD\<close>, of any client, for another key \<open>k2\<close>
  (which holds no string) has begun since, then an entry added to \<open>k\<close> is reported to the first client as an entry of
  \<open>k2\<close>.\<close>

theorem xread_reports_wrong_stream:
  assumes "wf_store (store s)" and "kv_GetStream (store s) k True = (Ret (Inr (Some x)), st)" and "chans_ok x (chans s)"
    and "ParseInt ms = Inr i" and "preferredRespVersion (client_of s c) \<noteq> RESP3" and "plain_xadd env' x eid fvs sid"
    and "k2 \<noteq> k" and "\<And>err. fst (kv_GetStream (store s) k2 False) \<noteq> Ret (Inl err)" and "ParseInt ms2 = Inr j"
    and "v = GSlice [GSlice [GScalar (GString k2), GSlice [entry_value \<lparr>ID = sid, Fields = pair_fields fvs\<rparr>]]]"
    and "framed (respVersion w) v"
  shows "\<exists>s0 block s1 subs select deadline s2 block2 s3 s4 b.
    XRead_Execute env c (map bulk [''BLOCK'', ms, ''STREAMS'', k, ''$'']) s w = Blocks s0 w (BlockedSubscribe [k] block) \<and>
    XRead_subscribe env1 [k] block s0 w = Blocks s1 w (BlockedXRead subs select deadline) \<and>
    XRead_Execute env2 c2 (map bulk [''BLOCK'', ms2, ''STREAMS'', k2, ''$'']) s1 w2 = Blocks s2 w2 (BlockedSubscribe [k2] block2) \<and>
    XAdd_Execute env' (map bulk (k # eid # pair_args fvs)) s2 w' = Done s3 (WriteString sid w') None \<and>
    xread_wake env'' c subs select deadline (Channel 0) s3 w = Done s4 (emit b w) None \<and>
    ParseResp (b @ rest) = POk (reply (respVersion w) v) rest"
proof -
  define s0 where "s0 = s\<lparr>streamOrder := [k]\<rparr>"
  have s0: "kv_GetStream (store s0) k True = (Ret (Inr (Some x)), st)" "chans_ok x (chans s0)" "streamOrder s0 = [k]"
    "preferredRespVersion (client_of s0 c) \<noteq> RESP3" using assms(2,3,5) by (simp_all add: s0_def client_of_def)
  let ?b = "wrap_i64 (i * 1000000)"
  have read: "XRead_Execute env c (map bulk [''BLOCK'', ms, ''STREAMS'', k, ''$'']) s w = Blocks s0 w (BlockedSubscribe [k] ?b)"
    using XRead_reads [OF assms(1) stream_key_no_error [OF assms(2)] assms(4)] by (simp add: s0_def)
  show ?thesis
  proof (rule reader_woken [OF s0 assms(6,10,11), of env1 ?b w' env''])
    fix s1 subs select deadline s3 s4 x1 x'
    assume *: "XRead_subscribe env1 [k] ?b s0 w = Blocks s1 w (BlockedXRead subs select deadline)" "store s1 = put_stream st k x1" "streamOrder s1 = [k]"
      "XAdd_Execute env' (map bulk (k # eid # pair_args fvs)) (s1\<lparr>streamOrder := [k2]\<rparr>) w' = Done s3 (WriteString sid w') None"
      "xread_wake env'' c subs select deadline (Channel 0) s3 w = Done s4 (emit (raw (reply (respVersion w) v)) w) None"
    have "wf_store (store s1)" using subscribe_keeps_wf [OF _ *(1)] assms(1) by (simp add: s0_def)
    moreover have "fst (kv_GetStream (store s1) k2 False) \<noteq> Ret (Inl err)" for err
      using assms(8) [of err] GetStream_other [OF assms(2,7), of x1] *(2) by simp
    ultimately have "XRead_Execute env2 c2 (map bulk [''BLOCK'', ms2, ''STREAMS'', k2, ''$'']) s1 w2
        = Blocks (s1\<lparr>streamOrder := [k2]\<rparr>) w2 (BlockedSubscribe [k2] (wrap_i64 (j * 1000000)))"
      by (rule XRead_reads [OF _ _ assms(9)])
    then show ?thesis using read * parse_raw [OF wf_reply [OF assms(11)], of rest] by blast
  qed
qed

lemma example_reader:
  "kv_GetStream (store example_server) ''s'' True = (Ret (Inr (Some NewStream)), [(''s'', \<lparr>VType = ValueTypeStream, VData = VStream NewStream, Expiry = 0\<rparr>)])"
  "chans_ok NewStream (chans example_server)" "preferredRespVersion (client_of example_server c) \<noteq> RESP3"
  "wf_store (store example_server)" "ParseInt ''0'' = Inr 0" "plain_xadd (plain_env 7) NewStream ''5-1'' [(''f'', ''v'')] ''5-1''"
proof -
  have "ValidateID ''5-1'' = (True, ''5-1'')" "\<not> HasSuffix ''5-1'' ''-*''" "\<not> xadd_keyword (plain_env 7) ''5-1''" "\<not> xadd_keyword (plain_env 7) ''f''"
    by code_simp+
  then show "plain_xadd (plain_env 7) NewStream ''5-1'' [(''f'', ''v'')] ''5-1''"
    by (simp add: plain_xadd_def NewStream_def IsLargestID_def NewRadixTree_def)
  show "ParseInt ''0'' = Inr 0" by code_simp
qed (simp_all add: kv_GetStream_def NewStream_def chans_ok_def client_of_def example_server_def NewClient_def RESP2_def RESP3_def)

theorem xread_woken_by_xadd_witness:
  "\<exists>s0 block s1 subs select deadline s2 s3 b.
    XRead_Execute (plain_env 0) 1 (map bulk [''BLOCK'', ''0'', ''STREAMS'', ''s'', ''$'']) example_server (NewWriter 2)
      = Blocks s0 (NewWriter 2) (BlockedSubscribe [''s''] block) \<and>
    XRead_subscribe (plain_env 1) [''s''] block s0 (NewWriter 2) = Blocks s1 (NewWriter 2) (BlockedXRead subs select deadline) \<and>
    XAdd_Execute (plain_env 7) (map bulk [''s'', ''5-1'', ''f'', ''v'']) s1 (NewWriter 2) = Done s2 (WriteString ''5-1'' (NewWriter 2)) None \<and>
    xread_wake (plain_env 9) 1 subs select deadline (Channel 0) s2 (NewWriter 2) = Done s3 (emit b (NewWriter 2)) None \<and>
    ParseResp b = POk (array_resp [array_resp [bulk ''s'', array_resp [array_resp [bulk ''5-1'', array_resp [bulk ''f'', bulk ''v'']]]]]) []"
  using xread_woken_by_xadd [OF example_reader(4,1,2,5) example_reader(3) [of 1] example_reader(6) refl, of "NewWriter 2" "plain_env 0" "plain_env 1" "NewWriter 2" "plain_env 9" "[]"]
  by (simp add: pair_args_def pair_fields_def entry_value_def field_values_def maxAlloc_def NewWriter_def) blast

theorem xread_reports_wrong_stream_witness:
  "\<exists>s0 block s1 subs select deadline s2 block2 s3 s4 b.
    XRead_Execute (plain_env 0) 1 (map bulk [''BLOCK'', ''0'', ''STREAMS'', ''s'', ''$'']) example_server (NewWriter 2)
      = Blocks s0 (NewWriter 2) (BlockedSubscribe [''s''] block) \<and>
    XRead_subscribe (plain_env 1) [''s''] block s0 (NewWriter 2) = Blocks s1 (NewWriter 2) (BlockedXRead subs select deadline) \<and>
    XRead_Execute (plain_env 2) 3 (map bulk [''BLOCK'', ''0'', ''STREAMS'', ''t'', ''$'']) s1 (NewWriter 2) = Blocks s2 (NewWriter 2) (BlockedSubscribe [''t''] block2) \<and>
    XAdd_Execute (plain_env 7) (map bulk [''s'', ''5-1'', ''f'', ''v'']) s2 (NewWriter 2) = Done s3 (WriteString ''5-1'' (NewWriter 2)) None \<and>
    xread_wake (plain_env 9) 1 subs select deadline (Channel 0) s3 (NewWriter 2) = Done s4 (emit b (NewWriter 2)) None \<and>
    ParseResp b = POk (array_resp [array_resp [bulk ''t'', array_resp [array_resp [bulk ''5-1'', array_resp [bulk ''f'', bulk ''v'']]]]]) []"
proof -
  have "fst (kv_GetStream (store example_server) ''t'' False) \<noteq> Ret (Inl err)" for err by (simp add: kv_GetStream_def)
  from xread_reports_wrong_stream [OF example_reader(4,1,2,5) example_reader(3) [of 1] example_reader(6) _ this example_reader(5) refl,
      of "NewWriter 2" "plain_env 0" "plain_env 1" "plain_env 2" 3 "NewWriter 2" "NewWriter 2" "plain_env 9" "[]"]
  show ?thesis by (simp add: pair_args_def pair_fields_def entry_value_def field_values_def maxAlloc_def NewWriter_def)
qed

end
