(* ===== verification/Server_Props.thy ===== *)
theory Server_Props
  imports Transaction_Props Stream_Props
begin

text \<open>
  The properties of the loop and of waiting commands: the messages that cannot stop the server, the
  end of a \<open>WAIT\<close>, a \<open>WAIT\<close> that stops the server, and the stream a blocked
  \<open>XREAD\<close> reports.
\<close>

section \<open>Waiting inside a transaction\<close>

text \<open>Replicas with at least an offset cannot become more by timers and new connections.\<close>

definition acked :: "64 word \<Rightarrow> server \<Rightarrow> nat set" where
  "acked off s = {r \<in> set (replicas s). off \<le> Offset (client_of s r)}"

lemma acked_count: "distinct (replicas s) \<Longrightarrow> GetReplicaAcknowledgedCount s off = card (acked off s)"
  by (simp add: GetReplicaAcknowledgedCount_def acked_def distinct_card [symmetric])

lemma Offset_frame [simp]: "Offset (x\<lparr>conn_out := out\<rparr>) = Offset x" "Offset (x\<lparr>Writer := w\<rparr>) = Offset x" "Offset (Close x) = Offset x"
  by (simp_all add: Offset_def Close_def)

definition fewer_acks :: "server \<Rightarrow> server \<Rightarrow> bool" where
  "fewer_acks s s' \<longleftrightarrow> distinct (replicas s') \<and> set (replicas s') \<subseteq> set (replicas s) \<and>
     (\<forall>r. Offset (client_of s' r) = Offset (client_of s r))"

lemma fewer_trans: "fewer_acks s s' \<Longrightarrow> fewer_acks s' s'' \<Longrightarrow> fewer_acks s s''"
  by (auto simp: fewer_acks_def)

lemma fewer_count: "fewer_acks s s' \<Longrightarrow> distinct (replicas s) \<Longrightarrow> GetReplicaAcknowledgedCount s' off \<le> GetReplicaAcknowledgedCount s off"
  by (auto simp: acked_count fewer_acks_def acked_def intro!: card_mono)

lemma fewer_update: "distinct (replicas s) \<Longrightarrow> (\<And>x. Offset (f x) = Offset x) \<Longrightarrow> fewer_acks s (update_client r f s)"
  by (simp add: fewer_acks_def)

lemma fewer_removeReplica: "distinct (replicas s) \<Longrightarrow> fewer_acks s (removeReplica r s)"
  by (auto simp: fewer_acks_def removeReplica_def)

lemma fewer_conn_write: "distinct (replicas s) \<Longrightarrow> conn_write c b s = (s', ok) \<Longrightarrow> fewer_acks s s'"
  by (auto simp: conn_write_def fewer_acks_def split: if_splits)

lemma fewer_client_Send: "distinct (replicas s) \<Longrightarrow> client_Send env c s = (s', err) \<Longrightarrow> fewer_acks s s'"
  by (auto simp: client_Send_def send_writer_def Flush_def Let_def conn_write_def fewer_acks_def split: if_splits prod.splits)

lemma fewer_fold:
  "distinct (replicas s) \<Longrightarrow> (\<And>x s. distinct (replicas s) \<Longrightarrow> fewer_acks s (f x s)) \<Longrightarrow> fewer_acks s (fold f xs s)"
proof (induction xs arbitrary: s)
  case (Cons x xs)
  have "fewer_acks s (f x s)" using Cons.prems by simp
  moreover from this have "fewer_acks (f x s) (fold f xs (f x s))" using Cons by (simp add: fewer_acks_def)
  ultimately show ?case by (simp add: fewer_trans)
qed (simp add: fewer_acks_def)

lemma fewer_getack: "distinct (replicas s) \<Longrightarrow> fewer_acks s (sendReplConfGetAckToAllReplicas env s)"
proof -
  assume d: "distinct (replicas s)"
  have "fewer_acks s (getack_replica env r s)" if "distinct (replicas s)" for r s
  proof -
    let ?s = "put_writer r (emit getack_cmd (Writer (client_of s r))) s"
    have s: "fewer_acks s ?s" unfolding put_writer_def using that by (rule fewer_update) simp
    obtain s1 err where c: "client_Send env r ?s = (s1, err)" by fastforce
    have s1: "fewer_acks s s1" using s fewer_client_Send [OF _ c] by (auto simp: fewer_acks_def)
    then have "fewer_acks s (removeReplica r s1)" using fewer_removeReplica [of s1 r] by (auto simp: fewer_acks_def)
    with s1 show ?thesis by (simp add: getack_replica_def c split: option.splits)
  qed
  then have "fewer_acks s' (fold (getack_replica env) rs s')" if "distinct (replicas s')" for s' rs
    using that by (intro fewer_fold)
  from this [of "s\<lparr>srv_offset := srv_offset s + of_nat (length getack_cmd)\<rparr>"] d show ?thesis
    by (simp add: sendReplConfGetAckToAllReplicas_def fewer_acks_def Let_def)
qed

lemma fewer_ping: "distinct (replicas s) \<Longrightarrow> fewer_acks s (pingReplicas env s)"
proof -
  assume d: "distinct (replicas s)"
  have "fewer_acks s (ping_replica env r s)" if d: "distinct (replicas s)" for r s
  proof -
    let ?s = "s\<lparr>srv_offset := srv_offset s + of_nat (length CreatePingCommand)\<rparr>"
    have w: "fewer_acks s s1" if "conn_write r CreatePingCommand ?s = (s1, ok)" for s1 ok
      using fewer_conn_write [OF _ that] d by (simp add: fewer_acks_def)
    have "fewer_acks s s2" if "conn_write r CreatePingCommand ?s = (s1, ok)" "client_Send env r s1 = (s2, err)" for s1 ok s2 err
      using w [OF that(1)] fewer_client_Send [OF _ that(2)] by (auto simp: fewer_acks_def)
    with w have p: "fewer_acks s s'" if "sendPing env r s = (s', ok)" for s' ok
      using that by (auto simp: sendPing_def Let_def split: prod.splits bool.splits)
    obtain s' ok where "sendPing env r s = (s', ok)" by fastforce
    with p [OF this] fewer_removeReplica [of s' r] show ?thesis
      by (auto simp: ping_replica_def fewer_acks_def)
  qed
  with d show ?thesis unfolding pingReplicas_def by (intro fewer_fold)
qed

text \<open>A process whose loop waits for acknowledgements inside \<open>EXEC\<close>, without a timeout.\<close>

fun waits_forever :: "blocked \<Rightarrow> server \<Rightarrow> bool" where
  "waits_forever (BlockedExec (BlockedWait k t st off) buf cr q rs) s = (t = 0 \<and> int (GetReplicaAcknowledgedCount s off) < k)"
| "waits_forever _ s = False"

definition stuck :: "node \<Rightarrow> bool" where
  "stuck n \<longleftrightarrow> \<not> down n \<and> spawned n = [] \<and> waiting n = [] \<and>
     (case loop_wait n of Some (c, r, b) \<Rightarrow> waits_forever b (srv n) | None \<Rightarrow> False)"

lemma waits_forever_fewer:
  "waits_forever b s \<Longrightarrow> distinct (replicas s) \<Longrightarrow> fewer_acks s s' \<Longrightarrow> waits_forever b s'"
proof (induction b s rule: waits_forever.induct)
  case (1 k t st off buf cr q rs s)
  then show ?case using fewer_count [of s s' off] by simp
qed simp_all

lemma stuck_srv:
  "stuck n \<Longrightarrow> distinct (replicas (srv n)) \<Longrightarrow> fewer_acks (srv n) s' \<Longrightarrow> stuck (n\<lparr>srv := s'\<rparr>)"
  by (auto simp: stuck_def waits_forever_fewer split: option.splits)

lemma stuck_step:
  assumes "stuck n" and "server_ok e (srv n)"
  shows "stuck (step env ev n)"
proof -
  obtain c r k st off buf cr q rs where w: "loop_wait n = Some (c, r, BlockedExec (BlockedWait k 0 st off) buf cr q rs)"
    and k: "int (GetReplicaAcknowledgedCount (srv n) off) < k"
    using assms(1) by (auto simp: stuck_def split: option.splits elim!: waits_forever.elims)
  have n: "\<not> down n" "spawned n = []" "waiting n = []" using assms(1) by (simp_all add: stuck_def)
  have d: "distinct (replicas (srv n))" "set (replicas (srv n)) \<subseteq> known (srv n)" using assms(2) by (simp_all add: server_ok_def)
  show ?thesis
  proof (cases ev)
    case (Accept c' rid addr)
    have "fewer_acks (srv n) (acceptConnection (base env) c' rid addr (srv n))" if "c' \<notin> known (srv n)"
    proof -
      have "client_of (srv n) c' = NewClient (plain_env 0) []"
        using that by (simp add: client_of_def known_def map_of_eq_None_iff [symmetric])
      then have "Offset ((NewClient (base env) addr)\<lparr>client_ID := rid\<rparr>) = Offset (client_of (srv n) c')"
        by (simp add: Offset_def NewClient_def)
      moreover have "client_of (s\<lparr>connected := cs\<rparr>) = client_of s" for s cs by (simp add: client_of_def fun_eq_iff)
      ultimately show ?thesis using d by (simp add: fewer_acks_def acceptConnection_def Let_def)
    qed
    with stuck_srv [OF assms(1) d(1)] show ?thesis using Accept n assms(1) by (auto simp: step_def known_def)
  next
    case (WakeLoop chosen)
    have "fewer_acks (srv n) (put_writer c (Writer (client_of (srv n) c)) (srv n))"
      unfolding put_writer_def using d(1) by (rule fewer_update) simp
    from stuck_srv [OF assms(1) d(1) this] show ?thesis
      using WakeLoop n w k by (simp add: step_def loop_resume_def wait_round_def Let_def stuck_def)
  next
    case PingTick
    with stuck_srv [OF assms(1) d(1) fewer_ping [OF d(1)]] n show ?thesis by (simp add: step_def)
  next
    case GetAckTick
    with stuck_srv [OF assms(1) d(1) fewer_getack [OF d(1)]] n show ?thesis by (simp add: step_def)
  qed (use assms(1) n w in \<open>simp_all add: step_def\<close>)
qed

text \<open>C36: \<open>WAIT\<close> without a timeout inside a transaction stops the server for good. When the loop waits there
  for more acknowledgements than replicas have sent (and no blocking command of another client
  is under way), then after any further events, of whatever kind and at whatever times, it still
  waits, and no message of any client is taken any more: the acknowledgements it waits for would
  be such messages.\<close>

theorem exec_wait_stops_server:
  assumes "reachable e n" and "stuck n" and "\<forall>(env, ev) \<in> set evs. lower_u (base env) = lower_u e"
  shows "loop_wait (run evs n) \<noteq> None \<and> step env (Message c r) (run evs n) = run evs n"
proof -
  have "reachable e (run evs n) \<and> stuck (run evs n)"
    using assms unfolding run_def
    by (induction evs arbitrary: n) (auto intro: reachable.event stuck_step [OF _ reachable_ok])
  then show ?thesis by (auto simp: stuck_def step_def split: option.splits)
qed

definition waiting_node :: node where
  "waiting_node = example_run [Accept 1 ''id'' ''addr'', message 1 [''SET'', ''k'', ''v''], message 1 [''MULTI''],
     message 1 [''WAIT'', ''1'', ''0''], message 1 [''EXEC'']]"

theorem exec_wait_stops_server_witness:
  "step (plain_cmd_env 9) (message 2 [''PING'']) (run [(plain_cmd_env 5, Accept 2 ''id'' ''a''), (plain_cmd_env 7, PingTick)] waiting_node)
    = run [(plain_cmd_env 5, Accept 2 ''id'' ''a''), (plain_cmd_env 7, PingTick)] waiting_node"
proof -
  have "stuck waiting_node" by code_simp
  moreover have "reachable (plain_env 0) waiting_node" unfolding waiting_node_def by (rule example_reachable)
  ultimately show ?thesis
    using exec_wait_stops_server [of "plain_env 0" waiting_node "[(plain_cmd_env 5, Accept 2 ''id'' ''a''), (plain_cmd_env 7, PingTick)]" "plain_cmd_env 9" 2 "command_resp [''PING'']"]
    by (simp add: plain_cmd_env_def plain_env_def message_def)
qed

section \<open>Messages that cannot stop the server\<close>

lemma returns_server:
  "returns (Hello_Execute c args s w)" "returns (Client_Execute env c args s w)" "returns (Config_Execute env c args s w)"
  "returns (Info_Execute env args s w)" "returns (ReplConf_Execute env c args s w)"
  "returns (Multi_Execute c args s w)" "returns (Discard_Execute c args s w)"
  by (simp_all add: Hello_Execute_def Client_Execute_def Config_Execute_def Config_handleSet_def Config_handleGet_def Info_Execute_def
      ReplConf_Execute_def Multi_Execute_def Discard_Execute_def Let_def split: prod.splits option.splits sum.splits)

lemma returns_psync: "returns (Psync_Execute cenv own c args s w)"
  by (simp add: Psync_Execute_def Let_def split: prod.splits option.splits sum.splits bool.splits)

lemma returns_execute:
  assumes "wf_store (store s)" and "cmd \<notin> {Exec, Wait, Save}" and "cmd = XRead \<Longrightarrow> \<not> XRead_IsBlocking (base env) args"
    and "cmd = XAdd \<Longrightarrow> \<not> ends_in_threshold (base env) args"
  shows "returns (execute_plain env own c cmd args s w)"
proof (cases "cmd \<in> store_commands")
  case True
  from execute_store_command [OF this, of env own c args] assms(1) show ?thesis
    unfolding acts_on_store_def by (metis returns_simps(1))
next
  case False
  with assms show ?thesis
    by (cases cmd) (simp_all add: store_commands_def execute_plain_def returns_server returns_psync returns_xrange returns_xread
        returns_xadd)
qed

lemma after_execute_returns:
  "typed_resp r \<Longrightarrow> after_execute env c r nm args s w err \<noteq> Panic"
  using RAW_total [of r]
  by (auto simp: after_execute_def PropagateCommand_def Let_def split: option.splits go.splits if_splits)

text \<open>C16: what handling a message cannot do to the others. In every reachable state in which the process runs and its loop
  does not wait, the round of the loop that takes a message of any client, with any command but \<open>EXEC\<close> and an
  \<open>XADD\<close> whose arguments end in \<open>MAXLEN\<close> or \<open>MINID\<close>, perhaps \<open>=\<close>, and one last argument (unknown
  commands and wrong arguments included), neither panics the process nor leaves the loop waiting: \<open>SAVE\<close>, \<open>WAIT\<close> and
  an \<open>XREAD\<close> that blocks are started beside the loop, and every other command returns. What those
  three do later is not part of this round.\<close>

theorem message_keeps_serving:
  assumes "reachable e n" and "\<not> down n" and "loop_wait n = None" and "typed_resp r" and "resp_array r = Ret (nm # args)"
    and "ToLower (base env) (String nm) \<noteq> ''exec''"
    and "ToLower (base env) (String nm) = ''xadd'' \<Longrightarrow> \<not> ends_in_threshold (base env) args"
  shows "\<not> down (step env (Message c r) n) \<and> loop_wait (step env (Message c r) n) = None"
proof -
  let ?nm = "ToLower (base env) (String nm)" and ?s = "srv n"
  have "handleMessage env c r ?s \<noteq> Died \<and> (\<forall>s b. handleMessage env c r ?s \<noteq> Waits s b)"
  proof (cases "GetCommand ?nm")
    case (Inl err)
    then show ?thesis using assms(5) by (simp add: handleMessage_def Let_def split: prod.splits)
  next
    case (Inr cmd)
    then have cmd: "cmd \<noteq> Exec" "cmd = XAdd \<Longrightarrow> \<not> ends_in_threshold (base env) args"
      using assms(6,7) by (auto simp: GetCommand_def commands_def split: if_splits)
    have "run_message env c r ?nm cmd args ?s \<noteq> Died \<and> (\<forall>s b. run_message env c r ?nm cmd args ?s \<noteq> Waits s b)"
      if "\<not> IsBlocking (base env) cmd args"
    proof -
      have c': "cmd \<notin> {Exec, Wait, Save}" "cmd = XRead \<Longrightarrow> \<not> XRead_IsBlocking (base env) args"
        using cmd(1) that by (auto simp: IsBlocking_def)
      have "wf_store (store ?s)" using reachable_ok [OF assms(1)] by (rule server_ok_store)
      from returns_execute [OF this c' cmd(2), of True c "Writer (client_of ?s c)"]
      obtain s w err where "Execute env True c cmd args ?s (Writer (client_of ?s c)) = Done s w err"
        using c' by (auto simp: Execute_def returns_def split: cres.splits)
      moreover obtain s' err' where "after_execute (base env) c r ?nm args s w err = Ret (s', err')"
        using after_execute_returns [OF assms(4), of "base env" c ?nm args s w err]
        by (cases "after_execute (base env) c r ?nm args s w err") auto
      ultimately show ?thesis by (simp add: run_message_def)
    qed
    moreover have "cmd \<noteq> Wait \<or> IsBlocking (base env) cmd args" by (auto simp: IsBlocking_def)
    ultimately show ?thesis using assms(5) Inr by (auto simp: handleMessage_def Let_def)
  qed
  then show ?thesis
    using assms(2,3) by (auto simp: step_def loop_message_def split: hres.splits)
qed

theorem message_keeps_serving_witness:
  "\<not> down (step (plain_cmd_env 0) (message 1 [''WAIT'', ''1'', ''0'']) (example_run [Accept 1 ''id'' ''addr'']))"
proof -
  let ?n = "example_run [Accept 1 ''id'' ''addr'']" and ?r = "command_resp [''WAIT'', ''1'', ''0'']"
  have n: "\<not> down ?n" "loop_wait ?n = None" by code_simp+
  have t: "typed_resp ?r" by code_simp
  have a: "resp_array ?r = Ret (bulk ''WAIT'' # map bulk [''1'', ''0''])" by (simp add: command_resp_def array_resp_def resp_array_def)
  have "ToLower (base (plain_cmd_env 0)) (String (bulk ''WAIT'')) = ''wait''" by code_simp
  with message_keeps_serving [OF example_reachable n t a, of "plain_cmd_env 0" 1] show ?thesis by (simp add: message_def)
qed

section \<open>The end of a WAIT\<close>

definition wait_over :: "go_env \<Rightarrow> int \<Rightarrow> int \<Rightarrow> int \<Rightarrow> 64 word \<Rightarrow> server \<Rightarrow> bool" where
  "wait_over env k millis start off s \<longleftrightarrow> k \<le> int (GetReplicaAcknowledgedCount s off) \<or>
     millis \<noteq> 0 \<and> wrap_i64 (millis * 1000000) \<le> now_ns env - start"

definition wait_reply :: "int \<Rightarrow> 64 word \<Rightarrow> server \<Rightarrow> string" where
  "wait_reply k off s = ('':'' @ Itoa (if k \<le> int (GetReplicaAcknowledgedCount s off)
     then int (GetReplicaAcknowledgedCount s off) else int (length (replicas s))) @ crlf)"

lemma wait_round_over:
  "wait_over env k millis start off s \<Longrightarrow> wait_round env k millis start off s w = Done s (emit (wait_reply k off s) w) None"
  by (auto simp: wait_over_def wait_reply_def wait_round_def Let_def write_simple GetReplicaInfo_def)

lemma wait_round_goes_on:
  "\<not> wait_over env k millis start off s \<Longrightarrow> wait_round env k millis start off s w = Blocks s w (BlockedWait k millis start off)"
  by (auto simp: wait_over_def wait_round_def Let_def)

text \<open>C22: a \<open>WAIT\<close> ends as soon as it looks at the replicas after enough of them have acknowledged the
  writes of its client, or after its timeout, whatever has happened meanwhile; its goroutine ends
  and the client is sent the number of replicas that acknowledged or, after the timeout, the
  number of all replicas (where the command promises the number that acknowledged). Before that it
  goes on waiting, and neither the client nor the store notices.\<close>

theorem wait_ends:
  assumes "\<not> down n" and "i < length (waiting n)" and "waiting n ! i = (c, BlockedWait k millis start off)"
    and "idle (client_of (srv n) c)"
  shows "let n' = step env (Wake i chosen) n in
    store (srv n') = store (srv n) \<and> \<not> down n' \<and> loop_wait n' = loop_wait n \<and>
    (if wait_over (base env) k millis start off (srv n) then
       waiting n' = remove_nth i (waiting n) \<and>
       conn_out (client_of (srv n') c) = conn_out (client_of (srv n) c) @ wait_reply k off (srv n)
     else waiting n' = remove_nth i (waiting n) @ [(c, BlockedWait k millis start off)] \<and>
       client_of (srv n') c = client_of (srv n) c)"
proof (cases "wait_over (base env) k millis start off (srv n)")
  case True
  let ?x = "client_of (srv n) c" and ?b = "wait_reply k off (srv n)"
  have "put_writer c (emit ?b (Writer ?x)) (srv n) = set_client c (?x\<lparr>Writer := emit ?b (Writer ?x)\<rparr>) (srv n)"
    by (simp add: put_writer_def update_client_def)
  moreover have "?b \<noteq> []" by (simp add: wait_reply_def)
  ultimately have "finish_message env c None (put_writer c (emit ?b (Writer ?x)) (srv n))
      = set_client c (?x\<lparr>conn_out := conn_out ?x @ ?b\<rparr>) (srv n)"
    using assms(4) by (simp add: finish_reply idle_def)
  with True assms show ?thesis
    by (simp add: step_def blocking_result_def wait_round_over finish_blocking_def Let_def)
next
  case False
  have "(client_of (srv n) c)\<lparr>Writer := Writer (client_of (srv n) c)\<rparr> = client_of (srv n) c" by simp
  with False assms show ?thesis
    by (simp add: step_def blocking_result_def wait_round_goes_on put_writer_def Let_def)
qed

definition wait_node :: node where
  "wait_node = example_run [Accept 1 ''id'' ''addr'', message 1 [''SET'', ''k'', ''v''], message 1 [''WAIT'', ''1'', ''100''], Run 0]"

theorem wait_ends_witness:
  "waiting (step (plain_cmd_env 100000000) (Wake 0 Timer) wait_node) = [] \<and>
   conn_out (client_of (srv (step (plain_cmd_env 100000000) (Wake 0 Timer) wait_node)) 1) = ''+OK'' @ crlf @ '':0'' @ crlf"
proof -
  have n: "\<not> down wait_node" "0 < length (waiting wait_node)" "waiting wait_node ! 0 = (1, BlockedWait 1 100 0 27)"
    by code_simp+
  have i: "idle (client_of (srv wait_node) 1)" by code_simp
  have "wait_over (base (plain_cmd_env 100000000)) 1 100 0 27 (srv wait_node)" "remove_nth 0 (waiting wait_node) = []"
    "conn_out (client_of (srv wait_node) 1) = ''+OK'' @ crlf" "wait_reply 1 27 (srv wait_node) = '':0'' @ crlf"
    by code_simp+
  with wait_ends [OF n i, of "plain_cmd_env 100000000" Timer] show ?thesis unfolding Let_def by simp
qed

section \<open>The ticker\<close>

lemma ping_replica_idle:
  assumes "idle (client_of s r)"
  shows "\<exists>x. ping_replica env r s = set_client r x (s\<lparr>srv_offset := srv_offset s + 14\<rparr>) \<and> idle x \<and>
    conn_out x = conn_out (client_of s r) @ CreatePingCommand"
proof -
  have l: "of_nat (length CreatePingCommand) = (14 :: 64 word)" by code_simp
  have c: "client_of (s\<lparr>srv_offset := off\<rparr>) = client_of s" for off by (simp add: client_of_def fun_eq_iff)
  let ?x = "client_of s r"
  let ?y = "?x\<lparr>conn_out := conn_out ?x @ CreatePingCommand\<rparr>"
  have "ping_replica env r s = set_client r ?y (s\<lparr>srv_offset := srv_offset s + 14\<rparr>)"
    using assms
    by (simp add: ping_replica_def sendPing_def Let_def conn_write_def idle_def l c client_Send_def send_writer_def Flush_def update_client_def)
  then show ?thesis using assms by (intro exI [of _ ?y]) (simp add: idle_def)
qed

text \<open>C38: the pings of a tick and the offset of the master. Each replica that can be reached is sent one \<open>PING\<close>
  of 14 bytes, but the offset of the master moves on by 14 for every replica: with two or more
  replicas it runs ahead of the bytes any of them has been sent, by 14 bytes per further replica
  and tick, modulo \<open>2 ^ 64\<close>.\<close>

theorem ping_offset_drift:
  assumes "distinct (replicas s)" and "\<forall>r \<in> set (replicas s). idle (client_of s r)"
  shows "srv_offset (pingReplicas env s) = srv_offset s + 14 * of_nat (length (replicas s)) \<and>
    replicas (pingReplicas env s) = replicas s \<and> store (pingReplicas env s) = store s \<and>
    (\<forall>r. conn_out (client_of (pingReplicas env s) r) = conn_out (client_of s r) @ (if r \<in> set (replicas s) then CreatePingCommand else [])) \<and>
    length CreatePingCommand = 14"
proof -
  have c: "client_of (t\<lparr>srv_offset := off\<rparr>) = client_of t" for t off by (simp add: client_of_def fun_eq_iff)
  have "srv_offset (fold (ping_replica env) rs s) = srv_offset s + 14 * of_nat (length rs) \<and>
      replicas (fold (ping_replica env) rs s) = replicas s \<and> store (fold (ping_replica env) rs s) = store s \<and>
      (\<forall>r. conn_out (client_of (fold (ping_replica env) rs s) r) = conn_out (client_of s r) @ (if r \<in> set rs then CreatePingCommand else []))"
    if "distinct rs" "\<forall>r \<in> set rs. idle (client_of s r)" for rs and s :: server
    using that
  proof (induction rs arbitrary: s)
    case (Cons r rs)
    from Cons.prems ping_replica_idle [of s r env] obtain x where p: "ping_replica env r s = set_client r x (s\<lparr>srv_offset := srv_offset s + 14\<rparr>)"
      "conn_out x = conn_out (client_of s r) @ CreatePingCommand" by auto
    let ?s = "set_client r x (s\<lparr>srv_offset := srv_offset s + 14\<rparr>)"
    have "\<forall>r' \<in> set rs. idle (client_of ?s r')" using Cons.prems by (auto simp: c)
    with Cons.IH [of ?s] Cons.prems p show ?case by (auto simp: c algebra_simps)
  qed simp
  moreover have "length CreatePingCommand = 14" by code_simp
  ultimately show ?thesis using assms unfolding pingReplicas_def by blast
qed

definition two_replicas :: server where
  "two_replicas = srv (example_run [Accept 1 ''id'' ''addr'', Accept 2 ''id'' ''addr'',
     message 1 [''REPLCONF'', ''listening-port'', ''1''], message 2 [''REPLCONF'', ''listening-port'', ''2'']])"

theorem ping_offset_drift_witness:
  "srv_offset (pingReplicas (plain_cmd_env 0) two_replicas) = 28 \<and>
   conn_out (client_of (pingReplicas (plain_cmd_env 0) two_replicas) 1) = ''+OK'' @ crlf @ CreatePingCommand"
proof -
  have "replicas two_replicas = [1, 2]" "srv_offset two_replicas = 0" "conn_out (client_of two_replicas 1) = ''+OK'' @ crlf"
    "idle (client_of two_replicas 1)" "idle (client_of two_replicas 2)" by code_simp+
  with ping_offset_drift [of two_replicas "plain_cmd_env 0"] show ?thesis by simp
qed

end
