(* ===== verification/Ack_Props.thy ===== *)
theory Ack_Props
  imports Replication_Props Server_Props
begin

text \<open>
  Acknowledgements, over a master and a replica: what \<open>GETACK\<close> asks for, what the replica answers
  and what \<open>WAIT\<close> concludes from it.
\<close>

section \<open>The request\<close>

lemma CreateCommand_nonempty: "args \<noteq> [] \<Longrightarrow> CreateCommand args \<noteq> []"
  by (simp add: CreateCommand_raw raw_command len_line_def)

lemma getack_replica_idle:
  "idle (client_of s r) \<Longrightarrow> getack_replica env r s = set_client r ((client_of s r)\<lparr>conn_out := conn_out (client_of s r) @ getack_cmd\<rparr>) s"
  using client_Send_idle [of "client_of s r" getack_cmd s r env]
    CreateCommand_nonempty [of "[''REPLCONF'', ''GETACK'', ''*'']"]
  by (simp add: getack_replica_def idle_def getack_cmd_def)

lemma getack_fold:
  assumes "distinct rs" and "\<forall>r \<in> set rs. idle (client_of s r)" and "s' = fold (getack_replica env) rs s"
  shows "store s' = store s \<and> srv_offset s' = srv_offset s \<and> replicas s' = replicas s \<and> fst ` set (cl_heap s') = fst ` set (cl_heap s) \<union> set rs \<and>
    (\<forall>q. client_of s' q = (if q \<in> set rs then (client_of s q)\<lparr>conn_out := conn_out (client_of s q) @ getack_cmd\<rparr> else client_of s q))"
  using assms
proof (induction rs arbitrary: s)
  case (Cons r rs)
  let ?s = "set_client r ((client_of s r)\<lparr>conn_out := conn_out (client_of s r) @ getack_cmd\<rparr>) s"
  have 1: "getack_replica env r s = ?s" using Cons.prems(2) by (intro getack_replica_idle) simp
  have "\<forall>q \<in> set rs. idle (client_of ?s q)" using Cons.prems by auto
  with Cons.IH [of ?s] Cons.prems 1 show ?case using known_set_client [of r _ s] by (auto simp: known_def)
qed simp

section \<open>The answer\<close>

lemma show_nat_length: "n < 10 ^ k \<Longrightarrow> 0 < k \<Longrightarrow> length (show_nat n) \<le> k"
proof (induction k arbitrary: n)
  case (Suc k)
  show ?case
  proof (cases "n < 10")
    case False
    with Suc.prems(1) have "n div 10 < 10 ^ k" "0 < k" by (auto simp: less_mult_imp_div_less intro: Nat.gr0I)
    with Suc.IH False show ?thesis by (simp add: show_nat.simps [of n])
  qed (simp add: show_nat.simps [of n])
qed simp

lemma FormatUint_length: "int (length (FormatUint u)) \<le> 20"
proof -
  have "unat u < 2 ^ LENGTH(64)" by (rule unsigned_less)
  then have "unat u < 10 ^ 20" by simp
  from show_nat_length [OF this] show ?thesis by (simp add: FormatUint_def)
qed

definition ack_args :: "64 word \<Rightarrow> string list" where
  "ack_args off = [''REPLCONF'', ''ACK'', FormatUint off]"

lemma ack_sendable: "sendable (ack_args off)"
  using FormatUint_length [of off] by (simp add: sendable_def ack_args_def maxAlloc_def)

lemma getack_clean: "clean_args [''REPLCONF'', ''GETACK'', ''*'']"
  by (simp add: clean_args_def sendable_def maxAlloc_def)

lemma replica_answers:
  assumes "responseWaitQueue t = []" and "idle (client_of t m)"
  shows "handleMasterConnection env m [] (getack_cmd @ rest) t = handleMasterConnection env m [] rest
    ((set_client m ((client_of t m)\<lparr>conn_out := conn_out (client_of t m) @ CreateCommand (ack_args (srv_offset t))\<rparr>) t)
      \<lparr>srv_offset := srv_offset t + of_nat (length getack_cmd)\<rparr>)"
proof -
  let ?r = "command_resp [''REPLCONF'', ''GETACK'', ''*'']"
  have a: "resp_array ?r = Ret (bulk ''REPLCONF'' # map bulk [''GETACK'', ''*''])" by (simp add: command_resp_def array_resp_def resp_array_def)
  have low: "ToLower (base env) ''REPLCONF'' = ''replconf''" "ToLower (base env) ''GETACK'' = ''getack''"
    by (rule ToLower_ascii; code_simp)+
  have "respondToGetAck env m t = set_client m ((client_of t m)\<lparr>conn_out := conn_out (client_of t m) @ CreateCommand (ack_args (srv_offset t))\<rparr>) t"
    using client_Send_idle [of "client_of t m" "CreateCommand (ack_args (srv_offset t))" t m env] assms(2)
      CreateCommand_nonempty [of "ack_args (srv_offset t)"]
    by (simp add: respondToGetAck_def idle_def ack_args_def Let_def)
  moreover have "is_getack (base env) ''replconf'' (map bulk [''GETACK'', ''*''])" by (simp add: is_getack_def low)
  ultimately have "handleMasterResponse env m ?r rest (dispatchResponse env m ?r t)
      = MDone (set_client m ((client_of t m)\<lparr>conn_out := conn_out (client_of t m) @ CreateCommand (ack_args (srv_offset t))\<rparr>) t) rest"
    using assms(1) by (simp add: handleMasterResponse_def dispatchResponse_def a low Let_def)
  then show ?thesis
    unfolding getack_cmd_def master_command [OF getack_clean] by (simp add: master_message_def set_client_def)
qed

section \<open>The acknowledgement\<close>

lemma ack_arrives: "HandleConnection (CreateCommand (ack_args off)) = ([command_resp (ack_args off)], False)"
  using handle_commands [of "[ack_args off]"] ack_sendable [of off]
  by (simp add: HandleConnection_def CreateCommand_raw ack_args_def)

lemma master_counts:
  assumes "idle (client_of (srv n) q)" and "\<not> inTransaction (client_of (srv n) q)"
  shows "loop_message env q (command_resp (ack_args off)) n
    = n\<lparr>srv := set_client q (UpdateOffset off (client_of (srv n) q)) (srv n)\<rparr>"
proof -
  let ?r = "command_resp (ack_args off)" and ?x = "client_of (srv n) q"
  have a: "resp_array ?r = Ret (bulk ''REPLCONF'' # map bulk [''ACK'', FormatUint off])"
    by (simp add: command_resp_def array_resp_def resp_array_def ack_args_def)
  have low: "ToLower (base env) ''REPLCONF'' = ''replconf''" "ToLower (base env) ''ACK'' = ''ack''"
    by (rule ToLower_ascii; code_simp)+
  let ?y = "UpdateOffset off ?x"
  let ?s = "set_client q ?y (srv n)"
  have g: "GetCommand ''replconf'' = Inr ReplConf" "''replconf'' \<notin> set WriteableCommands" by code_simp+
  have y: "?y\<lparr>Writer := Writer ?x\<rparr> = ?y" "Writer ?y = Writer ?x" by (simp_all add: UpdateOffset_def)
  have e: "Execute env True q ReplConf (map bulk [''ACK'', FormatUint off]) (srv n) (Writer ?x) = Done ?s (Writer ?x) None"
    by (simp add: Execute_def execute_plain_def ReplConf_Execute_def low Let_def ParseUint_FormatUint update_client_def)
  have "after_execute (base env) q ?r ''replconf'' (map bulk [''ACK'', FormatUint off]) ?s (Writer ?x) None = Ret (?s, None)"
    using g(2) by (simp add: after_execute_def Let_def put_writer_def update_client_def y)
  then have "handleMessage env q ?r (srv n) = Handled ?s None"
    using assms(2) e by (simp add: handleMessage_def a low g IsInTransaction_def Let_def IsBlocking_def run_message_def)
  moreover have "client_Send env q ?s = (?s, None)"
    using assms(1) by (simp add: client_Send_def send_writer_def Flush_def idle_def y update_client_def)
  ultimately show ?thesis by (simp add: loop_message_def finish_message_def)
qed

lemma step_message:
  "\<not> down n \<Longrightarrow> loop_wait n = None \<Longrightarrow> c \<in> fst ` set (cl_heap (srv n)) \<Longrightarrow> step env (Message c r) n = loop_message env c r n"
  by (simp add: step_def)

text \<open>C10: a round of acknowledgements, over the bytes on the wire. The master ticks: every replica is sent a \<open>GETACK\<close>.
  A replica in step with the master reads it, answers with the offset it had before and is in step
  again; the connection goroutine of the master cuts the answer into one message, and the loop that handles
  it counts the replica as having acknowledged every write up to the master's offset before the
  tick. No other replica's acknowledgement changes, nor does either key space. So a \<open>WAIT\<close> for such a write that lacked
  only this replica is over.\<close>

theorem ack_round:
  assumes "reachable e n" and "\<not> down n" and "loop_wait n = None" and "\<forall>r \<in> set (replicas (srv n)). idle (client_of (srv n) r)"
    and "q \<in> set (replicas (srv n))" and "\<not> inTransaction (client_of (srv n) q)"
    and "responseWaitQueue t = []" and "idle (client_of t m)" and "srv_offset t = srv_offset (srv n)"
  shows "let n1 = step env GetAckTick n in
    \<exists>ask ack r t'. conn_out (client_of (srv n1) q) = conn_out (client_of (srv n) q) @ ask \<and>
      handleMasterConnection env' m [] ask t = MReady [] t' \<and> store t' = store t \<and> srv_offset t' = srv_offset (srv n1) \<and>
      conn_out (client_of t' m) = conn_out (client_of t m) @ ack \<and> HandleConnection ack = ([r], False) \<and>
      (let n2 = step env (Message q r) n1 in
       store (srv n2) = store (srv n) \<and> replicas (srv n2) = replicas (srv n) \<and> \<not> down n2 \<and>
       (\<forall>off. off \<le> srv_offset (srv n) \<longrightarrow> acked off (srv n2) = insert q (acked off (srv n)) \<and>
         (\<forall>k millis start. k \<le> int (card (insert q (acked off (srv n)))) \<longrightarrow> wait_over (base env) k millis start off (srv n2))))"
proof -
  let ?s = "srv n" and ?ack = "ack_args (srv_offset t)"
  let ?moved = "?s\<lparr>srv_offset := srv_offset ?s + of_nat (length getack_cmd)\<rparr>"
  let ?t = "(set_client m ((client_of t m)\<lparr>conn_out := conn_out (client_of t m) @ CreateCommand ?ack\<rparr>) t)\<lparr>srv_offset := srv_offset t + of_nat (length getack_cmd)\<rparr>"
  have ok: "distinct (replicas ?s)" using reachable_ok [OF assms(1)] by (simp add: server_ok_def)
  obtain n1 where n1: "step env GetAckTick n = n1" by blast
  then have s1: "srv n1 = fold (getack_replica env) (replicas ?s) ?moved" and d: "\<not> down n1" "loop_wait n1 = None"
    using assms(2,3) by (auto simp: step_def sendReplConfGetAckToAllReplicas_def Let_def)
  have "\<forall>r \<in> set (replicas ?s). idle (client_of ?moved r)" using assms(4) by simp
  note f = getack_fold [OF ok this s1]
  then have f: "store (srv n1) = store ?s" "srv_offset (srv n1) = srv_offset ?s + of_nat (length getack_cmd)" "replicas (srv n1) = replicas ?s"
    "q \<in> fst ` set (cl_heap (srv n1))" "client_of (srv n1) q = (client_of ?s q)\<lparr>conn_out := conn_out (client_of ?s q) @ getack_cmd\<rparr>"
    "\<And>r. offset (client_of (srv n1) r) = offset (client_of ?s r)"
    using assms(5) by simp_all
  have t: "handleMasterConnection env' m [] getack_cmd t = MReady [] ?t"
    using replica_answers [OF assms(7,8), of env' "[]"] by (simp add: handleMasterConnection.simps)
  have q: "idle (client_of (srv n1) q)" "\<not> inTransaction (client_of (srv n1) q)"
    using f(5) assms(4,5,6) by (auto simp: idle_def)
  obtain n2 where n2: "step env (Message q (command_resp ?ack)) n1 = n2" by blast
  then have 2: "n2 = n1\<lparr>srv := set_client q (UpdateOffset (srv_offset t) (client_of (srv n1) q)) (srv n1)\<rparr>"
    using step_message [OF d f(4)] master_counts [OF q] by simp
  have a: "acked off (srv n2) = insert q (acked off ?s)" if "off \<le> srv_offset ?s" for off
    using that f(3,6) assms(5,9) by (auto simp: acked_def UpdateOffset_def Offset_def 2)
  moreover have "distinct (replicas (srv n2))" using f(3) 2 ok by simp
  ultimately have w: "wait_over (base env) k millis start off (srv n2)"
    if "off \<le> srv_offset ?s" "k \<le> int (card (insert q (acked off ?s)))" for off k millis start
    using that by (simp add: wait_over_def acked_count)
  have e: "store (srv n2) = store ?s" "replicas (srv n2) = replicas ?s" "\<not> down n2" using f d 2 by simp_all
  show ?thesis
    unfolding Let_def n1
    by (rule exI [of _ getack_cmd], rule exI [of _ "CreateCommand ?ack"], rule exI [of _ "command_resp ?ack"], rule exI [of _ ?t])
      (simp add: n2 [unfolded assms(9)] f t [unfolded assms(9)] a w e ack_arrives assms(9))
qed

definition ack_master :: node where
  "ack_master = example_run [Accept 1 ''x'' ''x'', Accept 2 ''y'' ''y'', message 2 [''REPLCONF'', ''listening-port'', ''6380''], message 1 [''SET'', ''k'', ''v'']]"

definition ack_replica :: server where
  "ack_replica = (case handleMasterConnection (plain_cmd_env 0) 9 [] (CreateCommand [''SET'', ''k'', ''v'']) example_server of
     MReady _ t \<Rightarrow> t | _ \<Rightarrow> example_server)"

theorem ack_round_witness:
  "\<not> wait_over (plain_env 0) 1 0 0 27 (srv ack_master) \<and>
   (\<exists>r. wait_over (plain_env 0) 1 0 0 27 (srv (step (plain_cmd_env 0) (Message 2 r) (step (plain_cmd_env 0) GetAckTick ack_master))))"
proof -
  have n: "\<not> down ack_master" "loop_wait ack_master = None" "\<forall>r \<in> set (replicas (srv ack_master)). idle (client_of (srv ack_master) r)"
    "2 \<in> set (replicas (srv ack_master))" "\<not> inTransaction (client_of (srv ack_master) 2)"
    by code_simp+
  have t: "responseWaitQueue ack_replica = []" "idle (client_of ack_replica 9)" "srv_offset ack_replica = srv_offset (srv ack_master)"
    by code_simp+
  have r: "reachable (plain_env 0) ack_master" unfolding ack_master_def by (rule example_reachable)
  have w: "(27 :: 64 word) \<le> srv_offset (srv ack_master)" "\<not> wait_over (plain_env 0) 1 0 0 27 (srv ack_master)"
    "1 \<le> int (card (insert 2 (acked 27 (srv ack_master))))"
    by (code_simp, code_simp, simp add: acked_def Suc_le_eq card_gt_0_iff)
  from ack_round [OF r n t, of "plain_cmd_env 0" "plain_cmd_env 0"]
  obtain r where "\<forall>off. off \<le> srv_offset (srv ack_master) \<longrightarrow> (\<forall>k millis start. k \<le> int (card (insert 2 (acked off (srv ack_master)))) \<longrightarrow>
      wait_over (plain_env 0) k millis start off (srv (step (plain_cmd_env 0) (Message 2 r) (step (plain_cmd_env 0) GetAckTick ack_master))))"
    unfolding Let_def base_plain by blast
  with w show ?thesis by blast
qed

end
