(* ===== verification/Startup.thy ===== *)
theory Startup
  imports Transaction_Props
begin

text \<open>
  The beginning of the program (\<open>app/server.go\<close>, \<open>NewServer\<close> of \<open>server.go\<close> and \<open>pkg/utils/random.go\<close>): the
  flags become the configuration, and the configuration decides whether the process is a master
  or a replica. What \<open>run\<close> does next is in \<open>Lifecycle\<close>.
\<close>

section \<open>The flags\<close>

text \<open>The values of the flags \<open>port\<close>, \<open>dir\<close>, \<open>dbfilename\<close> and \<open>replicaof\<close>. The four keys of the map are
  distinct and supported, so the order in which \<open>SetBatch\<close> visits them does not matter.\<close>

record flags =
  port :: string
  dir :: string
  dbFilename :: string
  replicaOf :: string

definition default_flags :: flags where
  "default_flags = \<lparr>port = ''6379'', dir = ''/tmp/redis'', dbFilename = ''dump.rdb'', replicaOf = []\<rparr>"

definition run_config :: "go_env \<Rightarrow> flags \<Rightarrow> string + config" where
  "run_config env f =
     (if replicaOf f \<noteq> [] \<and> length (Split (replicaOf f) (CHR '' '')) \<noteq> 2
      then Inl ''invalid replicaof flag, expected format: replicaof <host> <port>''
      else (case config_SetBatch env NewConfig
          [(ListenAddrKey, '':'' @ port f), (DirKey, dir f), (DBFilenameKey, dbFilename f), (ReplicaOfKey, replicaOf f)] of
        (Some err, _) \<Rightarrow> Inl err
      | (None, cf) \<Rightarrow> Inr cf))"

section \<open>Random identifiers\<close>

definition charset :: string where
  "charset = ''abcdefghijklmnopqrstuvwxyzABCDEFGHIJKLMNOPQRSTUVWXYZ0123456789''"

text \<open>\<open>intn i\<close> is the result of the \<open>i\<close>-th call of \<open>Intn\<close>.\<close>

definition GenerateRandomAlphanumeric :: "(nat \<Rightarrow> nat) \<Rightarrow> nat \<Rightarrow> string" where
  "GenerateRandomAlphanumeric intn len = map (\<lambda>i. charset ! intn i) [0..<len]"

lemma random_alphanumeric:
  assumes "\<forall>i < len. intn i < length charset"
  shows "length (GenerateRandomAlphanumeric intn len) = len \<and> set (GenerateRandomAlphanumeric intn len) \<subseteq> set charset"
  using assms by (auto simp: GenerateRandomAlphanumeric_def)

section \<open>Properties\<close>

definition config_value :: "go_env \<Rightarrow> config \<Rightarrow> string \<Rightarrow> string" where
  "config_value env cf key = (case config_Get env cf key of Inl _ \<Rightarrow> [] | Inr v \<Rightarrow> v)"

lemma upper_keys [simp]:
  "ToUpper env ListenAddrKey = ListenAddrKey" "ToUpper env DirKey = DirKey" "ToUpper env DBFilenameKey = DBFilenameKey"
  "ToUpper env ReplicaOfKey = ReplicaOfKey"
  by (simp_all add: supported_upper supportedOptions_def)

lemma distinct_keys:
  "distinct [ListenAddrKey, DirKey, DBFilenameKey, ReplicaOfKey]" "distinct [ReplicaOfKey, DBFilenameKey, DirKey, ListenAddrKey]"
  by (simp_all add: ListenAddrKey_def DirKey_def DBFilenameKey_def ReplicaOfKey_def)

lemma set_batch_supported:
  "fst ` set pairs \<subseteq> set supportedOptions \<Longrightarrow> config_SetBatch env cf pairs =
     (None, cf\<lparr>options := fold (\<lambda>(k, v) m. if v = [] then m else map_put m k v) pairs (options cf)\<rparr>)"
proof (induction pairs arbitrary: cf)
  case (Cons p pairs)
  obtain k v where p: "p = (k, v)" by fastforce
  then have "ToUpper env k = k" "k \<in> set supportedOptions" using Cons.prems supported_upper by auto
  with Cons p show ?case by simp
qed simp

lemma run_config_ok:
  assumes "replicaOf f = [] \<or> length (Split (replicaOf f) (CHR '' '')) = 2"
  obtains cf where "run_config env f = Inr cf" "config_value env cf ListenAddrKey = '':'' @ port f"
    "config_value env cf DirKey = dir f" "config_value env cf DBFilenameKey = dbFilename f"
    "config_value env cf ReplicaOfKey = replicaOf f" "map_of (options cf) ReplicaOfKey = None \<longleftrightarrow> replicaOf f = []"
proof -
  let ?ps = "[(ListenAddrKey, '':'' @ port f), (DirKey, dir f), (DBFilenameKey, dbFilename f), (ReplicaOfKey, replicaOf f)]"
  define put :: "string \<times> string \<Rightarrow> (string \<times> string) list \<Rightarrow> (string \<times> string) list"
    where "put = (\<lambda>(k, v) m. if v = [] then m else map_put m k v)"
  define cf where "cf = \<lparr>options = fold put ?ps []\<rparr>"
  have put: "map_of (put p m) k = (if k = fst p \<and> snd p \<noteq> [] then Some (snd p) else map_of m k)" for p m k
    by (simp add: put_def split: prod.splits)
  have "config_SetBatch env NewConfig ?ps = (None, cf)"
    using set_batch_supported [of ?ps env NewConfig] by (simp add: supportedOptions_def NewConfig_def cf_def put_def)
  then have "run_config env f = Inr cf" using assms unfolding run_config_def by auto
  moreover have "map_of (options cf) ListenAddrKey = Some ('':'' @ port f)"
    "map_of (options cf) DirKey = (if dir f = [] then None else Some (dir f))"
    "map_of (options cf) DBFilenameKey = (if dbFilename f = [] then None else Some (dbFilename f))"
    "map_of (options cf) ReplicaOfKey = (if replicaOf f = [] then None else Some (replicaOf f))"
    using distinct_keys by (simp_all add: cf_def put)
  ultimately show thesis using that [of cf] by (simp add: config_value_def config_Get_def)
qed

text \<open>C37: the start decides the role once and for all. When \<open>replicaof\<close> is
  empty or made of a host and a port, the program accepts its flags, \<open>NewServer\<close> does not panic, the configuration holds the
  flags, the server is a master (with the random replication ID) exactly when \<open>replicaof\<close> is empty and
  otherwise knows its master as host:port, \<open>INFO\<close> reports this role, and the store is empty and the
  invariant of the server holds.\<close>

theorem startup_roles:
  assumes "replicaOf f = [] \<or> replicaOf f = host @ '' '' @ prt" and "CHR '' '' \<notin> set host" and "CHR '' '' \<notin> set prt"
  shows "\<exists>cf s. run_config env f = Inr cf \<and> NewServer env cf rid = Ret s \<and> server_ok e s \<and> store s = NewStore \<and>
    (isMaster s \<longleftrightarrow> replicaOf f = []) \<and>
    (if isMaster s then replicationID s = rid else masterAddr s = host @ '':'' @ prt) \<and>
    determineRole env (cfg s) = (if isMaster s then ''master'' else ''slave'') \<and>
    config_value env (cfg s) ListenAddrKey = '':'' @ port f \<and> config_value env (cfg s) DirKey = dir f \<and>
    config_value env (cfg s) DBFilenameKey = dbFilename f"
proof -
  have split: "replicaOf f \<noteq> [] \<Longrightarrow> Split (replicaOf f) (CHR '' '') = [host, prt]"
    using assms by (auto simp: Split_append Split_no_sep)
  then have "replicaOf f = [] \<or> length (Split (replicaOf f) (CHR '' '')) = 2" by (cases "replicaOf f = []") simp_all
  then obtain cf where cf: "run_config env f = Inr cf" "config_value env cf ListenAddrKey = '':'' @ port f"
    "config_value env cf DirKey = dir f" "config_value env cf DBFilenameKey = dbFilename f"
    "config_value env cf ReplicaOfKey = replicaOf f" "map_of (options cf) ReplicaOfKey = None \<longleftrightarrow> replicaOf f = []"
    by (rule run_config_ok)
  have role: "determineRole env cf = (if replicaOf f = [] then ''master'' else ''slave'')"
    using cf(6) by (auto simp: determineRole_def config_Get_def split: option.splits)
  obtain s where s: "NewServer env cf rid = Ret s" "cfg s = cf" "isMaster s \<longleftrightarrow> replicaOf f = []" "store s = NewStore"
    "if isMaster s then replicationID s = rid else masterAddr s = host @ '':'' @ prt"
    using split cf(5) unfolding NewServer_def config_value_def Let_def by (cases "replicaOf f = []") auto
  show ?thesis using cf(1-4) s role NewServer_ok [OF s(1), of e] by auto
qed

theorem startup_roles_witness:
  "\<exists>cf s. run_config (plain_env 0) (default_flags\<lparr>replicaOf := ''localhost 6379''\<rparr>) = Inr cf \<and>
    NewServer (plain_env 0) cf ''id'' = Ret s \<and> \<not> isMaster s \<and> masterAddr s = ''localhost:6379''"
  using startup_roles [of "default_flags\<lparr>replicaOf := ''localhost 6379''\<rparr>" "''localhost''" "''6379''" "plain_env 0" "''id''" "plain_env 0"]
  by (auto simp: default_flags_def)

end
