(* ===== verification/Lifecycle.thy ===== *)
theory Lifecycle
  imports Startup
begin

text \<open>
  The life of a process: \<open>run\<close> and \<open>main\<close> of \<open>app/server.go\<close>, and \<open>Start\<close>, \<open>Listen\<close>, the loop of
  \<open>acceptConnection\<close> and \<open>Close\<close> of \<open>server.go\<close>, as events of a process with its goroutines. What the
  operating system answers (the RDB file, \<open>net.Dial\<close>, \<open>net.Listen\<close>, \<open>Accept\<close>, signals) comes with the
  event. When the handshake with the master has failed, what the goroutine of that connection still
  reads until the process ends is left out.
\<close>

section \<open>Start\<close>

text \<open>What the operating system says when \<open>Start\<close> opens the file \<open>dir/dbfilename\<close>.\<close>

datatype open_result = OpenFails string | NotExist | StatFails string | Directory | File string

datatype start_error =
    OpenError string | StatError string | ParseError rdb_error | DialError string | ReplicationError string
  | ListenError string | AcceptError string

definition start_load :: "cmd_env \<Rightarrow> open_result \<Rightarrow> server \<Rightarrow> start_error + server" where
  "start_load env res s = (case res of
       OpenFails e \<Rightarrow> Inl (OpenError e)
     | NotExist \<Rightarrow> Inr s
     | StatFails e \<Rightarrow> Inl (StatError e)
     | Directory \<Rightarrow> Inr s
     | File bytes \<Rightarrow> (case load_file env (Some bytes) s of Inl e \<Rightarrow> Inl (ParseError e) | Inr s \<Rightarrow> Inr s))"

definition listen_addr :: "go_env \<Rightarrow> server \<Rightarrow> string" where
  "listen_addr env s = (case config_Get env (cfg s) ListenAddrKey of Inl _ \<Rightarrow> '':6379'' | Inr addr \<Rightarrow> addr)"

section \<open>The process\<close>

text \<open>The goroutine of \<open>run\<close> that calls \<open>Start\<close>: not scheduled yet; in the handshake; at \<open>Listen\<close>; in
  the loop of \<open>acceptConnection\<close>; or \<open>Start\<close> has returned, with an error or nil.\<close>

datatype starter = NotBegun | Replicating | AtListen | Accepting | Returned "start_error option"

text \<open>The main goroutine: in the select of \<open>run\<close>; \<open>Close\<close> has returned; the process has ended.\<close>

datatype runner = Selecting | Closed | Exited nat

text \<open>The goroutine that reads the connection to the master.\<close>

datatype mconn = NoMaster | Reading nat string | MasterWaits nat blocked | MasterGone

record process =
  node_of :: node
  starter :: starter
  runner :: runner
  mconn :: mconn
  ln :: "string option"
  done_closed :: bool
  ctx_done :: bool
  loop_on :: bool
  ping_on :: bool
  getack_on :: bool

definition new_process :: "server \<Rightarrow> process" where
  "new_process s = \<lparr>node_of = new_node s, starter = NotBegun, runner = Selecting, mconn = NoMaster, ln = None,
     done_closed = False, ctx_done = False, loop_on = False, ping_on = False, getack_on = False\<rparr>"

abbreviation psrv :: "process \<Rightarrow> server" where
  "psrv p \<equiv> srv (node_of p)"

definition put_srv :: "server \<Rightarrow> process \<Rightarrow> process" where
  "put_srv s p = p\<lparr>node_of := (node_of p)\<lparr>srv := s\<rparr>\<rparr>"

text \<open>\<open>Start\<close> returns and the goroutine calls \<open>cancel\<close>. The variable holds the function of the context
  of \<open>Start\<close> only until the main goroutine has left its select and assigned it anew.\<close>

definition return_start :: "start_error option \<Rightarrow> process \<Rightarrow> process" where
  "return_start err p = p\<lparr>starter := Returned err, ctx_done := (ctx_done p \<or> runner p = Selecting)\<rparr>"

text \<open>The end of \<open>startReplication\<close>.\<close>

definition settle :: "process \<Rightarrow> process" where
  "settle p =
     (if starter p = Replicating then
        (case handshake (psrv p) of
           Synced \<Rightarrow> p\<lparr>starter := AtListen\<rparr>
         | Failed e \<Rightarrow> return_start (Some (ReplicationError e)) p
         | _ \<Rightarrow> p)
      else p)"

text \<open>\<open>Start\<close> up to \<open>Listen\<close>, or up to the first answer of the master: the argument \<open>dial\<close> is the
  error of \<open>net.Dial\<close>, if any, and \<open>m\<close> the client object of the connection.\<close>

definition Start :: "cmd_env \<Rightarrow> open_result \<Rightarrow> string option \<Rightarrow> nat \<Rightarrow> process \<Rightarrow> process" where
  "Start env res dial m p = (case start_load env res (psrv p) of
       Inl e \<Rightarrow> return_start (Some e) p
     | Inr s \<Rightarrow>
         (let p = put_srv s p in
          if isMaster s then p\<lparr>ping_on := True, getack_on := True, starter := AtListen\<rparr>
          else (case dial of
              Some e \<Rightarrow> return_start (Some (DialError e)) p
            | None \<Rightarrow> settle ((put_srv (connect_master env m s) p)\<lparr>mconn := Reading m [], starter := Replicating\<rparr>))))"

text \<open>\<open>Listen\<close> with the error of \<open>net.Listen\<close>, if any.\<close>

definition Listen :: "cmd_env \<Rightarrow> string option \<Rightarrow> process \<Rightarrow> process" where
  "Listen env err p = (case err of
       Some e \<Rightarrow> return_start (Some (ListenError e)) p
     | None \<Rightarrow> p\<lparr>ln := Some (listen_addr (base env) (psrv p)), loop_on := True, starter := Accepting\<rparr>)"

text \<open>An error of \<open>Accept\<close> in \<open>acceptConnection\<close>.\<close>

definition accept_fails :: "string \<Rightarrow> process \<Rightarrow> process" where
  "accept_fails e p = return_start (if done_closed p then None else Some (AcceptError e)) p"

text \<open>Bytes from the master, whole messages and a snapshot with the reply that announces it: where they
  end inside a snapshot, the connection has failed there. A command that waits leaves the goroutine waiting.\<close>

definition from_master :: "cmd_env \<Rightarrow> string \<Rightarrow> process \<Rightarrow> process" where
  "from_master env input p = (case mconn p of
       Reading m buffer \<Rightarrow>
         if masterClient (psrv p) = Some m then
           (case handleMasterConnection env m buffer input (psrv p) of
              MReady buffer s \<Rightarrow> settle ((put_srv s p)\<lparr>mconn := Reading m buffer\<rparr>)
            | MStuck s b \<Rightarrow> settle ((put_srv s p)\<lparr>mconn := MasterWaits m b\<rparr>)
            | MPanic \<Rightarrow> p\<lparr>node_of := (node_of p)\<lparr>down := True\<rparr>\<rparr>)
         else p
     | _ \<Rightarrow> p)"

text \<open>The master closes the connection, or the read fails: the goroutine closes its side and ends.\<close>

definition master_eof :: "process \<Rightarrow> process" where
  "master_eof p = (case mconn p of
       Reading m buffer \<Rightarrow>
         (let s = psrv p in
          (put_srv (if masterClient s = None then s else update_client m Close s) p)\<lparr>mconn := MasterGone\<rparr>)
     | _ \<Rightarrow> p)"

text \<open>\<open>Close\<close> with the error of closing the listener, if any. Closing a closed channel panics.\<close>

definition Server_Close :: "string option \<Rightarrow> process \<Rightarrow> (process \<times> string option) go" where
  "Server_Close err p =
     (if done_closed p then Panic
      else (let p = p\<lparr>done_closed := True\<rparr> in
        case ln p of None \<Rightarrow> Ret (p, None) | Some _ \<Rightarrow> Ret (p, map_option (\<lambda>e. ''failed to close listener: '' @ e) err)))"

text \<open>\<open>run\<close> after its select: an error of \<open>Close\<close> is only logged.\<close>

definition shut_down :: "string option \<Rightarrow> process \<Rightarrow> process" where
  "shut_down err p = (case Server_Close err p of
       Panic \<Rightarrow> p\<lparr>runner := Exited 2\<rparr>
     | Ret (p, _) \<Rightarrow> p\<lparr>runner := Closed\<rparr>)"

datatype levent =
    StartRuns open_result "string option" nat
  | FromMaster string
  | MasterEOF
  | RequestQueued
  | AnswerTimeout
  | ListenReturns "string option"
  | Accepted nat string string
  | AcceptFails string
  | Serve event
  | LoopStops
  | PingStops
  | GetAckStops
  | Interrupted "string option"
  | ContextDone "string option"
  | ProcessEnds

text \<open>The goroutine that takes an event of the server.\<close>

definition takes :: "event \<Rightarrow> process \<Rightarrow> bool" where
  "takes e p = (case e of
       Accept c rid addr \<Rightarrow> False
     | Message c r \<Rightarrow> loop_on p
     | WakeLoop chosen \<Rightarrow> loop_on p
     | PingTick \<Rightarrow> ping_on p
     | GetAckTick \<Rightarrow> getack_on p
     | _ \<Rightarrow> True)"

definition exited :: "process \<Rightarrow> bool" where
  "exited p = (case runner p of Exited code \<Rightarrow> True | _ \<Rightarrow> False)"

text \<open>The events of a process; one that is not possible changes nothing. The loop sees \<open>done\<close> only in its select,
  not while the command of a message waits. A panic ends the process with
  status 2, the return of \<open>run\<close> with 0 (an error of \<open>Start\<close> is only logged).\<close>

definition lstep :: "cmd_env \<Rightarrow> levent \<Rightarrow> process \<Rightarrow> process" where
  "lstep env ev p =
     (if exited p then p
      else if down (node_of p) then p\<lparr>runner := Exited 2\<rparr>
      else (case ev of
          StartRuns res dial m \<Rightarrow>
            if starter p = NotBegun \<and> m \<notin> fst ` set (cl_heap (psrv p)) then Start env res dial m p else p
        | FromMaster input \<Rightarrow> from_master env input p
        | MasterEOF \<Rightarrow> master_eof p
        | RequestQueued \<Rightarrow> if mconn p = NoMaster then p else put_srv (queue_request (psrv p)) p
        | AnswerTimeout \<Rightarrow> if starter p = Replicating then settle (put_srv (handshake_timeout (psrv p)) p) else p
        | ListenReturns err \<Rightarrow> if starter p = AtListen then Listen env err p else p
        | Accepted c rid addr \<Rightarrow>
            if starter p = Accepting then p\<lparr>node_of := step env (Accept c rid addr) (node_of p)\<rparr> else p
        | AcceptFails e \<Rightarrow> if starter p = Accepting then accept_fails e p else p
        | Serve e \<Rightarrow> if takes e p then p\<lparr>node_of := step env e (node_of p)\<rparr> else p
        | LoopStops \<Rightarrow> if done_closed p \<and> loop_wait (node_of p) = None then p\<lparr>loop_on := False\<rparr> else p
        | PingStops \<Rightarrow> if done_closed p then p\<lparr>ping_on := False\<rparr> else p
        | GetAckStops \<Rightarrow> if ctx_done p then p\<lparr>getack_on := False\<rparr> else p
        | Interrupted err \<Rightarrow> if runner p = Selecting then shut_down err p else p
        | ContextDone err \<Rightarrow> if runner p = Selecting \<and> ctx_done p then shut_down err p else p
        | ProcessEnds \<Rightarrow> if runner p = Closed then p\<lparr>runner := Exited 0\<rparr> else p))"

text \<open>\<open>main\<close>: an error of \<open>run\<close> is fatal, with status 1; it can only be one of the flags.\<close>

definition launch :: "go_env \<Rightarrow> flags \<Rightarrow> string \<Rightarrow> (string + process) go" where
  "launch env f rid = (case run_config env f of
       Inl err \<Rightarrow> Ret (Inl (''error: '' @ err))
     | Inr cf \<Rightarrow> (case NewServer env cf rid of Panic \<Rightarrow> Panic | Ret s \<Rightarrow> Ret (Inr (new_process s))))"

end
