(* ===== verification/Lifecycle_Props.thy ===== *)
theory Lifecycle_Props
  imports Lifecycle
begin

text \<open>
  The properties of a whole process: the invariant over its life, on a master and on a replica;
  the shutdown; and a restart on what \<open>SAVE\<close> wrote.
\<close>

section \<open>The states of a process\<close>

inductive lreachable :: "go_env \<Rightarrow> flags \<Rightarrow> process \<Rightarrow> bool" for e f where
  launched: "launch env f rid = Ret (Inr p) \<Longrightarrow> lreachable e f p"
| event: "lreachable e f p \<Longrightarrow> lower_u (base env) = lower_u e \<Longrightarrow> lreachable e f (lstep env ev p)"

definition serving :: "server \<Rightarrow> bool" where
  "serving s \<longleftrightarrow> isMaster s \<or> handshake s = Synced"

text \<open>The part about the server, and the part about the goroutines.\<close>

definition process_srv :: "go_env \<Rightarrow> bool \<times> string \<times> string \<Rightarrow> process \<Rightarrow> bool" where
  "process_srv e R p \<longleftrightarrow> server_ok e (psrv p) \<and> fixed (psrv p) = R \<and>
     (starter p = NotBegun \<longrightarrow> handshake (psrv p) = NotStarted \<and> ln p = None \<and> mconn p = NoMaster) \<and>
     (ln p \<noteq> None \<or> starter p = AtListen \<or> starter p = Accepting \<longrightarrow> serving (psrv p)) \<and>
     (ping_on p \<or> getack_on p \<longrightarrow> isMaster (psrv p)) \<and> (mconn p \<noteq> NoMaster \<longrightarrow> \<not> isMaster (psrv p))"

definition process_go :: "process \<Rightarrow> bool" where
  "process_go p \<longleftrightarrow> (loop_on p \<or> starter p = Accepting \<longrightarrow> ln p \<noteq> None) \<and>
     (runner p = Selecting \<longrightarrow> \<not> done_closed p) \<and> (runner p = Closed \<longrightarrow> done_closed p) \<and>
     (ctx_done p \<longrightarrow> (\<exists>err. starter p = Returned err)) \<and>
     (runner p = Selecting \<and> (\<exists>err. starter p = Returned err) \<longrightarrow> ctx_done p) \<and>
     (\<forall>code. runner p = Exited code \<longrightarrow> down (node_of p) \<and> code = 2 \<or> done_closed p \<and> code = 0)"

text \<open>The server of a process may be replaced by one that is steady.\<close>

lemma process_steady:
  assumes "process_srv e R p" and "steady e (psrv p) (psrv q)" and "starter p = NotBegun \<longrightarrow> handshake (psrv q) = handshake (psrv p)" and "ln q = ln p" and "starter q = starter p"
    and "ping_on q = ping_on p" and "getack_on q = getack_on p" and "mconn q \<noteq> NoMaster \<longrightarrow> mconn p \<noteq> NoMaster"
  shows "process_srv e R q"
  using assms by (auto simp: process_srv_def steady_def serving_def fixed_def)

lemma settle_frame [simp]:
  "node_of (settle p) = node_of p" "ln (settle p) = ln p" "runner (settle p) = runner p" "done_closed (settle p) = done_closed p"
  "loop_on (settle p) = loop_on p" "ping_on (settle p) = ping_on p" "getack_on (settle p) = getack_on p" "mconn (settle p) = mconn p"
  by (simp_all add: settle_def return_start_def split: handshake_step.splits)

lemma return_frame [simp]:
  "node_of (return_start err p) = node_of p" "ln (return_start err p) = ln p" "runner (return_start err p) = runner p"
  "done_closed (return_start err p) = done_closed p" "loop_on (return_start err p) = loop_on p" "ping_on (return_start err p) = ping_on p"
  "getack_on (return_start err p) = getack_on p" "mconn (return_start err p) = mconn p" "starter (return_start err p) = Returned err"
  "ctx_done (return_start err p) = (ctx_done p \<or> runner p = Selecting)"
  by (simp_all add: return_start_def)

lemma put_srv_frame [simp]:
  "psrv (put_srv s p) = s" "ln (put_srv s p) = ln p" "runner (put_srv s p) = runner p" "done_closed (put_srv s p) = done_closed p"
  "loop_on (put_srv s p) = loop_on p" "ping_on (put_srv s p) = ping_on p" "getack_on (put_srv s p) = getack_on p"
  "mconn (put_srv s p) = mconn p" "starter (put_srv s p) = starter p" "ctx_done (put_srv s p) = ctx_done p"
  "down (node_of (put_srv s p)) = down (node_of p)"
  by (simp_all add: put_srv_def)

lemma settle_starter: "starter (settle p) = (if starter p = Replicating then
    (case handshake (psrv p) of Synced \<Rightarrow> AtListen | Failed err \<Rightarrow> Returned (Some (ReplicationError err)) | _ \<Rightarrow> Replicating) else starter p)"
  by (simp add: settle_def split: handshake_step.splits)

lemma srv_settle: "process_srv e R p \<Longrightarrow> process_srv e R (settle p)"
  by (auto simp: process_srv_def settle_starter serving_def split: if_splits handshake_step.splits)

lemma go_settle: "process_go p \<Longrightarrow> process_go (settle p)"
proof (cases "starter p = Replicating")
  case True
  assume "process_go p"
  with True show ?thesis
    by (cases "handshake (psrv p)") (auto simp: process_go_def settle_def return_start_def)
qed (simp add: settle_def)

lemma srv_return: "process_srv e R p \<Longrightarrow> process_srv e R (return_start err p)"
  by (auto simp: process_srv_def)

lemma go_return: "process_go p \<Longrightarrow> process_go (return_start err p)"
  by (auto simp: process_go_def)

lemma go_put [simp]: "process_go (put_srv s p) = process_go p" "process_go (p\<lparr>mconn := x\<rparr>) = process_go p"
  by (simp_all add: process_go_def)


text \<open>The events of the servers and of the operating system.\<close>

lemma steady_load: "start_load env res s = Inr t \<Longrightarrow> steady e s t \<and> role t = role s"
proof -
  assume a: "start_load env res s = Inr t"
  then have "role t = role s" by (auto simp: start_load_def load_file_def split: open_result.splits sum.splits)
  moreover have "server_ok e s \<Longrightarrow> server_ok e t"
    using a load_file_ok [of e s env] by (auto simp: start_load_def split: open_result.splits sum.splits)
  ultimately show ?thesis by (simp add: steady_role)
qed

lemma srv_start:
  assumes "process_srv e R p" and "starter p = NotBegun"
  shows "process_srv e R (Start env res dial m p)"
proof (cases "start_load env res (psrv p)")
  case (Inl err)
  with assms show ?thesis by (simp add: Start_def srv_return)
next
  case (Inr s)
  let ?p = "put_srv s p"
  have s: "steady e (psrv p) s" "role s = role (psrv p)" using steady_load [OF Inr] by auto
  then have h: "handshake s = NotStarted" "ln p = None" using assms by (auto simp: process_srv_def role_def)
  have p: "process_srv e R ?p"
    by (rule process_steady [OF assms(1)]) (use s in \<open>auto simp: role_def\<close>)
  show ?thesis
  proof (cases "isMaster s \<or> dial \<noteq> None")
    case True
    with p Inr show ?thesis by (auto simp: Start_def Let_def srv_return process_srv_def serving_def)
  next
    case False
    let ?q = "(put_srv (connect_master env m s) ?p)\<lparr>mconn := Reading m [], starter := Replicating\<rparr>"
    have "process_srv e R ?q"
      using p steady_connect [OF h(1), of e env m] False h(2) by (auto simp: process_srv_def steady_def fixed_def)
    with False Inr show ?thesis by (simp add: Start_def Let_def srv_settle)
  qed
qed

lemma go_begin:
  "process_go p \<Longrightarrow> starter p = NotBegun \<Longrightarrow> process_go (p\<lparr>ping_on := True, getack_on := True, starter := AtListen\<rparr>)"
  "process_go p \<Longrightarrow> starter p = NotBegun \<Longrightarrow> process_go (p\<lparr>mconn := x, starter := Replicating\<rparr>)"
  by (simp_all add: process_go_def)

lemma go_start: "process_go p \<Longrightarrow> starter p = NotBegun \<Longrightarrow> process_go (Start env res dial m p)"
  by (simp add: Start_def Let_def go_return go_settle go_begin split: sum.splits option.splits)

lemma srv_listen: "process_srv e R p \<Longrightarrow> starter p = AtListen \<Longrightarrow> process_srv e R (Listen env err p)"
  and go_listen: "process_go p \<Longrightarrow> starter p = AtListen \<Longrightarrow> process_go (Listen env err p)"
  by (cases err; simp add: Listen_def srv_return process_srv_def)
    (cases err; simp add: Listen_def go_return process_go_def)

lemma srv_put_mconn:
  assumes "process_srv e R p" and "steady e (psrv p) s" and "mconn p \<noteq> NoMaster"
  shows "process_srv e R ((put_srv s p)\<lparr>mconn := x\<rparr>)"
proof -
  have "starter p \<noteq> NotBegun" using assms(1,3) by (auto simp: process_srv_def)
  then show ?thesis by (intro process_steady [OF assms(1)]) (use assms(2,3) in auto)
qed

lemma srv_down: "process_srv e R (p\<lparr>node_of := (node_of p)\<lparr>down := d\<rparr>\<rparr>) = process_srv e R p"
  by (simp add: process_srv_def)

lemma srv_master: "process_srv e R p \<Longrightarrow> process_srv e R (from_master env input p)"
  by (auto simp: from_master_def srv_down split: mconn.splits mstate.splits intro!: srv_settle srv_put_mconn dest: steady_master)

lemma srv_eof: "process_srv e R p \<Longrightarrow> process_srv e R (master_eof p)"
  by (auto simp: master_eof_def Let_def split: mconn.splits intro!: srv_put_mconn steady_role ok_update)

lemma go_down: "process_go p \<Longrightarrow> process_go (p\<lparr>node_of := (node_of p)\<lparr>down := True\<rparr>\<rparr>)"
  by (auto simp: process_go_def)

lemma go_master: "process_go p \<Longrightarrow> process_go (from_master env input p)"
  by (simp add: from_master_def go_settle go_down split: mconn.splits mstate.splits)

lemma go_eof: "process_go p \<Longrightarrow> process_go (master_eof p)"
  by (simp add: master_eof_def Let_def split: mconn.splits)

lemma srv_node:
  assumes "process_srv e R p" and "lower_u (base env) = lower_u e"
  shows "process_srv e R (p\<lparr>node_of := step env ev (node_of p)\<rparr>)"
proof -
  have r: "role (srv (step env ev (node_of p))) = role (psrv p)" by (rule role_step)
  have "server_ok e (psrv p) \<Longrightarrow> server_ok e (srv (step env ev (node_of p)))"
    using ok_step [OF _ assms(2), of "node_of p" ev] by (simp add: node_ok_def)
  with r have "steady e (psrv p) (srv (step env ev (node_of p)))" by (rule steady_role)
  with r show ?thesis by (intro process_steady [OF assms(1)]) (auto simp: role_def)
qed

lemma srv_timeout: "process_srv e R p \<Longrightarrow> starter p = Replicating \<Longrightarrow> process_srv e R (put_srv (handshake_timeout (psrv p)) p)"
  by (rule process_steady) (auto intro: steady_timeout)

lemma srv_queue: "process_srv e R p \<Longrightarrow> process_srv e R (put_srv (queue_request (psrv p)) p)"
proof -
  assume p: "process_srv e R p"
  have "handshake (queue_request s) = handshake s" for s by (simp add: queue_request_def split: option.splits)
  then show ?thesis by (rule_tac process_steady [OF p]) (simp_all add: steady_queue)
qed

lemma lstep_srv:
  assumes "process_srv e R p" and "lower_u (base env) = lower_u e"
  shows "process_srv e R (lstep env ev p)"
proof -
  have off: "process_srv e R (p\<lparr>runner := x\<rparr>)" "process_srv e R (p\<lparr>loop_on := False\<rparr>)" "process_srv e R (p\<lparr>ping_on := False\<rparr>)"
    "process_srv e R (p\<lparr>getack_on := False\<rparr>)" "process_srv e R (shut_down err p)" for x err
    using assms(1) by (auto simp: process_srv_def shut_down_def Server_Close_def Let_def split: option.splits)
  show ?thesis
    using assms
    by (cases ev) (simp_all add: lstep_def off srv_start srv_master srv_eof srv_settle srv_queue srv_timeout srv_listen srv_node accept_fails_def srv_return)
qed

lemma lstep_go:
  assumes "process_go p"
  shows "process_go (lstep env ev p)"
proof -
  have node: "process_go (p\<lparr>node_of := n\<rparr>)" if "\<not> exited p" for n
    using that assms by (auto simp: process_go_def exited_def)
  have off: "process_go (p\<lparr>loop_on := False\<rparr>)" "process_go (p\<lparr>ping_on := b\<rparr>)" "process_go (p\<lparr>getack_on := b\<rparr>)"
    "runner p = Closed \<Longrightarrow> process_go (p\<lparr>runner := Exited 0\<rparr>)" "runner p = Selecting \<Longrightarrow> process_go (shut_down err p)"
    "down (node_of p) \<Longrightarrow> process_go (p\<lparr>runner := Exited 2\<rparr>)" for b err
    using assms by (auto simp: process_go_def shut_down_def Server_Close_def Let_def split: option.splits)
  show ?thesis
    using assms
    by (cases ev) (simp_all add: lstep_def off node go_start go_master go_eof go_settle go_listen accept_fails_def go_return)
qed

lemma launch_ok:
  assumes "launch env f rid = Ret (Inr p)"
  obtains addr where "process_srv e (replicaOf f = [], addr, if replicaOf f = [] then rid else []) p" "process_go p"
    "replicaOf f \<noteq> [] \<Longrightarrow> \<exists>host port. Split (replicaOf f) (CHR '' '') = [host, port] \<and> addr = host @ '':'' @ port"
proof -
  obtain cf s where cf: "run_config env f = Inr cf" and s: "NewServer env cf rid = Ret s" and p: "p = new_process s"
    using assms by (auto simp: launch_def split: sum.splits go.splits)
  have l: "replicaOf f = [] \<or> length (Split (replicaOf f) (CHR '' '')) = 2"
    using cf by (auto simp: run_config_def split: if_splits)
  have "config_value env cf ReplicaOfKey = replicaOf f"
    by (rule run_config_ok [OF l, of env]) (use cf in simp)
  then have f: "isMaster s \<longleftrightarrow> replicaOf f = []" "replicationID s = (if replicaOf f = [] then rid else [])" "handshake s = NotStarted"
    "replicaOf f \<noteq> [] \<Longrightarrow> masterAddr s = Split (replicaOf f) (CHR '' '') ! 0 @ '':'' @ Split (replicaOf f) (CHR '' '') ! 1"
    using s by (auto simp: NewServer_def config_value_def Let_def split: if_splits)
  show thesis
  proof
    show "process_srv e (replicaOf f = [], masterAddr s, if replicaOf f = [] then rid else []) p"
      using f NewServer_ok [OF s, of e] by (simp add: p new_process_def new_node_def process_srv_def fixed_def)
    show "process_go p" by (simp add: p new_process_def new_node_def process_go_def)
    assume r: "replicaOf f \<noteq> []"
    with l obtain host port where "Split (replicaOf f) (CHR '' '') = [host, port]" by (auto simp: length_Suc_conv numeral_2_eq_2)
    with f(4) [OF r] show "\<exists>host port. Split (replicaOf f) (CHR '' '') = [host, port] \<and> masterAddr s = host @ '':'' @ port" by simp
  qed
qed

lemma lreachable_ok:
  assumes "lreachable e f p"
  shows "process_go p" and "\<exists>addr rid. process_srv e (replicaOf f = [], addr, rid) p \<and>
    (replicaOf f \<noteq> [] \<longrightarrow> (\<exists>host port. Split (replicaOf f) (CHR '' '') = [host, port] \<and> addr = host @ '':'' @ port))"
proof -
  have "process_go p \<and> (\<exists>addr rid. process_srv e (replicaOf f = [], addr, rid) p \<and>
      (replicaOf f \<noteq> [] \<longrightarrow> (\<exists>host port. Split (replicaOf f) (CHR '' '') = [host, port] \<and> addr = host @ '':'' @ port)))"
    using assms
  proof (induction rule: lreachable.induct)
    case (launched env rid p)
    then show ?case by (rule launch_ok [of env f rid p e]) blast
  next
    case (event p env ev)
    then show ?case using lstep_go [of p env ev] lstep_srv [of e _ p env ev] by blast
  qed
  then show "process_go p" and "\<exists>addr rid. process_srv e (replicaOf f = [], addr, rid) p \<and>
    (replicaOf f \<noteq> [] \<longrightarrow> (\<exists>host port. Split (replicaOf f) (CHR '' '') = [host, port] \<and> addr = host @ '':'' @ port))"
    by blast+
qed

text \<open>C8: the life of a process, over every run from its flags: whatever clients, the master, the
  tickers, the operating system and a signal do. The invariant of the server holds; the process is a master
  exactly when \<open>replicaof\<close> was empty, and a replica keeps the master it was given; it listens, and its loop takes messages, only
  as a master or after a complete handshake; only a master pings and asks for acknowledgements; the
  context is cancelled only after \<open>Start\<close> has returned; \<open>done\<close> is never closed twice; and the
  process ends with a status other than 0 only by a panic.\<close>

theorem process_lifecycle:
  assumes "lreachable e f p"
  shows "server_ok e (psrv p) \<and> (isMaster (psrv p) \<longleftrightarrow> replicaOf f = []) \<and>
    (replicaOf f \<noteq> [] \<longrightarrow> (\<exists>host prt. Split (replicaOf f) (CHR '' '') = [host, prt] \<and> masterAddr (psrv p) = host @ '':'' @ prt)) \<and>
    (loop_on p \<or> starter p = Accepting \<longrightarrow> ln p \<noteq> None) \<and>
    (ln p \<noteq> None \<longrightarrow> isMaster (psrv p) \<or> handshake (psrv p) = Synced) \<and>
    (ping_on p \<or> getack_on p \<longrightarrow> isMaster (psrv p)) \<and>
    (ctx_done p \<longrightarrow> (\<exists>err. starter p = Returned err)) \<and>
    (runner p = Selecting \<longrightarrow> (\<exists>q err. Server_Close cerr p = Ret (q, err))) \<and>
    (runner p = Exited code \<longrightarrow> code = 0 \<or> down (node_of p))"
proof -
  have g: "process_go p" by (rule lreachable_ok [OF assms])
  from lreachable_ok(2) [OF assms] obtain addr rid where s: "process_srv e (replicaOf f = [], addr, rid) p"
    and a: "replicaOf f \<noteq> [] \<Longrightarrow> \<exists>host port. Split (replicaOf f) (CHR '' '') = [host, port] \<and> addr = host @ '':'' @ port" by blast
  have srv: "server_ok e (psrv p)" "isMaster (psrv p) \<longleftrightarrow> replicaOf f = []" "masterAddr (psrv p) = addr"
    "ln p \<noteq> None \<longrightarrow> isMaster (psrv p) \<or> handshake (psrv p) = Synced" "ping_on p \<or> getack_on p \<longrightarrow> isMaster (psrv p)"
    using s by (auto simp: process_srv_def fixed_def serving_def)
  have go: "loop_on p \<or> starter p = Accepting \<longrightarrow> ln p \<noteq> None" "ctx_done p \<longrightarrow> (\<exists>err. starter p = Returned err)"
    "runner p = Exited code \<longrightarrow> code = 0 \<or> down (node_of p)" "runner p = Selecting \<longrightarrow> \<not> done_closed p"
    using g unfolding process_go_def by blast+
  have "runner p = Selecting \<longrightarrow> (\<exists>q err. Server_Close cerr p = Ret (q, err))"
    using go(4) by (auto simp: Server_Close_def Let_def split: option.splits)
  with srv go a show ?thesis by blast
qed

text \<open>After \<open>done\<close> has been closed.\<close>

definition closing :: "process \<Rightarrow> bool" where
  "closing q \<longleftrightarrow> done_closed q \<and> (runner q = Closed \<or> runner q = Exited 0 \<or> runner q = Exited 2 \<and> down (node_of q))"

definition after_close :: "process \<Rightarrow> process \<Rightarrow> bool" where
  "after_close p q \<longleftrightarrow> closing q \<and> (starter p = Accepting \<longrightarrow> starter q = Accepting \<or> starter q = Returned None) \<and>
     (\<not> ctx_done p \<longrightarrow> \<not> ctx_done q \<and> (getack_on p \<longrightarrow> getack_on q))"

lemma settle_closed:
  assumes "runner q \<noteq> Selecting"
  shows "ctx_done (settle q) = ctx_done q" "starter q \<noteq> Replicating \<Longrightarrow> starter (settle q) = starter q"
  using assms by (simp_all add: settle_def split: handshake_step.splits)

lemma from_master_frame:
  "runner (from_master env input q) = runner q" "done_closed (from_master env input q) = done_closed q"
  "getack_on (from_master env input q) = getack_on q"
  "runner q \<noteq> Selecting \<Longrightarrow> ctx_done (from_master env input q) = ctx_done q"
  "starter q \<noteq> Replicating \<Longrightarrow> starter (from_master env input q) = starter q"
  by (simp_all add: from_master_def settle_closed settle_starter split: mconn.splits mstate.splits)

lemma master_eof_frame:
  "runner (master_eof q) = runner q" "done_closed (master_eof q) = done_closed q" "getack_on (master_eof q) = getack_on q"
  "ctx_done (master_eof q) = ctx_done q" "starter (master_eof q) = starter q"
  by (simp_all add: master_eof_def Let_def split: mconn.splits)

lemma Start_frame:
  "runner (Start env res dial m q) = runner q" "done_closed (Start env res dial m q) = done_closed q"
  "getack_on q \<Longrightarrow> getack_on (Start env res dial m q)"
  "runner q \<noteq> Selecting \<Longrightarrow> ctx_done (Start env res dial m q) = ctx_done q"
  by (simp_all add: Start_def Let_def settle_closed split: sum.splits option.splits)

lemma after_close_step:
  assumes "after_close p q"
  shows "after_close p (lstep env ev q)"
proof (cases "runner q = Closed \<and> \<not> down (node_of q)")
  case True
  then have q: "runner q \<noteq> Selecting" "done_closed q" using assms by (auto simp: after_close_def closing_def)
  show ?thesis
    using True q assms
    by (cases ev) (auto simp: after_close_def closing_def lstep_def exited_def from_master_frame master_eof_frame Start_frame settle_closed
        Listen_def accept_fails_def split: option.splits)
next
  case False
  then show ?thesis using assms by (auto simp: after_close_def closing_def lstep_def exited_def)
qed

text \<open>C17: shutting down. On a signal, in any state, or after \<open>Start\<close> has failed, for whatever reason, the main
  goroutine closes the server: this never panics and leaves the key space as it is, and then \<open>run\<close> ends the process with
  status 0, also when the start had failed. Whatever else the goroutines do until then, \<open>done\<close> stays
  closed, no other status than 0 is possible unless one of them panics, and a \<open>Start\<close> that was accepting connections
  can only return nil. The loop can stop unless a command of its own round waits (a \<open>WAIT\<close> inside
  \<open>EXEC\<close>). The goroutine that asks for acknowledgements never stops when \<open>Start\<close> had not returned before:
  the function that would cancel its context has been overwritten.\<close>

theorem shutdown_in_order:
  assumes "lreachable e f p" and "\<not> down (node_of p)" and "runner p = Selecting"
    and "ev = Interrupted cerr \<or> ev = ContextDone cerr \<and> starter p = Returned (Some err)"
  shows "let q = lstep env ev p in
    runner q = Closed \<and> store (psrv q) = store (psrv p) \<and> runner (lstep env ProcessEnds q) = Exited 0 \<and>
    (loop_on (lstep env LoopStops q) \<longleftrightarrow> loop_on p \<and> loop_wait (node_of p) \<noteq> None) \<and>
    (\<forall>evs. let r = fold (\<lambda>(env, ev). lstep env ev) evs q in
      done_closed r \<and> (runner r = Closed \<or> runner r = Exited 0 \<or> runner r = Exited 2 \<and> down (node_of r)) \<and>
      (starter p = Accepting \<longrightarrow> starter r = Accepting \<or> starter r = Returned None) \<and>
      (\<not> ctx_done p \<and> getack_on p \<longrightarrow> getack_on r))"
proof -
  have "\<not> done_closed p" "starter p = Returned (Some err) \<Longrightarrow> ctx_done p"
    using lreachable_ok(1) [OF assms(1)] assms(3) by (simp_all add: process_go_def)
  then have q: "lstep env ev p = p\<lparr>done_closed := True, runner := Closed\<rparr>"
    using assms(2-4) by (auto simp: lstep_def exited_def shut_down_def Server_Close_def Let_def split: option.splits)
  have "after_close p (fold (\<lambda>(env, ev). lstep env ev) evs r)" if "after_close p r" for evs r
    using that by (induction evs arbitrary: r) (auto simp: after_close_step)
  moreover have "after_close p (lstep env ev p)" unfolding q by (simp add: after_close_def closing_def)
  ultimately have "after_close p (fold (\<lambda>(env, ev). lstep env ev) evs (lstep env ev p))" for evs by blast
  moreover have "runner (lstep env ev p) = Closed \<and> store (psrv (lstep env ev p)) = store (psrv p) \<and>
      runner (lstep env ProcessEnds (lstep env ev p)) = Exited 0 \<and>
      (loop_on (lstep env LoopStops (lstep env ev p)) \<longleftrightarrow> loop_on p \<and> loop_wait (node_of p) \<noteq> None)"
    using assms(2) unfolding q by (auto simp: lstep_def exited_def)
  ultimately show ?thesis unfolding Let_def after_close_def closing_def by blast
qed

definition process_run :: "flags \<Rightarrow> levent list \<Rightarrow> process" where
  "process_run f evs = fold (lstep (plain_cmd_env 0)) evs
     (case launch (plain_env 0) f ''id'' of Ret (Inr p) \<Rightarrow> p | _ \<Rightarrow> new_process example_server)"

definition launches :: "flags \<Rightarrow> bool" where
  "launches f = (case launch (plain_env 0) f ''id'' of Ret (Inr p) \<Rightarrow> True | _ \<Rightarrow> False)"

lemma process_run_reachable:
  assumes "launches f"
  shows "lreachable (plain_env 0) f (process_run f evs)"
proof -
  from assms obtain p where p: "launch (plain_env 0) f ''id'' = Ret (Inr p)" by (auto simp: launches_def split: go.splits sum.splits)
  have "lreachable (plain_env 0) f (fold (lstep (plain_cmd_env 0)) evs q)" if "lreachable (plain_env 0) f q" for q
    using that by (induction evs arbitrary: q) (simp_all add: lreachable.event plain_cmd_env_def)
  then show ?thesis using lreachable.launched [OF p] by (simp add: process_run_def p)
qed

definition replica_flags :: flags where
  "replica_flags = default_flags\<lparr>replicaOf := ''localhost 6379''\<rparr>"

definition replica_run :: process where
  "replica_run = process_run replica_flags [StartRuns NotExist None 5, RequestQueued, FromMaster (''+PONG'' @ crlf), RequestQueued,
     FromMaster (''+OK'' @ crlf), RequestQueued, FromMaster (''+OK'' @ crlf), RequestQueued, FromMaster (''+FULLRESYNC id 0'' @ crlf @ ''$0'' @ crlf), ListenReturns None]"

theorem process_lifecycle_witness:
  "ln replica_run = Some '':6379'' \<and> loop_on replica_run \<and> handshake (psrv replica_run) = Synced \<and> \<not> ping_on replica_run"
proof -
  have l: "launches replica_flags" by code_simp
  have r: "lreachable (plain_env 0) replica_flags replica_run" unfolding replica_run_def by (rule process_run_reachable [OF l])
  have "ln replica_run = Some '':6379''" "loop_on replica_run" "replicaOf replica_flags \<noteq> []" by code_simp+
  with process_lifecycle [OF r] show ?thesis by auto
qed

definition failed_run :: process where
  "failed_run = process_run default_flags [StartRuns NotExist None 5, ListenReturns (Some ''address in use'')]"

theorem shutdown_in_order_witness:
  "starter failed_run = Returned (Some (ListenError ''address in use'')) \<and>
   runner (lstep (plain_cmd_env 0) ProcessEnds (lstep (plain_cmd_env 0) (ContextDone None) failed_run)) = Exited 0"
proof -
  have l: "launches default_flags" by code_simp
  have r: "lreachable (plain_env 0) default_flags failed_run" unfolding failed_run_def by (rule process_run_reachable [OF l])
  have p: "\<not> down (node_of failed_run)" "runner failed_run = Selecting" "starter failed_run = Returned (Some (ListenError ''address in use''))"
    by code_simp+
  with shutdown_in_order [OF r p(1,2), of "ContextDone None" None "ListenError ''address in use''" "plain_cmd_env 0"] show ?thesis
    by (simp add: Let_def)
qed

section \<open>SAVE and a restart\<close>

lemma launch_new: "launch env f rid = Ret (Inr p) \<Longrightarrow> p = new_process (psrv p) \<and> cl_heap (psrv p) = [] \<and> store (psrv p) = NewStore"
  by (auto simp: launch_def NewServer_def Let_def new_process_def new_node_def split: sum.splits go.splits if_splits)

text \<open>C15: \<open>SAVE\<close> and a restart. When a server in any reachable state, holding only strings, has answered
  \<open>SAVE\<close>, a master started at any later time on the file it has written comes up to \<open>Listen\<close> with exactly the pairs that have not
  expired by then, with their expiry times.\<close>

theorem save_then_restart:
  assumes "reachable e n" and "\<forall>kv \<in> set (store (srv n)). savable kv" and "int (length (store (srv n))) < 2 ^ 32"
    and "create_error env = None" and "launch env0 f rid = Ret (Inr p)" and "replicaOf f = []"
  shows "\<exists>s' bytes. Save_Execute env (srv n) w = Done s' (emit (''+OK'' @ crlf) w) None \<and> dump_file s' = Some bytes \<and>
    store s' = store (srv n) \<and>
    (let q = lstep env' (StartRuns (File bytes) dial m) p in
     starter q = AtListen \<and> store (psrv q) = filter (\<lambda>kv. \<not> gone (base env') kv) (store (srv n)))"
proof -
  have wf: "wf_store (store (srv n))" using server_ok_store [OF reachable_ok [OF assms(1)]] .
  then have ex: "kv_Export (store (srv n)) = store (srv n)" "distinct (map fst (store (srv n)))" by (simp_all add: kv_Export_id wf_store_def)
  obtain bytes d where b: "SaveRDB (base env) (store (srv n)) = Inr bytes"
    "ParseRDB (base env') (lzf_decompress env') bytes = Inr d" "GetData d = filter (\<lambda>kv. \<not> gone (base env') kv) (store (srv n))"
    using save_parse [OF assms(2) ex(2) assms(3)] by metis
  have p: "starter p = NotBegun" "runner p = Selecting" "\<not> down (node_of p)" "cl_heap (psrv p) = []"
    using launch_new [OF assms(5)] by (metis new_process_def new_node_def process.select_convs node.select_convs)+
  obtain addr where "process_srv e (replicaOf f = [], addr, if replicaOf f = [] then rid else []) p" by (rule launch_ok [OF assms(5), of e])
  then have "isMaster (psrv p)" using assms(6) by (simp add: process_srv_def fixed_def)
  with p b have "starter (lstep env' (StartRuns (File bytes) dial m) p) = AtListen"
    "store (psrv (lstep env' (StartRuns (File bytes) dial m) p)) = GetData d"
    by (simp_all add: lstep_def exited_def Start_def start_load_def load_file_def RestoreRDB_def Let_def)
  moreover have "Save_Execute env (srv n) w = Done ((srv n)\<lparr>dump_file := Some bytes\<rparr>) (emit (''+OK'' @ crlf) w) None"
    using assms(4) ex(1) b(1) by (simp add: Save_Execute_def write_ok_emit)
  ultimately show ?thesis using b(3) by (simp add: Let_def)
qed

definition saved_node :: node where
  "saved_node = example_run [Accept 1 ''x'' ''x'', message 1 [''SET'', ''k'', ''v'']]"

theorem save_then_restart_witness:
  "\<exists>s' bytes. Save_Execute (plain_cmd_env 0) (srv saved_node) (NewWriter 2) = Done s' (emit (''+OK'' @ crlf) (NewWriter 2)) None \<and> dump_file s' = Some bytes \<and>
    store (psrv (lstep (plain_cmd_env 9) (StartRuns (File bytes) None 0) (process_run default_flags []))) = [(''k'', string_value ''v'')]"
proof -
  have "launches default_flags" by code_simp
  then have l: "launch (plain_env 0) default_flags ''id'' = Ret (Inr (process_run default_flags []))"
    by (auto simp: launches_def process_run_def split: go.splits sum.splits)
  have s: "store (srv saved_node) = [(''k'', string_value ''v'')]" by code_simp
  have r: "reachable (plain_env 0) saved_node" unfolding saved_node_def by (rule example_reachable)
  have "replicaOf default_flags = []" "create_error (plain_cmd_env 0) = None" by code_simp+
  with save_then_restart [OF r _ _ _ l, of "plain_cmd_env 0" "NewWriter 2" "plain_cmd_env 9" None 0] s
  show ?thesis by (auto simp: savable_def string_value_def gone_def Let_def)
qed

end
