(* ===== verification/Spec2Isabelle.thy ===== *)
theory Spec2Isabelle
  imports Radix_Props Resp_Props Ack_Props Lifecycle_Props
begin

text \<open>
  A verification of a Redis server written in Go: a single process that serves clients over the
  Redis protocol, keeps strings and streams in memory, loads and saves RDB files, runs
  transactions, and replicates its writes from a master to replicas.

  \<^bold>\<open>The program.\<close> A connection (\<open>internal/client\<close>) is cut into messages, each an array of the
  protocol (\<open>pkg/resp\<close>). One loop (\<open>internal/app/server/server.go\<close>) takes the messages in turn,
  finds the command (\<open>pkg/command\<close>), runs it on the key space (\<open>pkg/keyval\<close>) and flushes the reply;
  commands that block run in goroutines of their own. Writes are sent on to the replicas, which
  were registered by \<open>REPLCONF\<close> and loaded by \<open>PSYNC\<close> with a snapshot (\<open>pkg/rdb\<close>, checked by
  \<open>pkg/crc64\<close>). A replica runs the same program with a handshake at its start and a goroutine that
  reads its master.

  \<^bold>\<open>The theories,\<close> from the bottom, each with the source it models.
  \<^item> \<open>Go_Base\<close>, \<open>Strconv\<close>: the parts of Go and its library in use (bytes, 64-bit integers with
    wrap-around, maps as association lists whose order is the order of iteration, panics as
    \<open>Panic\<close>, times, number formatting and parsing), the shared lemmas and collections.
  \<^item> \<open>Radix_Node\<close>, \<open>Radix_Tree\<close>, \<open>Radix_Ops\<close>: \<open>pkg/keyval/radix_tree.go\<close>. The four adaptive child
    containers meet one contract, the locale \<open>child_container\<close>.
  \<^item> \<open>Streams\<close>, \<open>Keyval\<close>: \<open>pkg/keyval/stream.go\<close> with the channels of its subscribers, \<open>kv.go\<close>.
  \<^item> \<open>Resp\<close>, \<open>Resp_Writer\<close>, \<open>Client\<close>: \<open>pkg/resp/resp.go\<close>, \<open>writer.go\<close> and \<open>command.go\<close>,
    \<open>internal/client/client.go\<close>.
  \<^item> \<open>Crc64\<close>, \<open>Rdb\<close>, \<open>Config\<close>: \<open>pkg/crc64\<close>, \<open>pkg/rdb\<close>, \<open>internal/app/server/config\<close>.
  \<^item> \<open>Server_State\<close>: the fields of \<open>Server\<close> (record \<open>server\<close>; a \<open>*client.Client\<close> is a number in its
    heap \<open>cl_heap\<close>) and the methods behind \<open>ServerInfoProvider\<close>. A command returns a \<open>cres\<close>: it is
    \<open>Done\<close> with the server, the writer and its error, it \<open>Blocks\<close>, or it panics (\<open>Crash\<close>).
  \<^item> \<open>Commands\<close>, \<open>Stream_Commands\<close>, \<open>Server_Commands\<close>: the files of \<open>pkg/command\<close>, one definition per
    \<open>Execute\<close> method, and \<open>pkg/resp/pattern.go\<close>.
  \<^item> \<open>Server\<close>: \<open>handleMessage\<close>, \<open>loop\<close>, \<open>handleBlockingCommand\<close> and the tickers as the steps of a process
    (record \<open>node\<close>, \<open>step\<close> over the datatype \<open>event\<close>). \<open>Replica\<close>: the handshake and
    \<open>handleMasterConnection\<close>.
  \<^item> \<open>Startup\<close>, \<open>Lifecycle\<close>: \<open>app/server.go\<close>, \<open>pkg/utils/random.go\<close> and \<open>Start\<close>, \<open>Listen\<close>, \<open>Close\<close> of
    \<open>server.go\<close>. A whole process is the record \<open>process\<close>: a \<open>node\<close> with the goroutine that runs \<open>Start\<close>,
    the main goroutine, the connection to the master, the listener, the channel \<open>done\<close>, the context
    and the goroutines that run; \<open>lstep\<close> is its step over the datatype \<open>levent\<close>.

  \<^bold>\<open>What is proved.\<close>
  \<^item> \<open>Radix_Props\<close>: on every reachable tree, insertion, range queries and trimming against the list
    of entries in tree order, and the IDs; where string order differs from the order of IDs.
  \<^item> \<open>Resp_Props\<close>: the parser ends on every input and reads back what the serializer and the reply
    writer write (as long as its lines stay in the buffer of the reader, \<open>buffer_safe\<close>); how a connection is cut into commands, and the inputs that block, lose or panic it.
  \<^item> \<open>Store_Props\<close>: the invariant of the key space, reads after writes, expiry, streams with their
    subscribers, saving and loading a store, the checksum against its bitwise definition.
  \<^item> \<open>Server_Inv\<close>, \<open>Command_Props\<close>, \<open>Command_Contract\<close>: the invariant of the server under every
    command; \<open>SET\<close> and \<open>INCR\<close> against a map from keys to live strings; the contracts
    \<open>store_command\<close> and \<open>view_command\<close> of the commands that act on the store alone, on which
    transactions and replication rest.
  \<^item> \<open>Stream_Props\<close>: \<open>XADD\<close> then \<open>XRANGE\<close> as a log over the commands, and that \<open>XADD\<close> wakes a blocked
    \<open>XREAD\<close> that has subscribed, and where such a reader misses an entry or is told the wrong stream;
    the arguments on which \<open>XADD\<close> panics, and that the stream commands do not panic on others.
  \<^item> \<open>Replica_Inv\<close>: the invariant of the server under what a replica reads from its master.
    \<open>Transaction_Props\<close>: the invariant over every run, \<open>MULTI\<close> puts commands off, \<open>EXEC\<close> is the
    same as one by one where no command returns an error. \<open>Server_Props\<close>: which messages cannot stop the server and which do, the end
    of \<open>WAIT\<close>, the offset and the pings. \<open>Replication_Props\<close>: the handshake and its race, the full
    resynchronization, propagation, and that a replica follows its master. \<open>Ack_Props\<close>: a round of
    acknowledgements between a master and a replica, and what it means for \<open>WAIT\<close>.
  \<^item> \<open>Server_Role\<close>, \<open>Startup\<close>, \<open>Lifecycle_Props\<close>: no command changes the role; the flags decide it; the
    invariant over the life of a process, its shutdown, and a restart on what \<open>SAVE\<close> wrote.

  \<^bold>\<open>Conventions.\<close> An operation that holds its lock for its whole body is one step. The clock does not
  advance within a command; every event comes with its own. A goroutine that only writes to one
  connection and ends runs where it is started. A blocking \<open>XREAD\<close> reads its streams in one step and
  subscribes in another, since no lock spans the two; in the same way the handshake sends a command
  (\<open>commandSender\<close>) and queues its request (\<open>queue_request\<close>) in two steps, between which the connection
  to the master may be read. Bytes reach a connection when the buffered
  writer is flushed, and a write fails only on a connection the program has closed itself. The
  iteration order of a Go map is the order of the list that stands for it. The parser recurses
  on fuel, one more than the number of input bytes, which is proved to be enough
  (\<open>resp_parse_total\<close>); every other loop is a total function with its termination proof, and the
  reading of a master is a function of the bytes that have arrived.

  \<^bold>\<open>Parameters.\<close> Code outside the repository is an argument: the clock and the Unicode tables
  (record \<open>go_env\<close>; on ASCII they are the usual ones), the regular expression engine, the LZF
  decompressor, the error of \<open>os.Create\<close> and the text of the error of a closed connection
  (record \<open>cmd_env\<close>), \<open>ParseFloat\<close> (argument of \<open>Float64\<close>) and the random source; what the operating
  system answers to opening, dialing, listening, accepting and closing comes with the event. Witnesses use \<open>plain_env\<close> and \<open>plain_cmd_env\<close>.

  \<^bold>\<open>Not modelled.\<close> Logging (\<open>pkg/telemetry\<close>), whose lines no other part reads; errors of sockets
  and files other than those above; the texts the parser wraps around its errors, which only
  reach the log; the reuse of slices through \<open>entrySlicePool\<close>; the reuse of the buffer of
  \<open>bufio.Reader\<close>, whose slices the parser keeps as the data of lines: \<open>ParseResp\<close> copies them, which is
  the same for \<open>buffer_safe\<close> values, and the round trips are stated for these;
  data races between goroutines of the same client; a snapshot that arrives in pieces (an event
  brings it whole, or the connection fails inside it); the wake-up of a waiting command that came
  from the master.
\<close>

end
